(* ===== verification/Float64.thy ===== *)
theory Float64
  imports Complex_Main "HOL-Library.Log_Nat"
begin

text \<open>
  Go's \<open>float64\<close>, IEEE 754 binary64 with rounding to the nearest value, ties to even: an exact
  rational, an infinity, or not a number. Each operation rounds the exact result once. The sign of a
  zero is not kept: nothing in the program divides by a float or looks at it.
\<close>

section \<open>Rounding\<close>

text \<open>The exponent of a positive number, rounding to an integer, and to 53 significant bits or to the
  spacing of the subnormal numbers.\<close>

definition exponent_of :: "rat \<Rightarrow> int" where
  "exponent_of x = (let (p, q) = quotient_of x; e = bitlen p - bitlen q in if 2 powi e \<le> x then e else e - 1)"

definition round_even :: "rat \<Rightarrow> int" where
  "round_even y = (let n = \<lfloor>y\<rfloor>; d = y - of_int n in if d < 1 / 2 \<or> (d = 1 / 2 \<and> even n) then n else n + 1)"

definition nearest :: "rat \<Rightarrow> rat" where
  "nearest x = (if x = 0 then 0
     else let k = max (exponent_of \<bar>x\<bar> - 52) (- 1074) in of_int (round_even (x / 2 powi k)) * 2 powi k)"

definition overflow :: rat where "overflow = 2 ^ 1024"

datatype f64 = Finite rat | PosInf | NegInf | NaN

definition rounded :: "rat \<Rightarrow> f64" where
  "rounded x = (let y = nearest x in if overflow \<le> y then PosInf else if y \<le> - overflow then NegInf else Finite y)"

section \<open>The operations the program uses\<close>

definition f64_of :: "int \<Rightarrow> f64" where
  "f64_of n = rounded (of_int n)"

fun fadd :: "f64 \<Rightarrow> f64 \<Rightarrow> f64" where
  "fadd (Finite x) (Finite y) = rounded (x + y)"
| "fadd NaN b = NaN"
| "fadd a NaN = NaN"
| "fadd PosInf NegInf = NaN"
| "fadd NegInf PosInf = NaN"
| "fadd (Finite x) b = b"
| "fadd a b = a"

fun fneg :: "f64 \<Rightarrow> f64" where
  "fneg (Finite x) = Finite (- x)"
| "fneg PosInf = NegInf"
| "fneg NegInf = PosInf"
| "fneg NaN = NaN"

definition fsub :: "f64 \<Rightarrow> f64 \<Rightarrow> f64" where
  "fsub a b = fadd a (fneg b)"

definition infinity_of :: "rat \<Rightarrow> f64" where
  "infinity_of s = (if s = 0 then NaN else if 0 < s then PosInf else NegInf)"

fun fmul :: "f64 \<Rightarrow> f64 \<Rightarrow> f64" where
  "fmul (Finite x) (Finite y) = rounded (x * y)"
| "fmul NaN b = NaN"
| "fmul a NaN = NaN"
| "fmul (Finite x) PosInf = infinity_of x"
| "fmul (Finite x) NegInf = infinity_of (- x)"
| "fmul PosInf (Finite y) = infinity_of y"
| "fmul NegInf (Finite y) = infinity_of (- y)"
| "fmul PosInf PosInf = PosInf"
| "fmul NegInf NegInf = PosInf"
| "fmul PosInf NegInf = NegInf"
| "fmul NegInf PosInf = NegInf"

text \<open>The order: not a number compares with nothing, and the built-in \<open>min\<close> passes it on.\<close>

fun fle :: "f64 \<Rightarrow> f64 \<Rightarrow> bool" where
  "fle (Finite x) (Finite y) = (x \<le> y)"
| "fle NaN b = False"
| "fle a NaN = False"
| "fle NegInf b = True"
| "fle a PosInf = True"
| "fle a b = False"

definition fmin :: "f64 \<Rightarrow> f64 \<Rightarrow> f64" where
  "fmin a b = (if a = NaN \<or> b = NaN then NaN else if fle a b then a else b)"

section \<open>How far rounding goes\<close>

lemma exponent_bounds:
  assumes "0 < x"
  shows "2 powi exponent_of x \<le> x" and "x < 2 powi (exponent_of x + 1)"
proof -
  obtain p q where pq: "quotient_of x = (p, q)" by force
  have q: "0 < q" by (rule quotient_of_denom_pos [OF pq])
  have x: "x = of_int p / of_int q" by (rule quotient_of_div [OF pq])
  have p: "0 < p" using assms q by (simp add: x zero_less_divide_iff)
  let ?e = "bitlen p - bitlen q"
  have pow: "(2 :: rat) powi (bitlen n - 1) \<le> of_int n \<and> of_int n < (2 :: rat) powi bitlen n" if "0 < n" for n
  proof -
    have b: "0 \<le> bitlen n - 1" using that bitlen_nonneg [of n] bitlen_eq_zero_iff [of n] by simp
    have "2 ^ nat (bitlen n - 1) \<le> n" "n < 2 ^ nat (bitlen n)" using bitlen_bounds [OF that] by simp_all
    then have "(of_int (2 ^ nat (bitlen n - 1)) :: rat) \<le> of_int n" "(of_int n :: rat) < of_int (2 ^ nat (bitlen n))"
      by (simp_all only: of_int_le_iff of_int_less_iff)
    then show ?thesis using b by (simp add: power_int_def)
  qed
  have qr: "(0 :: rat) < of_int q" using q by simp
  have "x < 2 powi bitlen p / 2 powi (bitlen q - 1)"
    unfolding x using pow [OF p] pow [OF q] p q by (intro frac_less) simp_all
  also have "\<dots> = 2 powi (?e + 1)" by (simp add: power_int_diff power_int_add)
  finally have up: "x < 2 powi (?e + 1)" .
  have "2 powi (bitlen p - 1) / 2 powi bitlen q \<le> x"
    unfolding x using pow [OF p] pow [OF q] p q by (intro frac_le) simp_all
  then have "2 powi (?e - 1) \<le> x" by (simp add: power_int_diff)
  then show "2 powi exponent_of x \<le> x" "x < 2 powi (exponent_of x + 1)"
    using up by (simp_all add: exponent_of_def pq Let_def)
qed

lemma round_even_error: "\<bar>of_int (round_even y) - y\<bar> \<le> 1 / 2"
proof -
  have "of_int \<lfloor>y\<rfloor> \<le> y" "y < of_int \<lfloor>y\<rfloor> + 1" by linarith+
  moreover have "of_int (round_even y) = (of_int \<lfloor>y\<rfloor> :: rat) \<and> y - of_int \<lfloor>y\<rfloor> \<le> 1 / 2 \<or>
      of_int (round_even y) = (of_int \<lfloor>y\<rfloor> + 1 :: rat) \<and> 1 / 2 \<le> y - of_int \<lfloor>y\<rfloor>"
    by (auto simp: round_even_def Let_def)
  ultimately show ?thesis by linarith
qed

lemma round_even_nonneg: "0 \<le> y \<Longrightarrow> 0 \<le> round_even y"
  by (simp add: round_even_def Let_def)

lemma round_even_int: "round_even (of_int n) = n"
  by (simp add: round_even_def)

lemma nearest_nonneg: "0 \<le> x \<Longrightarrow> 0 \<le> nearest x"
  by (simp add: nearest_def round_even_nonneg Let_def)

text \<open>Half a unit in the last place: a relative error for normal numbers, an absolute one below.\<close>

definition tiny :: rat where "tiny = 1 / 2 ^ 1075"

lemma tiny_bounds: "0 < tiny" "tiny \<le> 1 / 2 ^ 60"
proof -
  show "0 < tiny" by (simp add: tiny_def)
  have "(2 :: rat) ^ 60 \<le> 2 ^ 1075" by (rule power_increasing) simp_all
  then show "tiny \<le> 1 / 2 ^ 60" unfolding tiny_def by (intro divide_left_mono) simp_all
qed

lemma nearest_error:
  assumes "0 \<le> x"
  shows "\<bar>nearest x - x\<bar> \<le> x / 2 ^ 53 + tiny" and "1 / 2 ^ 1022 \<le> x \<Longrightarrow> \<bar>nearest x - x\<bar> \<le> x / 2 ^ 53"
proof -
  have both: "\<bar>nearest x - x\<bar> \<le> x / 2 ^ 53 \<or> (x < 1 / 2 ^ 1022 \<and> \<bar>nearest x - x\<bar> \<le> tiny)"
  proof (cases "x = 0")
    case False
    then have x: "0 < x" using assms by simp
    define e where "e = exponent_of x"
    define k where "k = max (e - 52) (- 1074)"
    have "nearest x - x = (of_int (round_even (x / 2 powi k)) - x / 2 powi k) * 2 powi k"
      using x by (simp add: nearest_def Let_def e_def k_def algebra_simps)
    then have "\<bar>nearest x - x\<bar> = \<bar>of_int (round_even (x / 2 powi k)) - x / 2 powi k\<bar> * 2 powi k"
      by (simp add: abs_mult)
    also have "\<dots> \<le> 1 / 2 * 2 powi k" by (intro mult_right_mono round_even_error) simp
    finally have err: "\<bar>nearest x - x\<bar> \<le> 2 powi k / 2" by simp
    show ?thesis
    proof (cases "- 1074 \<le> e - 52")
      case True
      then have "(2 :: rat) powi k / 2 = 2 powi e / 2 ^ 53" by (simp add: k_def power_int_diff)
      also have "\<dots> \<le> x / 2 ^ 53" using exponent_bounds(1) [OF x] by (intro divide_right_mono) (simp_all add: e_def)
      finally show ?thesis using err by simp
    next
      case False
      then have "e + 1 \<le> - 1022" by simp
      then have "(2 :: rat) powi (e + 1) \<le> 2 powi (- 1022)" by (intro power_int_increasing) simp_all
      then have "x < 1 / 2 ^ 1022" using exponent_bounds(2) [OF x] by (simp add: e_def power_int_minus_divide)
      moreover have "(2 :: rat) powi k / 2 = tiny" using False by (simp add: k_def tiny_def power_int_minus_divide)
      ultimately show ?thesis using err by simp
    qed
  qed (simp add: nearest_def)
  then show "\<bar>nearest x - x\<bar> \<le> x / 2 ^ 53 + tiny" using assms tiny_bounds(1) by (elim disjE) (simp_all add: add_increasing)
  show "1 / 2 ^ 1022 \<le> x \<Longrightarrow> \<bar>nearest x - x\<bar> \<le> x / 2 ^ 53" using both by auto
qed

lemma nearest_upper: "0 \<le> x \<Longrightarrow> nearest x \<le> x + x / 2 ^ 53 + tiny"
  using nearest_error(1) [of x] by linarith

lemma overflow_large: "2 ^ 64 < overflow"
  unfolding overflow_def by (rule power_strict_increasing) simp_all

lemma rounded_small: "0 \<le> x \<Longrightarrow> x \<le> 2 ^ 60 \<Longrightarrow> rounded x = Finite (nearest x)"
  using nearest_upper [of x] nearest_nonneg [of x] tiny_bounds overflow_large by (simp add: rounded_def Let_def)

lemma normal_min: "1 / 2 ^ 1022 \<le> (1 / 2 ^ 60 :: rat)"
proof -
  have "(2 :: rat) ^ 60 \<le> 2 ^ 1022" by (rule power_increasing) simp_all
  then show ?thesis by (intro divide_left_mono) simp_all
qed

lemma nearest_int:
  assumes "0 \<le> n" and "n \<le> 2 ^ 53"
  shows "nearest (of_int n) = of_int n"
proof (cases "n = 0")
  case False
  then have n: "0 < (of_int n :: rat)" using assms by simp
  define e where "e = exponent_of (of_int n)"
  have lo: "2 powi e \<le> (of_int n :: rat)" using exponent_bounds(1) [OF n] by (simp add: e_def)
  have hi: "(of_int n :: rat) < 2 powi (e + 1)" using exponent_bounds(2) [OF n] by (simp add: e_def)
  have "0 \<le> e"
  proof (rule ccontr)
    assume "\<not> 0 \<le> e"
    then have "(2 :: rat) powi (e + 1) \<le> 1" using power_int_increasing [of "e + 1" 0 "2 :: rat"] by simp
    then show False using hi n by simp
  qed
  define k where "k = max (e - 52) (- 1074)"
  have k: "k = e - 52" using \<open>0 \<le> e\<close> by (simp add: k_def)
  have "\<exists>m. (of_int n :: rat) / 2 powi k = of_int m"
  proof (cases "e \<le> 52")
    case True
    then have "(of_int n :: rat) / 2 powi k = of_int (n * 2 ^ nat (52 - e))"
      by (simp add: k power_int_def field_simps)
    then show ?thesis by blast
  next
    case False
    have "(of_int n :: rat) \<le> of_int (2 ^ 53)" using assms(2) by (simp only: of_int_le_iff)
    also have "\<dots> = 2 powi 53" by simp
    also have "\<dots> \<le> 2 powi e" using False by (intro power_int_increasing) simp_all
    finally have "of_int n = (2 :: rat) powi e" using lo by simp
    then have "(of_int n :: rat) / 2 powi k = 2 ^ 52" by (simp add: k power_int_diff)
    then show ?thesis by (intro exI [of _ "2 ^ 52"]) simp
  qed
  then obtain m where m: "(of_int n :: rat) / 2 powi k = of_int m" by blast
  have "nearest (of_int n) = of_int (round_even (of_int n / 2 powi k)) * 2 powi k"
    using n by (simp add: nearest_def Let_def k_def e_def)
  also have "\<dots> = of_int n / 2 powi k * 2 powi k" by (simp only: m round_even_int)
  finally show ?thesis by simp
qed (simp add: nearest_def)

end
