(* ===== verification/Prelude.thy ===== *)
theory Prelude
  imports Main "HOL-Library.Word" "HOL-Library.Signed_Division" "HOL-Library.Product_Lexorder"
    "HOL-Library.Multiset"
begin

text \<open>
  What every component of the gateway model shares: Go's integers at their width, Go's
  maps and slices, the few functions of Go's standard library the code calls
  (\<open>fmt.Sprintf("%d")\<close>, \<open>sort.Slice\<close>), and the generic lemmas about them.

  A Go \<open>int64\<close> is a \<open>64 word\<close>: \<open>+\<close>, \<open>-\<close> and \<open>*\<close> wrap exactly as Go's do, and Go's
  \<open>\<le>\<close>, \<open><\<close> are the signed orders \<open>\<le>s\<close>, \<open><s\<close>. A Go map is a HOL map; where the code
  ranges over a map, the order in which the runtime visits the keys is an argument of
  the model. A Go error value is its text.
\<close>

section \<open>Collections of the development\<close>

named_theorems go_signed \<open>signed comparisons of Go integers, read through sint\<close>
named_theorems go_arith \<open>additions and subtractions of Go integers that do not wrap\<close>

type_synonym i64 = "64 word"
type_synonym i32 = "32 word"
type_synonym error = string

section \<open>Signed machine integers\<close>

lemma sless_sint [go_signed]: "a <s b \<longleftrightarrow> sint a < sint b" for a b :: "'a::len word"
  by (rule word_sless_alt)

lemma sle_sint [go_signed]: "a \<le>s b \<longleftrightarrow> sint a \<le> sint b" for a b :: "'a::len word"
  by (rule word_sle_eq)

lemma i64_range: "- (2 ^ 63) \<le> sint x \<and> sint x < 2 ^ 63" for x :: i64
  using sint_ge [of x] sint_lt [of x] by simp

lemma i64_eq_iff: "a = b \<longleftrightarrow> sint a = sint b" for a b :: i64
  by (metis signed_word_eqI)

lemma sint_i64_eq: "- (2 ^ 63) \<le> k \<Longrightarrow> k < 2 ^ 63 \<Longrightarrow> sint (word_of_int k :: i64) = k"
  by (simp add: sint_sbintrunc' signed_take_bit_int_eq_self)

lemma sint_i64_add [go_arith]:
  "- (2 ^ 63) \<le> sint a + sint b \<Longrightarrow> sint a + sint b < 2 ^ 63 \<Longrightarrow>
   sint (a + b) = sint a + sint b" for a b :: i64
  by (simp add: sint_word_add signed_take_bit_int_eq_self)

lemma sint_i64_sub [go_arith]:
  "- (2 ^ 63) \<le> sint a - sint b \<Longrightarrow> sint a - sint b < 2 ^ 63 \<Longrightarrow>
   sint (a - b) = sint a - sint b" for a b :: i64
  by (simp add: sint_word_diff signed_take_bit_int_eq_self)

lemma sint_i64_uminus [go_arith]:
  "- (2 ^ 63) < sint a \<Longrightarrow> sint (- a) = - sint a" for a :: i64
  using i64_range [of a] by (simp add: sint_word_minus signed_take_bit_int_eq_self)

text \<open>Taking a part out of a non-negative amount never wraps.\<close>

lemma sint_take_away:
  "0 \<le> sint f \<Longrightarrow> sint f \<le> sint r \<Longrightarrow> sint (r - f) = sint r - sint f" for r f :: i64
  using i64_range [of r] i64_range [of f] by (intro sint_i64_sub) auto

lemma sint_i64_mult [go_arith]:
  "- (2 ^ 63) \<le> sint a * sint b \<Longrightarrow> sint a * sint b < 2 ^ 63 \<Longrightarrow>
   sint (a * b) = sint a * sint b" for a b :: i64
  by (simp add: sint_word_mult signed_take_bit_int_eq_self)

lemma sint_mult_le:
  fixes a b :: i64
  assumes "0 \<le> sint a" and "sint a \<le> x" and "0 \<le> sint b" and "sint b \<le> y" and "x * y < 2 ^ 63"
  shows "sint (a * b) = sint a * sint b" and "sint a * sint b \<le> x * y" and "0 \<le> sint a * sint b"
proof -
  show le: "sint a * sint b \<le> x * y" using assms by (intro mult_mono) auto
  show nn: "0 \<le> sint a * sint b" using assms by simp
  show "sint (a * b) = sint a * sint b" using le nn assms(5) by (intro sint_i64_mult) auto
qed

lemma i64_pos_nonzero: "0 < sint x \<Longrightarrow> x \<noteq> 0" for x :: i64
  by auto

lemma sint_zero_iff: "sint x = 0 \<longleftrightarrow> x = 0" for x :: i64
  by (metis i64_eq_iff sint_0)

section \<open>Go maps\<close>

text \<open>Reading an absent key of a \<open>map[K]int64\<close> gives the zero value.\<close>

definition map_get :: "('k \<rightharpoonup> 'v::zero) \<Rightarrow> 'k \<Rightarrow> 'v" where
  "map_get m k = (case m k of None \<Rightarrow> 0 | Some v \<Rightarrow> v)"

lemma map_get_upd [simp]: "map_get (m(k \<mapsto> v)) k' = (if k' = k then v else map_get m k')"
  by (simp add: map_get_def)

lemma map_get_empty [simp]: "map_get Map.empty k = 0"
  by (simp add: map_get_def)

text \<open>
  \<open>range_keys m ks\<close>: the list \<open>ks\<close> is an order in which \<open>for k := range m\<close> may visit \<open>m\<close>.
\<close>

definition range_keys :: "('k \<rightharpoonup> 'v) \<Rightarrow> 'k list \<Rightarrow> bool" where
  "range_keys m ks \<longleftrightarrow> distinct ks \<and> set ks = dom m"

text \<open>The sum of a quantity over the entries of a map.\<close>

definition msum :: "('v \<Rightarrow> 'a::comm_monoid_add) \<Rightarrow> ('k \<rightharpoonup> 'v) \<Rightarrow> 'a" where
  "msum f m = (\<Sum>k\<in>dom m. f (the (m k)))"

lemma msum_empty [simp]: "msum f Map.empty = 0"
  by (simp add: msum_def)

lemma msum_new:
  "finite (dom m) \<Longrightarrow> m k = None \<Longrightarrow> msum f (m(k \<mapsto> v)) = f v + msum f m"
proof -
  assume fin: "finite (dom m)" and new: "m k = None"
  then have "k \<notin> dom m" by auto
  moreover have "(\<Sum>x\<in>dom m. f (the ((m(k \<mapsto> v)) x))) = msum f m"
    unfolding msum_def using \<open>k \<notin> dom m\<close> by (intro sum.cong) auto
  ultimately show ?thesis using fin by (simp add: msum_def)
qed

lemma msum_upd:
  fixes f :: "'v \<Rightarrow> 'a::ab_group_add"
  assumes "finite (dom m)" and "m k = Some w"
  shows "msum f (m(k \<mapsto> v)) = msum f m - f w + f v"
proof -
  have "k \<in> dom m" using assms(2) by auto
  then have dom: "insert k (dom m) = dom m" by auto
  have "msum f m = f w + (\<Sum>x\<in>dom m - {k}. f (the (m x)))"
    using assms \<open>k \<in> dom m\<close> by (simp add: msum_def sum.remove)
  moreover have "msum f (m(k \<mapsto> v)) = f v + (\<Sum>x\<in>dom m - {k}. f (the ((m(k \<mapsto> v)) x)))"
    using assms \<open>k \<in> dom m\<close> by (simp add: msum_def dom sum.remove)
  moreover have "(\<Sum>x\<in>dom m - {k}. f (the ((m(k \<mapsto> v)) x))) = (\<Sum>x\<in>dom m - {k}. f (the (m x)))"
    by (intro sum.cong) auto
  ultimately show ?thesis by (simp add: algebra_simps)
qed

text \<open>Updating an entry, whether it was there or not: the sum changes by the difference.\<close>

lemma msum_put:
  fixes f :: "'v \<Rightarrow> 'a::ab_group_add"
  assumes "finite (dom m)"
  shows "msum f (m(k \<mapsto> v)) =
    msum f m - (case m k of None \<Rightarrow> 0 | Some w \<Rightarrow> f w) + f v"
  using assms by (cases "m k") (simp_all add: msum_new msum_upd)

lemma msum_range:
  "range_keys m ks \<Longrightarrow> msum f m = sum_list (map (\<lambda>k. f (the (m k))) ks)"
  by (simp add: range_keys_def msum_def sum_list_distinct_conv_sum_set)

section \<open>Decimal printing\<close>

definition digit_char :: "nat \<Rightarrow> char" where
  "digit_char d = ''0123456789'' ! d"

fun show_nat :: "nat \<Rightarrow> string" where
  "show_nat n = (if n < 10 then [digit_char n] else show_nat (n div 10) @ [digit_char (n mod 10)])"

declare show_nat.simps [simp del]

text \<open>\<open>fmt.Sprintf("%d", n)\<close> for an \<open>int64\<close>.\<close>

definition fmt_d :: "i64 \<Rightarrow> string" where
  "fmt_d n = (if sint n < 0 then ''-'' @ show_nat (nat (- sint n)) else show_nat (nat (sint n)))"

fun digit_val :: "char \<Rightarrow> nat" where
  "digit_val c = (of_char c :: nat) - 48"

definition read_nat :: "string \<Rightarrow> nat" where
  "read_nat s = foldl (\<lambda>acc c. 10 * acc + digit_val c) 0 s"

lemma digit_cases: "d < 10 \<Longrightarrow> d \<in> {0, 1, 2, 3, 4, 5, 6, 7, 8, 9 :: nat}"
  by auto

lemma digit_val_char: "d < 10 \<Longrightarrow> digit_val (digit_char d) = d"
  by (drule digit_cases) (auto simp: digit_char_def)

lemma digit_char_not: "d < 10 \<Longrightarrow> digit_char d \<noteq> CHR ''-'' \<and> digit_char d \<noteq> CHR '':''"
  by (drule digit_cases) (auto simp: digit_char_def)

lemma read_show_nat: "read_nat (show_nat n) = n"
proof (induction n rule: show_nat.induct)
  case (1 n)
  then show ?case
    by (subst show_nat.simps) (auto simp: read_nat_def digit_val_char simp del: digit_val.simps)
qed

lemma show_nat_inj: "show_nat m = show_nat n \<longleftrightarrow> m = n"
  by (metis read_show_nat)

lemma show_nat_chars: "c \<in> set (show_nat n) \<Longrightarrow> c \<noteq> CHR ''-'' \<and> c \<noteq> CHR '':''"
proof (induction n rule: show_nat.induct)
  case (1 n)
  then show ?case
    by (subst (asm) (2) show_nat.simps) (auto simp: digit_char_not split: if_splits)
qed

lemma show_nat_nonempty [simp]: "show_nat n \<noteq> []"
  by (subst show_nat.simps) simp

lemma fmt_d_inj: "fmt_d m = fmt_d n \<longleftrightarrow> m = n"
proof
  assume eq: "fmt_d m = fmt_d n"
  have minus: "show_nat a \<noteq> CHR ''-'' # xs" for a xs
    using show_nat_chars [of "CHR ''-''" a] by auto
  have "sint m = sint n"
    using eq minus minus [symmetric]
    by (auto simp: fmt_d_def show_nat_inj nat_eq_iff split: if_splits)
  then show "m = n" by (simp add: i64_eq_iff)
qed simp

section \<open>Sorting a slice\<close>

text \<open>
  \<open>sort.Slice(xs, lt)\<close>: it orders the slice by the comparison and promises nothing about
  elements the comparison cannot tell apart. The model is an insertion sort by \<open>lt\<close>;
  wherever the comparison separates all elements, every sorting algorithm returns this
  list (\<open>sorted_key_unique\<close>).
\<close>

fun insert_by :: "('a \<Rightarrow> 'a \<Rightarrow> bool) \<Rightarrow> 'a \<Rightarrow> 'a list \<Rightarrow> 'a list" where
  "insert_by lt x [] = [x]"
| "insert_by lt x (y # ys) = (if lt y x then y # insert_by lt x ys else x # y # ys)"

definition sort_slice :: "('a \<Rightarrow> 'a \<Rightarrow> bool) \<Rightarrow> 'a list \<Rightarrow> 'a list" where
  "sort_slice lt xs = foldr (insert_by lt) xs []"

lemma insert_by_key:
  "(\<And>a b. lt a b \<longleftrightarrow> key a < key b) \<Longrightarrow> insert_by lt x ys = insort_key key x ys"
  for key :: "'a \<Rightarrow> 'b::linorder"
  by (induction ys) (auto simp: not_le)

lemma sort_slice_key:
  "(\<And>a b. lt a b \<longleftrightarrow> key a < key b) \<Longrightarrow> sort_slice lt xs = sort_key key xs"
  for key :: "'a \<Rightarrow> 'b::linorder"
proof -
  assume lt: "\<And>a b. lt a b \<longleftrightarrow> key a < key b"
  have "insert_by lt = insort_key key"
    by (intro ext) (rule insert_by_key, rule lt)
  then show ?thesis by (simp add: sort_slice_def sort_key_def)
qed

lemma sorted_key_unique:
  fixes key :: "'a \<Rightarrow> 'b::linorder"
  assumes "sorted (map key xs)" and "mset xs = mset ys" and "inj_on key (set ys)"
  shows "xs = sort_key key ys"
proof -
  have "inj_on key (set xs)" using assms(2,3) by (metis mset_eq_setD)
  then have "inj_on key (set xs \<union> set (sort_key key ys))"
    using assms(2) by (metis mset_eq_setD mset_sort sup.idem)
  moreover have "map key xs = map key (sort_key key ys)"
  proof -
    have "mset (map key xs) = mset (map key (sort_key key ys))"
      using assms(2) by (metis mset_map mset_sort)
    moreover have "sorted (map key (sort_key key ys))" by simp
    ultimately show ?thesis using assms(1) by (metis properties_for_sort)
  qed
  ultimately show ?thesis by (metis inj_on_map_eq_map)
qed

lemma insort_key_map:
  "insort_key f (g x) (map g ys) = map g (insort_key (\<lambda>y. f (g y)) x ys)"
  by (induction ys) simp_all

lemma sort_key_map: "sort_key f (map g xs) = map g (sort_key (\<lambda>x. f (g x)) xs)"
  by (induction xs) (simp_all add: insort_key_map)

end
