(* ===== verification/EngineTypes.thy ===== *)
theory EngineTypes
  imports Prelude
begin

text \<open>
  The wire types of \<open>gateway/internal/engine/engine.go\<close>: the string enums, the requests
  and the answers of the engine client, and the account view. \<open>Side\<close>, \<open>OrderType\<close> and
  \<open>OrderStatus\<close> are Go string types: a decoded request can carry any string there, so the
  model keeps them as strings and names the documented values.
\<close>

section \<open>String enums\<close>

type_synonym Side = string
type_synonym OrderType = string
type_synonym OrderStatus = string

definition SideBuy :: Side where "SideBuy = ''BUY''"
definition SideSell :: Side where "SideSell = ''SELL''"

definition OrderTypeLimit :: OrderType where "OrderTypeLimit = ''LIMIT''"
definition OrderTypeMarket :: OrderType where "OrderTypeMarket = ''MARKET''"

definition StatusAccepted :: OrderStatus where "StatusAccepted = ''ACCEPTED''"
definition StatusPartiallyFilled :: OrderStatus where "StatusPartiallyFilled = ''PARTIALLY_FILLED''"
definition StatusFilled :: OrderStatus where "StatusFilled = ''FILLED''"
definition StatusCancelled :: OrderStatus where "StatusCancelled = ''CANCELLED''"
definition StatusRejected :: OrderStatus where "StatusRejected = ''REJECTED''"

lemma side_distinct [simp]: "SideBuy \<noteq> SideSell" "SideSell \<noteq> SideBuy"
  by (simp_all add: SideBuy_def SideSell_def)

lemma order_type_distinct [simp]: "OrderTypeLimit \<noteq> OrderTypeMarket" "OrderTypeMarket \<noteq> OrderTypeLimit"
  by (simp_all add: OrderTypeLimit_def OrderTypeMarket_def)

lemmas status_defs = StatusAccepted_def StatusPartiallyFilled_def StatusFilled_def
  StatusCancelled_def StatusRejected_def

lemma status_distinct [simp]:
  "distinct [StatusAccepted, StatusPartiallyFilled, StatusFilled, StatusCancelled, StatusRejected]"
  by (simp add: status_defs)

lemma status_neq [simp]:
  "StatusAccepted \<noteq> StatusPartiallyFilled" "StatusAccepted \<noteq> StatusFilled"
  "StatusAccepted \<noteq> StatusCancelled" "StatusAccepted \<noteq> StatusRejected"
  "StatusPartiallyFilled \<noteq> StatusAccepted" "StatusPartiallyFilled \<noteq> StatusFilled"
  "StatusPartiallyFilled \<noteq> StatusCancelled" "StatusPartiallyFilled \<noteq> StatusRejected"
  "StatusFilled \<noteq> StatusAccepted" "StatusFilled \<noteq> StatusPartiallyFilled"
  "StatusFilled \<noteq> StatusCancelled" "StatusFilled \<noteq> StatusRejected"
  "StatusCancelled \<noteq> StatusAccepted" "StatusCancelled \<noteq> StatusPartiallyFilled"
  "StatusCancelled \<noteq> StatusFilled" "StatusCancelled \<noteq> StatusRejected"
  "StatusRejected \<noteq> StatusAccepted" "StatusRejected \<noteq> StatusPartiallyFilled"
  "StatusRejected \<noteq> StatusFilled" "StatusRejected \<noteq> StatusCancelled"
  by (simp_all add: status_defs)

text \<open>The values the contract documents.\<close>

definition valid_side :: "Side \<Rightarrow> bool" where
  "valid_side s \<longleftrightarrow> s = SideBuy \<or> s = SideSell"

definition valid_type :: "OrderType \<Rightarrow> bool" where
  "valid_type t \<longleftrightarrow> t = OrderTypeLimit \<or> t = OrderTypeMarket"

section \<open>Requests and answers\<close>

record NewOrder =
  no_ClientOrderID :: string
  no_AccountID :: string
  no_Symbol :: string
  no_Side :: Side
  no_Type :: OrderType
  no_PriceTicks :: i64
  no_Quantity :: i64

record CancelOrder =
  co_OrderID :: string
  co_Symbol :: string
  co_AccountID :: string

record Trade =
  tr_TradeID :: string
  tr_Symbol :: string
  tr_PriceTicks :: i64
  tr_Quantity :: i64
  tr_BuyOrderID :: string
  tr_SellOrderID :: string
  tr_TsMillis :: i64

record OrderAck =
  ack_OrderID :: string
  ack_Status :: OrderStatus
  ack_FilledQuantity :: i64
  ack_Reason :: string
  ack_Trades :: "Trade list"

record PriceLevel =
  pl_PriceTicks :: i64
  pl_Quantity :: i64

record BookSnapshot =
  bs_Symbol :: string
  bs_Bids :: "PriceLevel list"
  bs_Asks :: "PriceLevel list"
  bs_TsMillis :: i64

record BookRequest =
  br_Symbol :: string
  br_Depth :: i32

record PositionView =
  pv_Symbol :: string
  pv_Quantity :: i64
  pv_AvgPriceTicks :: i64

record AccountSnapshot =
  as_AccountID :: string
  as_CashTicks :: i64
  as_RealizedPnlTicks :: i64
  as_UnrealizedPnlTicks :: i64
  as_Positions :: "PositionView list"

text \<open>The zero value of an \<open>OrderAck\<close>, which composite literals start from.\<close>

definition ack_zero :: OrderAck where
  "ack_zero = \<lparr>ack_OrderID = '''', ack_Status = '''', ack_FilledQuantity = 0, ack_Reason = '''',
     ack_Trades = []\<rparr>"

end
