(* ===== verification/Proto.thy ===== *)
theory Proto
  imports EngineTypes
begin

text \<open>
  The wire messages of \<open>gateway/genproto/openexchange.pb.go\<close> as far as the gateway uses them.
  An enum is a Go \<open>int32\<close>: a decoded message may carry any number, so the enums are 32-bit
  words with named values. A message pointer may be nil, and the generated getters then return
  zero values: a pointer is an option, read through \<open>deref\<close>. A \<open>double\<close> is carried, never
  computed with: it is its 64 bits.
\<close>

type_synonym float64 = "64 word"

section \<open>Enums\<close>

type_synonym PbSide = i32
type_synonym PbOrderType = i32
type_synonym PbOrderStatus = i32
type_synonym PbSignalKind = i32
type_synonym PbSignalAction = i32

definition Side_SIDE_UNSPECIFIED :: PbSide where "Side_SIDE_UNSPECIFIED = 0"
definition Side_BUY :: PbSide where "Side_BUY = 1"
definition Side_SELL :: PbSide where "Side_SELL = 2"

definition OrderType_ORDER_TYPE_UNSPECIFIED :: PbOrderType where "OrderType_ORDER_TYPE_UNSPECIFIED = 0"
definition OrderType_LIMIT :: PbOrderType where "OrderType_LIMIT = 1"
definition OrderType_MARKET :: PbOrderType where "OrderType_MARKET = 2"

definition OrderStatus_ORDER_STATUS_UNSPECIFIED :: PbOrderStatus where
  "OrderStatus_ORDER_STATUS_UNSPECIFIED = 0"
definition OrderStatus_ACCEPTED :: PbOrderStatus where "OrderStatus_ACCEPTED = 1"
definition OrderStatus_PARTIALLY_FILLED :: PbOrderStatus where "OrderStatus_PARTIALLY_FILLED = 2"
definition OrderStatus_FILLED :: PbOrderStatus where "OrderStatus_FILLED = 3"
definition OrderStatus_CANCELLED :: PbOrderStatus where "OrderStatus_CANCELLED = 4"
definition OrderStatus_REJECTED :: PbOrderStatus where "OrderStatus_REJECTED = 5"

definition SignalAction_SIGNAL_ACTION_UNSPECIFIED :: PbSignalAction where
  "SignalAction_SIGNAL_ACTION_UNSPECIFIED = 0"
definition SignalAction_ALLOW :: PbSignalAction where "SignalAction_ALLOW = 1"
definition SignalAction_REJECT :: PbSignalAction where "SignalAction_REJECT = 2"

lemmas pb_side_defs = Side_SIDE_UNSPECIFIED_def Side_BUY_def Side_SELL_def
lemmas pb_type_defs = OrderType_ORDER_TYPE_UNSPECIFIED_def OrderType_LIMIT_def OrderType_MARKET_def
lemmas pb_status_defs = OrderStatus_ORDER_STATUS_UNSPECIFIED_def OrderStatus_ACCEPTED_def
  OrderStatus_PARTIALLY_FILLED_def OrderStatus_FILLED_def OrderStatus_CANCELLED_def
  OrderStatus_REJECTED_def

text \<open>
  \<open>String\<close> of the signal enums: the name of a known value; \<open>numText\<close> is how the protobuf runtime
  renders an unknown number.
\<close>

definition SignalKind_String :: "(i32 \<Rightarrow> string) \<Rightarrow> PbSignalKind \<Rightarrow> string" where
  "SignalKind_String numText k =
     (if k = 0 then ''SIGNAL_KIND_UNSPECIFIED'' else if k = 1 then ''ANOMALY''
      else if k = 2 then ''RISK_EXPOSURE'' else if k = 3 then ''PRICE_PREDICTION'' else numText k)"

definition SignalAction_String :: "(i32 \<Rightarrow> string) \<Rightarrow> PbSignalAction \<Rightarrow> string" where
  "SignalAction_String numText a =
     (if a = 0 then ''SIGNAL_ACTION_UNSPECIFIED'' else if a = 1 then ''ALLOW''
      else if a = 2 then ''REJECT'' else numText a)"

section \<open>Messages\<close>

record PbNewOrder =
  pno_ClientOrderId :: string
  pno_AccountId :: string
  pno_Symbol :: string
  pno_Side :: PbSide
  pno_Type :: PbOrderType
  pno_PriceTicks :: i64
  pno_Quantity :: i64

record PbCancelOrderRequest =
  pco_OrderId :: string
  pco_Symbol :: string
  pco_AccountId :: string

record PbOrderAck =
  pack_OrderId :: string
  pack_Status :: PbOrderStatus
  pack_FilledQuantity :: i64
  pack_Reason :: string

record PbOrderEvent =
  pev_ClientOrderId :: string
  pev_AccountId :: string
  pev_Symbol :: string
  pev_Side :: PbSide
  pev_Type :: PbOrderType
  pev_PriceTicks :: i64
  pev_Quantity :: i64
  pev_IsCancel :: bool
  pev_OrderId :: string
  pev_Status :: PbOrderStatus
  pev_TsMillis :: i64

record PbTrade =
  ptr_TradeId :: string
  ptr_Symbol :: string
  ptr_PriceTicks :: i64
  ptr_Quantity :: i64
  ptr_BuyOrderId :: string
  ptr_SellOrderId :: string
  ptr_TsMillis :: i64
  ptr_BuyAccountId :: string
  ptr_SellAccountId :: string

record PbPriceLevel =
  ppl_PriceTicks :: i64
  ppl_Quantity :: i64

record PbBookSnapshot =
  pbs_Symbol :: string
  pbs_Bids :: "PbPriceLevel option list"
  pbs_Asks :: "PbPriceLevel option list"
  pbs_TsMillis :: i64

record PbBookRequest =
  pbr_Symbol :: string
  pbr_Depth :: i32

record PbRiskSignal =
  prs_Kind :: PbSignalKind
  prs_AccountId :: string
  prs_Symbol :: string
  prs_Score :: float64
  prs_Action :: PbSignalAction
  prs_Reason :: string
  prs_TsMillis :: i64

section \<open>Zero values and getters\<close>

definition pb_ack_zero :: PbOrderAck where
  "pb_ack_zero = \<lparr>pack_OrderId = '''', pack_Status = 0, pack_FilledQuantity = 0, pack_Reason = ''''\<rparr>"

definition pb_event_zero :: PbOrderEvent where
  "pb_event_zero = \<lparr>pev_ClientOrderId = '''', pev_AccountId = '''', pev_Symbol = '''', pev_Side = 0,
     pev_Type = 0, pev_PriceTicks = 0, pev_Quantity = 0, pev_IsCancel = False, pev_OrderId = '''',
     pev_Status = 0, pev_TsMillis = 0\<rparr>"

definition pb_level_zero :: PbPriceLevel where
  "pb_level_zero = \<lparr>ppl_PriceTicks = 0, ppl_Quantity = 0\<rparr>"

definition pb_book_zero :: PbBookSnapshot where
  "pb_book_zero = \<lparr>pbs_Symbol = '''', pbs_Bids = [], pbs_Asks = [], pbs_TsMillis = 0\<rparr>"

text \<open>A getter of a message pointer: the field, or the field of the zero message for nil.\<close>

definition deref :: "'a \<Rightarrow> 'a option \<Rightarrow> 'a" where
  "deref zero p = (case p of None \<Rightarrow> zero | Some v \<Rightarrow> v)"

lemma deref_simps [simp]: "deref z None = z" "deref z (Some v) = v"
  by (simp_all add: deref_def)

end
