(* ===== verification/Http.thy ===== *)
theory Http
  imports Proto
begin

text \<open>
  What the handlers and the middleware see of an HTTP exchange: the request, the headers set so
  far on the response writer, the response written. A body is kept as the value that is encoded
  into it. \<open>strconv.Atoi\<close> and the header operations are those of Go's standard library.
\<close>

section \<open>Requests and responses\<close>

text \<open>
  \<open>rq_header\<close>, \<open>rq_query\<close> and \<open>rq_path\<close> are \<open>Header.Get\<close>, \<open>Query().Get\<close> and \<open>PathValue\<close>, which
  give the empty string for what is absent; \<open>rq_account\<close> is the account id the JWT middleware put
  into the request's context, or the empty string.
\<close>

record HttpRequest =
  rq_method :: string
  rq_header :: "string \<Rightarrow> string"
  rq_query :: "string \<Rightarrow> string"
  rq_path :: "string \<Rightarrow> string"
  rq_remote :: string
  rq_body :: string
  rq_account :: string

datatype body =
    AckBody OrderAck
  | BookBody BookSnapshot
  | AccountBody AccountSnapshot
  | ErrorBody string
  | HealthBody bool
  | SessionBody string string i64
  | TokensBody string string string i64
  | SimBody bool bool
  | NoBody

type_synonym headers = "string \<rightharpoonup> string list"

record Response =
  rsp_status :: nat
  rsp_headers :: headers
  rsp_body :: body

text \<open>\<open>Header().Set\<close> and \<open>Header().Add\<close>.\<close>

definition header_set :: "headers \<Rightarrow> string \<Rightarrow> string \<Rightarrow> headers" where
  "header_set h k v = h(k \<mapsto> [v])"

definition header_add :: "headers \<Rightarrow> string \<Rightarrow> string \<Rightarrow> headers" where
  "header_add h k v = h(k \<mapsto> (case h k of None \<Rightarrow> [] | Some vs \<Rightarrow> vs) @ [v])"

definition writeJSON :: "headers \<Rightarrow> nat \<Rightarrow> body \<Rightarrow> Response" where
  "writeJSON h status v =
     \<lparr>rsp_status = status, rsp_headers = header_set h ''Content-Type'' ''application/json'', rsp_body = v\<rparr>"

definition writeErr :: "headers \<Rightarrow> nat \<Rightarrow> string \<Rightarrow> Response" where
  "writeErr h status msg = writeJSON h status (ErrorBody msg)"

lemma writeJSON_simps [simp]:
  "rsp_status (writeJSON h n v) = n" "rsp_body (writeJSON h n v) = v"
  by (simp_all add: writeJSON_def)

lemma writeErr_simps [simp]:
  "rsp_status (writeErr h n m) = n" "rsp_body (writeErr h n m) = ErrorBody m"
  by (simp_all add: writeErr_def)

text \<open>
  A handler answers a request, given the headers set before it was called, and changes the world.
\<close>

type_synonym 'w handler = "headers \<Rightarrow> HttpRequest \<Rightarrow> 'w \<Rightarrow> Response \<times> 'w"

section \<open>Reading numbers\<close>

definition is_digit :: "char \<Rightarrow> bool" where
  "is_digit c \<longleftrightarrow> c \<in> set ''0123456789''"

text \<open>\<open>strconv.Atoi\<close>: an optional sign, digits, a value that fits an \<open>int\<close>.\<close>

definition split_sign :: "string \<Rightarrow> bool \<times> string" where
  "split_sign s =
     (case s of
        [] \<Rightarrow> (False, [])
      | c # cs \<Rightarrow> if c = CHR ''-'' then (True, cs) else if c = CHR ''+'' then (False, cs) else (False, s))"

definition atoi :: "string \<Rightarrow> i64 option" where
  "atoi s =
     (let (neg, ds) = split_sign s;
          v = (if neg then - int (read_nat ds) else int (read_nat ds))
      in if ds = [] \<or> \<not> list_all is_digit ds then None
         else if - (2 ^ 63) \<le> v \<and> v < 2 ^ 63 then Some (word_of_int v)
         else None)"

lemma show_nat_digits: "list_all is_digit (show_nat n)"
proof (induction n rule: show_nat.induct)
  case (1 n)
  have "d < 10 \<Longrightarrow> is_digit (digit_char d)" for d
    by (drule digit_cases) (auto simp: is_digit_def digit_char_def)
  then show ?case using 1 by (subst show_nat.simps) simp
qed

lemma split_sign_digits: "list_all is_digit s \<Longrightarrow> split_sign s = (False, s)"
  by (cases s) (auto simp: split_sign_def is_digit_def)

text \<open>\<open>Atoi\<close> reads back what \<open>%d\<close> prints.\<close>

lemma atoi_fmt_d: "atoi (fmt_d n) = Some n"
proof -
  have rng: "- (2 ^ 63) \<le> sint n" "sint n < 2 ^ 63" using i64_range [of n] by simp_all
  show ?thesis
  proof (cases "sint n < 0")
    case True
    then show ?thesis using rng show_nat_digits
      by (simp add: atoi_def fmt_d_def split_sign_def read_show_nat)
  next
    case False
    then show ?thesis using rng show_nat_digits split_sign_digits [OF show_nat_digits]
      by (simp add: atoi_def fmt_d_def read_show_nat)
  qed
qed

end
