(* ===== verification/Ledger.thy ===== *)
theory Ledger
  imports EngineTypes
begin

text \<open>
  The per-account ledger of the in-process engine, \<open>gateway/internal/engine/ledger.go\<close>:
  cash, realized profit and positions by the average-cost method. The accounts map of
  \<open>LocalEngine\<close> is the state of this theory; \<open>applyFill\<close> books one side of one execution.
\<close>

section \<open>Arithmetic helpers\<close>

definition sameSign :: "i64 \<Rightarrow> i64 \<Rightarrow> bool" where
  "sameSign a b = ((0 <s a) = (0 <s b))"

definition abs64 :: "i64 \<Rightarrow> i64" where
  "abs64 x = (if x <s 0 then - x else x)"

definition min64 :: "i64 \<Rightarrow> i64 \<Rightarrow> i64" where
  "min64 a b = (if a <s b then a else b)"

text \<open>Go's \<open>int64\<close> division truncates towards zero (and wraps on \<open>MinInt64 / -1\<close>).\<close>

definition div64 :: "i64 \<Rightarrow> i64 \<Rightarrow> i64" where
  "div64 a b = word_of_int (sint a sdiv sint b)"

section \<open>State\<close>

record position =
  pos_qty :: i64
  pos_costBasis :: i64

record ledgerAccount =
  la_cash :: i64
  la_realized :: i64
  la_positions :: "string \<rightharpoonup> position"

type_synonym accounts = "string \<rightharpoonup> ledgerAccount"

definition StartingCashTicks :: i64 where
  "StartingCashTicks = 1000000"

definition opposite :: "Side \<Rightarrow> Side" where
  "opposite s = (if s = SideBuy then SideSell else SideBuy)"

section \<open>Operations\<close>

definition new_account :: ledgerAccount where
  "new_account = \<lparr>la_cash = StartingCashTicks, la_realized = 0, la_positions = Map.empty\<rparr>"

definition new_position :: position where
  "new_position = \<lparr>pos_qty = 0, pos_costBasis = 0\<rparr>"

text \<open>\<open>account\<close>: the ledger of an account, opening it with the demo balance if needed.\<close>

definition account :: "accounts \<Rightarrow> string \<Rightarrow> ledgerAccount \<times> accounts" where
  "account m accountID =
     (case m accountID of
        Some a \<Rightarrow> (a, m)
      | None \<Rightarrow> (new_account, m(accountID \<mapsto> new_account)))"

text \<open>
  The switch of \<open>applyFill\<close>: opening, adding, or reducing / closing / flipping. It takes the
  account's position and realized profit and returns both updated.
\<close>

definition settle :: "position \<Rightarrow> i64 \<Rightarrow> i64 \<Rightarrow> i64 \<Rightarrow> i64 \<Rightarrow> position \<times> i64" where
  "settle pos delta price qty realized =
     (if pos_qty pos = 0 then
        (\<lparr>pos_qty = delta, pos_costBasis = price * qty\<rparr>, realized)
      else if sameSign (pos_qty pos) delta then
        (\<lparr>pos_qty = pos_qty pos + delta, pos_costBasis = pos_costBasis pos + price * qty\<rparr>, realized)
      else
        let closeQty = min64 (abs64 (pos_qty pos)) (abs64 delta);
            closedCost = (if closeQty = abs64 (pos_qty pos) then pos_costBasis pos
                          else div64 (pos_costBasis pos * closeQty) (abs64 (pos_qty pos)));
            realized' = (if 0 <s pos_qty pos then realized + (price * closeQty - closedCost)
                         else realized + (closedCost - price * closeQty));
            basis = pos_costBasis pos - closedCost;
            newQty = pos_qty pos + delta;
            basis' = (if newQty = 0 then 0
                      else if sameSign newQty delta then price * abs64 newQty
                      else basis)
        in (\<lparr>pos_qty = newQty, pos_costBasis = basis'\<rparr>, realized'))"

definition applyFill :: "accounts \<Rightarrow> string \<Rightarrow> string \<Rightarrow> Side \<Rightarrow> i64 \<Rightarrow> i64 \<Rightarrow> accounts" where
  "applyFill m accountID symbol side price qty =
     (let (a, m') = account m accountID;
          pos = (case la_positions a symbol of None \<Rightarrow> new_position | Some p \<Rightarrow> p);
          delta = (if side = SideSell then - qty else qty);
          cash = (if side = SideSell then la_cash a + price * qty else la_cash a - price * qty);
          (pos', realized) = settle pos delta price qty (la_realized a)
      in m'(accountID \<mapsto> \<lparr>la_cash = cash, la_realized = realized,
                          la_positions = (la_positions a)(symbol \<mapsto> pos')\<rparr>))"

text \<open>
  The body of \<open>GetAccount\<close> for a known account: one pass over the positions in the order
  \<open>syms\<close> in which \<open>range a.positions\<close> visits them, skipping flat ones.
\<close>

fun accountViews ::
  "(string \<rightharpoonup> i64) \<Rightarrow> (string \<rightharpoonup> position) \<Rightarrow> string list \<Rightarrow> i64 \<Rightarrow> PositionView list \<Rightarrow>
   i64 \<times> PositionView list" where
  "accountViews lastPrice ps [] unrealized views = (unrealized, views)"
| "accountViews lastPrice ps (k # ks) unrealized views =
     (case ps k of
        None \<Rightarrow> accountViews lastPrice ps ks unrealized views
      | Some p \<Rightarrow>
          if pos_qty p = 0 then accountViews lastPrice ps ks unrealized views
          else
            let avg = div64 (pos_costBasis p) (abs64 (pos_qty p));
                mark = map_get lastPrice k;
                unrealized' =
                  (if mark \<noteq> 0 then
                     (if 0 <s pos_qty p then unrealized + (mark * pos_qty p - pos_costBasis p)
                      else unrealized + (pos_costBasis p - mark * abs64 (pos_qty p)))
                   else unrealized)
            in accountViews lastPrice ps ks unrealized'
                 (views @ [\<lparr>pv_Symbol = k, pv_Quantity = pos_qty p, pv_AvgPriceTicks = avg\<rparr>]))"

definition GetAccount ::
  "accounts \<Rightarrow> (string \<rightharpoonup> i64) \<Rightarrow> string option \<Rightarrow> string \<Rightarrow> string list \<Rightarrow> error + AccountSnapshot" where
  "GetAccount m lastPrice ctxErr accountID syms =
     (case ctxErr of
        Some err \<Rightarrow> Inl err
      | None \<Rightarrow>
          (case m accountID of
             None \<Rightarrow> Inr \<lparr>as_AccountID = accountID, as_CashTicks = StartingCashTicks,
                          as_RealizedPnlTicks = 0, as_UnrealizedPnlTicks = 0, as_Positions = []\<rparr>
           | Some a \<Rightarrow>
               let (unrealized, views) = accountViews lastPrice (la_positions a) syms 0 []
               in Inr \<lparr>as_AccountID = accountID, as_CashTicks = la_cash a,
                        as_RealizedPnlTicks = la_realized a, as_UnrealizedPnlTicks = unrealized,
                        as_Positions = views\<rparr>))"

section \<open>Reading the ledger\<close>

text \<open>
  The observations the contract of the ledger speaks of: an account's cash (the opening
  balance while the account has never traded) and its signed quantity of a symbol.
\<close>

definition cash_of :: "accounts \<Rightarrow> string \<Rightarrow> i64" where
  "cash_of m a = (case m a of None \<Rightarrow> StartingCashTicks | Some acc \<Rightarrow> la_cash acc)"

definition realized_of :: "accounts \<Rightarrow> string \<Rightarrow> i64" where
  "realized_of m a = (case m a of None \<Rightarrow> 0 | Some acc \<Rightarrow> la_realized acc)"

definition positions_of :: "accounts \<Rightarrow> string \<Rightarrow> (string \<rightharpoonup> position)" where
  "positions_of m a = (case m a of None \<Rightarrow> Map.empty | Some acc \<Rightarrow> la_positions acc)"

definition position_of :: "accounts \<Rightarrow> string \<Rightarrow> string \<Rightarrow> position" where
  "position_of m a s = (case positions_of m a s of None \<Rightarrow> new_position | Some p \<Rightarrow> p)"

definition qty_of :: "accounts \<Rightarrow> string \<Rightarrow> string \<Rightarrow> i64" where
  "qty_of m a s = pos_qty (position_of m a s)"

text \<open>The signed quantity a fill of one side moves, and the cash it moves.\<close>

definition signed_qty :: "Side \<Rightarrow> i64 \<Rightarrow> i64" where
  "signed_qty side qty = (if side = SideSell then - qty else qty)"

lemma signed_qty_opposite:
  "valid_side side \<Longrightarrow> signed_qty (opposite side) qty = - signed_qty side qty"
  by (auto simp: valid_side_def opposite_def signed_qty_def)

lemma opposite_valid [simp]: "valid_side (opposite side)"
  by (simp add: valid_side_def opposite_def)

lemma opposite_neq [simp]: "opposite side \<noteq> side"
  by (auto simp: opposite_def)

lemma settle_qty: "pos_qty (fst (settle pos delta price qty r)) = pos_qty pos + delta"
  by (simp add: settle_def Let_def)

text \<open>The functional content of \<open>applyFill\<close>: what it does to one account, and nothing else.\<close>

lemma applyFill_eq:
  "applyFill m a s side price qty =
     m(a \<mapsto> \<lparr>la_cash = cash_of m a - price * signed_qty side qty,
             la_realized = snd (settle (position_of m a s) (signed_qty side qty) price qty (realized_of m a)),
             la_positions = (positions_of m a)(s \<mapsto>
               fst (settle (position_of m a s) (signed_qty side qty) price qty (realized_of m a)))\<rparr>)"
  by (cases "m a")
    (auto simp: applyFill_def account_def cash_of_def realized_of_def positions_of_def
      position_of_def signed_qty_def new_account_def Let_def split: prod.splits)

lemma applyFill_other: "b \<noteq> a \<Longrightarrow> applyFill m a s side price qty b = m b"
  by (simp add: applyFill_eq)

lemma cash_of_applyFill:
  "cash_of (applyFill m a s side price qty) b =
     cash_of m b - (if b = a then price * signed_qty side qty else 0)"
  by (simp add: applyFill_eq cash_of_def)

lemma qty_of_applyFill:
  "qty_of (applyFill m a s side price qty) b t =
     qty_of m b t + (if b = a \<and> t = s then signed_qty side qty else 0)"
  by (auto simp: applyFill_eq qty_of_def position_of_def positions_of_def settle_qty new_position_def)

lemma dom_applyFill [simp]: "dom (applyFill m a s side price qty) = insert a (dom m)"
  by (simp add: applyFill_eq)

lemma cash_of_fresh: "a \<notin> dom m \<Longrightarrow> cash_of m a = StartingCashTicks"
  by (simp add: cash_of_def domIff)

lemma qty_of_fresh: "a \<notin> dom m \<Longrightarrow> qty_of m a s = 0"
  by (simp add: qty_of_def position_of_def positions_of_def new_position_def domIff)

section \<open>The double-entry contract\<close>

text \<open>
  What the matching engine relies on in a ledger: a fill moves \<open>price * qty\<close> of cash one way
  and \<open>qty\<close> of the symbol the other way, in the account it names and nowhere else, and an
  account that never traded stands at the opening balance, flat. From these laws alone,
  booking both sides of an execution conserves total cash and keeps every symbol zero-sum.
\<close>

locale double_entry =
  fixes book_fill :: "'m \<Rightarrow> string \<Rightarrow> string \<Rightarrow> Side \<Rightarrow> i64 \<Rightarrow> i64 \<Rightarrow> 'm"
    and cash :: "'m \<Rightarrow> string \<Rightarrow> i64"
    and holding :: "'m \<Rightarrow> string \<Rightarrow> string \<Rightarrow> i64"
    and holders :: "'m \<Rightarrow> string set"
    and start_cash :: i64
  assumes cash_fill: "cash (book_fill m a s side p q) b =
      cash m b - (if b = a then p * signed_qty side q else 0)"
    and holding_fill: "holding (book_fill m a s side p q) b t =
      holding m b t + (if b = a \<and> t = s then signed_qty side q else 0)"
    and holders_fill: "holders (book_fill m a s side p q) = insert a (holders m)"
    and cash_fresh: "a \<notin> holders m \<Longrightarrow> cash m a = start_cash"
    and holding_fresh: "a \<notin> holders m \<Longrightarrow> holding m a t = 0"
begin

lemma net_cash_fill:
  assumes "finite (holders m)"
  shows "(\<Sum>b\<in>holders (book_fill m a s side p q). cash (book_fill m a s side p q) b - start_cash) =
    (\<Sum>b\<in>holders m. cash m b - start_cash) - p * signed_qty side q"
proof (cases "a \<in> holders m")
  case True
  then have "(\<Sum>b\<in>holders m. cash m b - start_cash - (if b = a then p * signed_qty side q else 0)) =
      (\<Sum>b\<in>holders m. cash m b - start_cash) - p * signed_qty side q"
    using assms by (simp add: sum_subtractf sum.delta)
  with True show ?thesis by (simp add: holders_fill insert_absorb cash_fill algebra_simps)
next
  case False
  have "(\<Sum>b\<in>holders m. cash (book_fill m a s side p q) b - start_cash) =
      (\<Sum>b\<in>holders m. cash m b - start_cash)"
    using False by (intro sum.cong) (auto simp: cash_fill)
  with False assms show ?thesis by (simp add: holders_fill cash_fill cash_fresh)
qed

lemma net_holding_fill:
  assumes "finite (holders m)"
  shows "(\<Sum>b\<in>holders (book_fill m a s side p q). holding (book_fill m a s side p q) b t) =
    (\<Sum>b\<in>holders m. holding m b t) + (if t = s then signed_qty side q else 0)"
proof (cases "a \<in> holders m")
  case True
  then have "(\<Sum>b\<in>holders m. holding m b t + (if b = a \<and> t = s then signed_qty side q else 0)) =
      (\<Sum>b\<in>holders m. holding m b t) + (if t = s then signed_qty side q else 0)"
    using assms by (cases "t = s") (simp_all add: sum.distrib sum.delta)
  with True show ?thesis by (simp add: holders_fill insert_absorb holding_fill)
next
  case False
  have "(\<Sum>b\<in>holders m. holding (book_fill m a s side p q) b t) = (\<Sum>b\<in>holders m. holding m b t)"
    using False by (intro sum.cong) (auto simp: holding_fill)
  with False assms show ?thesis by (simp add: holders_fill holding_fill holding_fresh)
qed

text \<open>Both sides of one execution: the taker's fill, then the maker's on the opposite side.\<close>

lemma execution_conserves_cash:
  assumes "finite (holders m)" and "valid_side side"
    and m': "m' = book_fill (book_fill m a s side p q) b s (opposite side) p q"
  shows "(\<Sum>c\<in>holders m'. cash m' c - start_cash) = (\<Sum>c\<in>holders m. cash m c - start_cash)"
proof -
  have "finite (holders (book_fill m a s side p q))"
    using assms(1) by (simp add: holders_fill)
  then show ?thesis
    unfolding m' using assms(1,2)
    by (simp add: net_cash_fill signed_qty_opposite del: holders_fill)
qed

lemma execution_zero_sum:
  assumes "finite (holders m)" and "valid_side side"
    and m': "m' = book_fill (book_fill m a s side p q) b s (opposite side) p q"
  shows "(\<Sum>c\<in>holders m'. holding m' c t) = (\<Sum>c\<in>holders m. holding m c t)"
proof -
  have "finite (holders (book_fill m a s side p q))"
    using assms(1) by (simp add: holders_fill)
  then show ?thesis
    unfolding m' using assms(1,2)
    by (simp add: net_holding_fill signed_qty_opposite del: holders_fill)
qed

end

interpretation ledger: double_entry applyFill cash_of qty_of dom StartingCashTicks
  by unfold_locales
    (simp_all add: cash_of_applyFill qty_of_applyFill cash_of_fresh qty_of_fresh)

section \<open>Reconciliation\<close>

text \<open>
  The exact cost of an open position, signed: positive for a long (cash was spent), negative
  for a short. Every branch of \<open>settle\<close> moves realized profit, signed cost and cash together,
  to the tick and in wrapping arithmetic, as long as the position's size itself stays in range.
\<close>

definition signedBasis :: "position \<Rightarrow> i64" where
  "signedBasis p = (if pos_qty p = 0 then 0
     else if 0 <s pos_qty p then pos_costBasis p else - pos_costBasis p)"

definition fill_in_range :: "position \<Rightarrow> i64 \<Rightarrow> bool" where
  "fill_in_range pos delta \<longleftrightarrow> - (2 ^ 63) < sint (pos_qty pos) \<and> - (2 ^ 63) < sint delta \<and> delta \<noteq> 0 \<and>
     - (2 ^ 63) < sint (pos_qty pos) + sint delta \<and> sint (pos_qty pos) + sint delta < 2 ^ 63"

lemma sint_abs64: "- (2 ^ 63) < sint x \<Longrightarrow> sint (abs64 x) = \<bar>sint x\<bar>"
  by (simp add: abs64_def go_signed sint_i64_uminus)

lemma sameSign_iff: "sameSign a b \<longleftrightarrow> (0 < sint a \<longleftrightarrow> 0 < sint b)"
  by (simp add: sameSign_def go_signed)

lemma abs64_pos: "0 < sint x \<Longrightarrow> abs64 x = x"
  by (simp add: abs64_def go_signed)

lemma abs64_neg: "sint x < 0 \<Longrightarrow> abs64 x = - x"
  by (simp add: abs64_def go_signed)

lemma sint_neq_zero: "x \<noteq> 0 \<Longrightarrow> sint x \<noteq> 0" for x :: i64
  by (simp add: sint_zero_iff)

text \<open>The two facts about the reducing branch: which quantity closes, where it leaves the sign.\<close>

lemma settle_reconciles_long:
  assumes rng: "fill_in_range pos delta" and pos: "0 < sint (pos_qty pos)" and neg: "sint delta < 0"
    and q: "qty = abs64 delta"
  shows "snd (settle pos delta price qty r) - signedBasis (fst (settle pos delta price qty r)) + price * delta =
    r - signedBasis pos"
proof -
  have sum: "sint (pos_qty pos + delta) = sint (pos_qty pos) + sint delta"
    and nd: "sint (- delta) = - sint delta" and qd: "qty = - delta"
    using rng neg q by (auto simp: fill_in_range_def sint_i64_add sint_i64_uminus abs64_neg)
  have nz: "pos_qty pos \<noteq> 0" "pos_qty pos \<noteq> - delta \<longleftrightarrow> pos_qty pos + delta \<noteq> 0"
    using pos by (auto simp: add_eq_0_iff2)
  consider "sint (pos_qty pos) < - sint delta" | "sint (pos_qty pos) = - sint delta"
    | "- sint delta < sint (pos_qty pos)" by linarith
  then show ?thesis
  proof cases
    case 1
    then show ?thesis using pos neg nz sum nd
      by (simp add: settle_def Let_def signedBasis_def sameSign_iff abs64_pos abs64_neg min64_def
          go_signed qd i64_eq_iff [of _ 0] algebra_simps)
  next
    case 2
    then have "pos_qty pos = - delta" using nd by (simp add: i64_eq_iff)
    then show ?thesis using pos neg nz sum nd
      by (simp add: settle_def Let_def signedBasis_def sameSign_iff abs64_pos abs64_neg min64_def
          go_signed qd algebra_simps)
  next
    case 3
    then have "- delta \<noteq> pos_qty pos" using nd by auto
    then show ?thesis using pos neg nz sum nd 3
      by (simp add: settle_def Let_def signedBasis_def sameSign_iff abs64_pos abs64_neg min64_def
          go_signed qd i64_eq_iff [of _ 0] algebra_simps)
  qed
qed

lemma settle_reconciles_short:
  assumes rng: "fill_in_range pos delta" and pos: "sint (pos_qty pos) < 0" and neg: "0 < sint delta"
    and q: "qty = abs64 delta"
  shows "snd (settle pos delta price qty r) - signedBasis (fst (settle pos delta price qty r)) + price * delta =
    r - signedBasis pos"
proof -
  have sum: "sint (pos_qty pos + delta) = sint (pos_qty pos) + sint delta"
    and nd: "sint (- pos_qty pos) = - sint (pos_qty pos)" and qd: "qty = delta"
    using rng neg q by (auto simp: fill_in_range_def sint_i64_add sint_i64_uminus abs64_pos)
  have nz: "pos_qty pos \<noteq> 0" 
    using pos by auto
  consider "- sint (pos_qty pos) < sint delta" | "- sint (pos_qty pos) = sint delta"
    | "sint delta < - sint (pos_qty pos)" by linarith
  then show ?thesis
  proof cases
    case 1
    then show ?thesis using pos neg nz sum nd
      by (simp add: settle_def Let_def signedBasis_def sameSign_iff abs64_pos abs64_neg min64_def
          go_signed qd i64_eq_iff [of _ 0] algebra_simps)
  next
    case 2
    then have "delta = - pos_qty pos" using nd by (simp add: i64_eq_iff)
    then show ?thesis using pos neg nz sum nd
      by (simp add: settle_def Let_def signedBasis_def sameSign_iff abs64_pos abs64_neg min64_def
          go_signed qd algebra_simps)
  next
    case 3
    then have "delta \<noteq> - pos_qty pos" using nd by auto
    then show ?thesis using pos neg nz sum nd 3
      by (simp add: settle_def Let_def signedBasis_def sameSign_iff abs64_pos abs64_neg min64_def
          go_signed qd i64_eq_iff [of _ 0] algebra_simps)
  qed
qed

lemma settle_reconciles:
  assumes rng: "fill_in_range pos delta" and q: "qty = abs64 delta"
  shows "snd (settle pos delta price qty r) - signedBasis (fst (settle pos delta price qty r)) + price * delta =
    r - signedBasis pos"
proof -
  have d: "sint delta \<noteq> 0" using rng by (auto simp: fill_in_range_def sint_zero_iff)
  have sum: "sint (pos_qty pos + delta) = sint (pos_qty pos) + sint delta"
    using rng by (auto simp: fill_in_range_def sint_i64_add)
  consider "pos_qty pos = 0" | "0 < sint (pos_qty pos)" "0 < sint delta"
    | "sint (pos_qty pos) < 0" "sint delta < 0"
    | "0 < sint (pos_qty pos)" "sint delta < 0" | "sint (pos_qty pos) < 0" "0 < sint delta"
    using d sint_zero_iff [of "pos_qty pos"] by linarith
  then show ?thesis
  proof cases
    case 1
    then show ?thesis using d q
      by (auto simp: settle_def signedBasis_def go_signed abs64_def algebra_simps)
  next
    case 2
    then have "pos_qty pos \<noteq> 0" "pos_qty pos + delta \<noteq> 0" using sum by (auto simp: i64_eq_iff)
    then show ?thesis using 2 q sum
      by (simp add: settle_def sameSign_iff signedBasis_def go_signed abs64_pos algebra_simps)
  next
    case 3
    then have "pos_qty pos \<noteq> 0" "pos_qty pos + delta \<noteq> 0" using sum by (auto simp: i64_eq_iff)
    then show ?thesis using 3 q sum
      by (simp add: settle_def sameSign_iff signedBasis_def go_signed abs64_neg algebra_simps)
  qed (use assms settle_reconciles_long settle_reconciles_short in blast)+
qed



subsection \<open>Accounts reconcile\<close>

definition account_reconciles :: "accounts \<Rightarrow> string \<Rightarrow> bool" where
  "account_reconciles m a \<longleftrightarrow>
     cash_of m a - StartingCashTicks = realized_of m a - msum signedBasis (positions_of m a)"

lemma signedBasis_new [simp]: "signedBasis new_position = 0"
  by (simp add: signedBasis_def new_position_def)

lemma abs64_signed_qty: "0 < sint qty \<Longrightarrow> abs64 (signed_qty side qty) = qty"
  using i64_range [of qty] by (simp add: signed_qty_def abs64_def go_signed sint_i64_uminus)

lemma positions_of_applyFill:
  "positions_of (applyFill m a s side price qty) b =
     (if b = a then (positions_of m a)(s \<mapsto>
        fst (settle (position_of m a s) (signed_qty side qty) price qty (realized_of m a)))
      else positions_of m b)"
  by (simp add: applyFill_eq positions_of_def)

lemma realized_of_applyFill:
  "realized_of (applyFill m a s side price qty) b =
     (if b = a then snd (settle (position_of m a s) (signed_qty side qty) price qty (realized_of m a))
      else realized_of m b)"
  by (simp add: applyFill_eq realized_of_def)

lemma applyFill_reconciles:
  assumes ok: "account_reconciles m b" and fin: "finite (dom (positions_of m a))"
    and q: "0 < sint qty" and rng: "fill_in_range (position_of m a s) (signed_qty side qty)"
  shows "account_reconciles (applyFill m a s side price qty) b"
proof (cases "b = a")
  case False
  then show ?thesis using ok
    by (simp add: account_reconciles_def cash_of_applyFill realized_of_applyFill positions_of_applyFill)
next
  case True
  let ?d = "signed_qty side qty"
  let ?st = "settle (position_of m a s) ?d price qty (realized_of m a)"
  have "msum signedBasis ((positions_of m a)(s \<mapsto> fst ?st)) =
      msum signedBasis (positions_of m a) - signedBasis (position_of m a s) + signedBasis (fst ?st)"
    by (cases "positions_of m a s") (simp_all add: msum_put [OF fin] position_of_def)
  moreover have "snd ?st - signedBasis (fst ?st) + price * ?d =
      realized_of m a - signedBasis (position_of m a s)"
    using settle_reconciles [OF rng] q by (simp add: abs64_signed_qty)
  ultimately show ?thesis using ok True
    by (simp add: account_reconciles_def cash_of_applyFill realized_of_applyFill
        positions_of_applyFill) (simp add: algebra_simps)
qed

lemma msum_zero: "(\<And>k v. m k = Some v \<Longrightarrow> f v = 0) \<Longrightarrow> msum f m = 0"
  unfolding msum_def by (intro sum.neutral) auto

lemma flat_account_reconciles:
  assumes "account_reconciles m a" and "\<And>s. qty_of m a s = 0"
  shows "cash_of m a - StartingCashTicks = realized_of m a"
proof -
  have "msum signedBasis (positions_of m a) = 0"
  proof (rule msum_zero)
    fix s p assume "positions_of m a s = Some p"
    then show "signedBasis p = 0"
      using assms(2) [of s] by (simp add: signedBasis_def qty_of_def position_of_def)
  qed
  then show ?thesis using assms(1) by (simp add: account_reconciles_def)
qed

subsection \<open>The account view\<close>

definition position_mark :: "(string \<rightharpoonup> i64) \<Rightarrow> string \<Rightarrow> position \<Rightarrow> i64" where
  "position_mark lastPrice s p =
     (if pos_qty p = 0 \<or> map_get lastPrice s = 0 then 0
      else map_get lastPrice s * pos_qty p - signedBasis p)"

definition position_view :: "string \<Rightarrow> position \<Rightarrow> PositionView" where
  "position_view s p = \<lparr>pv_Symbol = s, pv_Quantity = pos_qty p,
     pv_AvgPriceTicks = div64 (pos_costBasis p) (abs64 (pos_qty p))\<rparr>"

definition open_position :: "(string \<rightharpoonup> position) \<Rightarrow> string \<Rightarrow> bool" where
  "open_position ps s = (case ps s of None \<Rightarrow> False | Some p \<Rightarrow> pos_qty p \<noteq> 0)"

lemma accountViews_eq:
  "set ks \<subseteq> dom ps \<Longrightarrow> accountViews lp ps ks u vs =
     (u + sum_list (map (\<lambda>s. position_mark lp s (the (ps s))) ks),
      vs @ map (\<lambda>s. position_view s (the (ps s))) (filter (open_position ps) ks))"
proof (induction ks arbitrary: u vs)
  case Nil
  then show ?case by simp
next
  case (Cons k ks)
  then obtain p where p: "ps k = Some p" by auto
  have "\<not> 0 <s pos_qty p \<Longrightarrow> pos_qty p \<noteq> 0 \<Longrightarrow> abs64 (pos_qty p) = - pos_qty p"
    using sint_zero_iff [of "pos_qty p"] by (simp add: abs64_def go_signed)
  with Cons p show ?case
    by (simp add: Let_def position_mark_def position_view_def open_position_def signedBasis_def
        algebra_simps)
qed

text \<open>
  The account equation: cash gained plus the market value of what is held equals realized plus
  unrealized profit, when every open position has a last trade price to mark it at.
\<close>

definition market_value :: "(string \<rightharpoonup> i64) \<Rightarrow> string \<Rightarrow> position \<Rightarrow> i64" where
  "market_value lastPrice s p = map_get lastPrice s * pos_qty p"

lemma sum_list_marks:
  assumes "\<And>s. s \<in> set ks \<Longrightarrow> open_position ps s \<Longrightarrow> map_get lp s \<noteq> 0" and "set ks \<subseteq> dom ps"
  shows "sum_list (map (\<lambda>s. position_mark lp s (the (ps s))) ks) =
    sum_list (map (\<lambda>s. market_value lp s (the (ps s))) ks) -
    sum_list (map (\<lambda>s. signedBasis (the (ps s))) ks)"
  using assms
proof (induction ks)
  case Nil
  then show ?case by simp
next
  case (Cons k ks)
  then obtain p where "ps k = Some p" by auto
  with Cons show ?case
    by (auto simp: position_mark_def market_value_def open_position_def signedBasis_def)
qed

lemma account_equation:
  assumes rec: "account_reconciles m a" and acc: "m a = Some acc"
    and ks: "range_keys (la_positions acc) ks"
    and marked: "\<And>s. open_position (la_positions acc) s \<Longrightarrow> map_get lp s \<noteq> 0"
    and snap: "GetAccount m lp None a ks = Inr snap"
  shows "as_CashTicks snap - StartingCashTicks +
      sum_list (map (\<lambda>s. market_value lp s (the (la_positions acc s))) ks) =
    as_RealizedPnlTicks snap + as_UnrealizedPnlTicks snap"
proof -
  have dom: "set ks \<subseteq> dom (la_positions acc)" using ks by (simp add: range_keys_def)
  have "msum signedBasis (la_positions acc) =
      sum_list (map (\<lambda>s. signedBasis (the (la_positions acc s))) ks)"
    using ks by (rule msum_range)
  then show ?thesis
    using rec snap acc
    by (auto simp: GetAccount_def accountViews_eq [OF dom] account_reconciles_def cash_of_def
        realized_of_def positions_of_def sum_list_marks [OF marked dom] algebra_simps)
qed

end
