(* ===== verification/Auth.thy ===== *)
theory Auth
  imports Http Ledger
begin

text \<open>
  Authentication: e-mail addresses and the user store (\<open>gateway/internal/auth/store.go\<close>,
  \<open>store_memory.go\<close>, \<open>password.go\<close>), the tokens (\<open>token.go\<close>), the JWT middleware
  (\<open>gateway/internal/middleware/auth.go\<close>) and the handlers of
  \<open>gateway/internal/api/auth_handlers.go\<close>. The JWT and bcrypt libraries are arguments, with what
  the code relies on as named laws. Go's text functions are written out on ASCII text, where Go
  takes the same fast path; the Unicode tables behind their other path are an argument.
\<close>

section \<open>E-mail addresses\<close>

definition ascii :: "string \<Rightarrow> bool" where
  "ascii s \<longleftrightarrow> list_all (\<lambda>c. (of_char c :: nat) < 128) s"

definition is_space :: "char \<Rightarrow> bool" where
  "is_space c \<longleftrightarrow> (of_char c :: nat) \<in> {9, 10, 11, 12, 13, 32}"

definition lower_char :: "char \<Rightarrow> char" where
  "lower_char c = (let n = (of_char c :: nat) in if 65 \<le> n \<and> n \<le> 90 then char_of (n + 32) else c)"

record Unicode =
  un_ToLower :: "string \<Rightarrow> string"
  un_TrimSpace :: "string \<Rightarrow> string"

definition ToLower :: "Unicode \<Rightarrow> string \<Rightarrow> string" where
  "ToLower uni s = (if ascii s then map lower_char s else un_ToLower uni s)"

definition TrimSpace :: "Unicode \<Rightarrow> string \<Rightarrow> string" where
  "TrimSpace uni s =
     (if ascii s then rev (dropWhile is_space (rev (dropWhile is_space s))) else un_TrimSpace uni s)"

definition NormalizeEmail :: "Unicode \<Rightarrow> string \<Rightarrow> string" where
  "NormalizeEmail uni email = ToLower uni (TrimSpace uni email)"

text \<open>The pattern \<open>^[^@\s]+@[^@\s]+\.[^@\s]+$\<close>; its \<open>\s\<close> is tab, newline, form feed, return, space.\<close>

definition re_space :: "char \<Rightarrow> bool" where
  "re_space c \<longleftrightarrow> (of_char c :: nat) \<in> {9, 10, 12, 13, 32}"

definition plain :: "string \<Rightarrow> bool" where
  "plain s \<longleftrightarrow> s \<noteq> [] \<and> list_all (\<lambda>c. c \<noteq> CHR ''@'' \<and> \<not> re_space c) s"

definition dotted :: "string \<Rightarrow> bool" where
  "dotted d \<longleftrightarrow> list_ex (\<lambda>i. d ! i = CHR ''.'' \<and> plain (take i d) \<and> plain (drop (Suc i) d)) [0..<length d]"

definition ValidEmail :: "string \<Rightarrow> bool" where
  "ValidEmail s =
     (let a = takeWhile (\<lambda>c. c \<noteq> CHR ''@'') s
      in plain a \<and> a \<noteq> s \<and> dotted (drop (Suc (length a)) s))"

text \<open>That is what the pattern says.\<close>

lemma dotted_iff: "dotted d \<longleftrightarrow> (\<exists>b c. d = b @ CHR ''.'' # c \<and> plain b \<and> plain c)"
proof
  assume "dotted d"
  then obtain i where i: "i < length d" "d ! i = CHR ''.''" "plain (take i d)" "plain (drop (Suc i) d)"
    by (auto simp: dotted_def list_ex_iff)
  then have "d = take i d @ CHR ''.'' # drop (Suc i) d" by (metis id_take_nth_drop)
  then show "\<exists>b c. d = b @ CHR ''.'' # c \<and> plain b \<and> plain c" using i(3,4) by blast
next
  assume "\<exists>b c. d = b @ CHR ''.'' # c \<and> plain b \<and> plain c"
  then obtain b c where "d = b @ CHR ''.'' # c" "plain b" "plain c" by blast
  then show "dotted d" by (auto simp: dotted_def list_ex_iff intro!: bexI [of _ "length b"])
qed

lemma ValidEmail_pattern:
  "ValidEmail s \<longleftrightarrow> (\<exists>a b c. s = a @ CHR ''@'' # b @ CHR ''.'' # c \<and> plain a \<and> plain b \<and> plain c)"
proof
  let ?a = "takeWhile (\<lambda>c. c \<noteq> CHR ''@'') s"
  assume v: "ValidEmail s"
  then have a: "plain ?a" "?a \<noteq> s" "dotted (drop (Suc (length ?a)) s)" by (simp_all add: ValidEmail_def Let_def)
  have "dropWhile (\<lambda>c. c \<noteq> CHR ''@'') s \<noteq> []"
    using a(2) by (metis append_Nil2 takeWhile_dropWhile_id)
  then obtain x xs where dw: "dropWhile (\<lambda>c. c \<noteq> CHR ''@'') s = x # xs" by (cases "dropWhile (\<lambda>c. c \<noteq> CHR ''@'') s") auto
  then have "x = CHR ''@''" by (simp add: dropWhile_eq_Cons_conv)
  then have s: "s = ?a @ CHR ''@'' # xs" using dw by (metis takeWhile_dropWhile_id)
  then have "drop (Suc (length ?a)) s = xs" by (metis append_Cons append_Nil append_assoc append_eq_conv_conj length_append_singleton)
  then show "\<exists>a b c. s = a @ CHR ''@'' # b @ CHR ''.'' # c \<and> plain a \<and> plain b \<and> plain c"
    using a(1,3) s by (metis dotted_iff)
next
  assume "\<exists>a b c. s = a @ CHR ''@'' # b @ CHR ''.'' # c \<and> plain a \<and> plain b \<and> plain c"
  then obtain a b c where s: "s = a @ CHR ''@'' # b @ CHR ''.'' # c" "plain a" "plain b" "plain c" by blast
  have "takeWhile (\<lambda>c. c \<noteq> CHR ''@'') s = a"
    using s(1,2) by (auto simp: plain_def list_all_iff intro!: takeWhile_eq_all_conv [THEN iffD2]
      simp: takeWhile_append2)
  then show "ValidEmail s" using s by (auto simp: ValidEmail_def dotted_iff)
qed

section \<open>The user store\<close>

record User =
  us_AccountID :: string
  us_Email :: string
  us_PasswordHash :: string

datatype storeError = ErrEmailTaken | ErrNoUser | StoreFailure error

record 'u UserStore =
  st_Create :: "'u \<Rightarrow> User \<Rightarrow> storeError option \<times> 'u"
  st_ByEmail :: "'u \<Rightarrow> string \<Rightarrow> storeError + User"

type_synonym MemoryStore = "string \<rightharpoonup> User"

definition NewMemoryStore :: MemoryStore where
  "NewMemoryStore = Map.empty"

definition MemoryCreate :: "Unicode \<Rightarrow> MemoryStore \<Rightarrow> User \<Rightarrow> storeError option \<times> MemoryStore" where
  "MemoryCreate uni m u =
     (let key = NormalizeEmail uni (us_Email u)
      in if m key \<noteq> None then (Some ErrEmailTaken, m)
         else (None, m(key \<mapsto> u\<lparr>us_Email := key\<rparr>)))"

definition MemoryByEmail :: "Unicode \<Rightarrow> MemoryStore \<Rightarrow> string \<Rightarrow> storeError + User" where
  "MemoryByEmail uni m email = (case m (NormalizeEmail uni email) of None \<Rightarrow> Inl ErrNoUser | Some u \<Rightarrow> Inr u)"

definition memoryStore :: "Unicode \<Rightarrow> MemoryStore UserStore" where
  "memoryStore uni = \<lparr>st_Create = MemoryCreate uni, st_ByEmail = MemoryByEmail uni\<rparr>"

section \<open>Tokens\<close>

definition KindRefresh :: string where "KindRefresh = ''refresh''"

record Claims =
  cm_Subject :: string
  cm_IssuedAt :: int
  cm_ExpiresAt :: int
  cm_Kind :: string

text \<open>
  The JWT library: dates in whole seconds, signing, and parsing with the callback that picks the
  key for the method a token names. Times are nanoseconds.
\<close>

datatype signingMethod = HMAC string | OtherMethod string

record Jwt =
  jw_Date :: "int \<Rightarrow> int"
  jw_Sign :: "signingMethod \<Rightarrow> Claims \<Rightarrow> string \<Rightarrow> error + string"
  jw_Parse :: "(signingMethod \<Rightarrow> error + string) \<Rightarrow> int \<Rightarrow> string \<Rightarrow> error + Claims"

record TokenService =
  ts_secret :: string
  ts_accessTTL :: int
  ts_refreshTTL :: int

definition mint :: "Jwt \<Rightarrow> TokenService \<Rightarrow> int \<Rightarrow> string \<Rightarrow> string \<Rightarrow> int \<Rightarrow> error + string" where
  "mint jw t now subj kind ttl =
     jw_Sign jw (HMAC ''HS256'')
       \<lparr>cm_Subject = subj, cm_IssuedAt = jw_Date jw now, cm_ExpiresAt = jw_Date jw (now + ttl), cm_Kind = kind\<rparr>
       (ts_secret t)"

definition Access :: "Jwt \<Rightarrow> TokenService \<Rightarrow> int \<Rightarrow> string \<Rightarrow> error + string" where
  "Access jw t now accountID = mint jw t now accountID '''' (ts_accessTTL t)"

definition Refresh :: "Jwt \<Rightarrow> TokenService \<Rightarrow> int \<Rightarrow> string \<Rightarrow> error + string" where
  "Refresh jw t now accountID = mint jw t now accountID KindRefresh (ts_refreshTTL t)"

definition AccessTTLSeconds :: "TokenService \<Rightarrow> i64" where
  "AccessTTLSeconds t = word_of_int (ts_accessTTL t sdiv 1000000000)"

text \<open>The key callback: only the HMAC family gets the secret.\<close>

definition hmacKey :: "string \<Rightarrow> signingMethod \<Rightarrow> error + string" where
  "hmacKey secret m = (case m of HMAC _ \<Rightarrow> Inr secret | OtherMethod _ \<Rightarrow> Inl ''signature is invalid'')"

definition parseToken :: "Jwt \<Rightarrow> TokenService \<Rightarrow> int \<Rightarrow> string \<Rightarrow> error + Claims" where
  "parseToken jw t now raw = jw_Parse jw (hmacKey (ts_secret t)) now raw"

definition VerifyRefresh :: "Jwt \<Rightarrow> TokenService \<Rightarrow> int \<Rightarrow> string \<Rightarrow> error + string" where
  "VerifyRefresh jw t now raw =
     (case parseToken jw t now raw of
        Inl err \<Rightarrow> Inl err
      | Inr c \<Rightarrow> if cm_Kind c \<noteq> KindRefresh then Inl ''auth: wrong token kind'' else Inr (cm_Subject c))"

section \<open>The JWT middleware\<close>

definition EqualFold :: "string \<Rightarrow> string \<Rightarrow> bool" where
  "EqualFold a b \<longleftrightarrow> map lower_char a = map lower_char b"

definition bearerToken :: "HttpRequest \<Rightarrow> string" where
  "bearerToken rq =
     (let h = rq_header rq ''Authorization''; prefix = ''Bearer ''
      in if length prefix < length h \<and> EqualFold (take (length prefix) h) prefix then drop (length prefix) h
         else rq_query rq ''token'')"

text \<open>\<open>http.Error\<close>: a plain-text answer.\<close>

definition httpError :: "headers \<Rightarrow> nat \<Rightarrow> string \<Rightarrow> Response" where
  "httpError h status msg =
     \<lparr>rsp_status = status,
      rsp_headers = header_set (header_set h ''Content-Type'' ''text/plain; charset=utf-8'') ''X-Content-Type-Options'' ''nosniff'',
      rsp_body = ErrorBody msg\<rparr>"

definition unauthorized :: "headers \<Rightarrow> string \<Rightarrow> Response" where
  "unauthorized h msg = httpError (header_set h ''WWW-Authenticate'' ''Bearer'') 401 msg"

definition jwtMiddleware :: "Jwt \<Rightarrow> string \<Rightarrow> int \<Rightarrow> 'w handler \<Rightarrow> 'w handler" where
  "jwtMiddleware jw secret now nxt h rq w =
     (let raw = bearerToken rq
      in if raw = '''' then (unauthorized h ''missing bearer token'', w)
         else (case jw_Parse jw (hmacKey secret) now raw of
                 Inl err \<Rightarrow> (unauthorized h ''invalid token'', w)
               | Inr claims \<Rightarrow>
                   if cm_Kind claims = ''refresh'' then (unauthorized h ''refresh token cannot be used here'', w)
                   else nxt h (rq\<lparr>rq_account := cm_Subject claims\<rparr>) w))"

section \<open>The handlers\<close>

definition bcryptCost :: nat where "bcryptCost = 12"

text \<open>\<open>bc_Generate\<close> takes the salt it draws, the text and the cost.\<close>

record Bcrypt =
  bc_Generate :: "string \<Rightarrow> string \<Rightarrow> nat \<Rightarrow> error + string"
  bc_Compare :: "string \<Rightarrow> string \<Rightarrow> error option"

definition HashPassword :: "Bcrypt \<Rightarrow> string \<Rightarrow> string \<Rightarrow> error + string" where
  "HashPassword bc salt plain' = bc_Generate bc salt plain' bcryptCost"

definition CheckPassword :: "Bcrypt \<Rightarrow> string \<Rightarrow> string \<Rightarrow> bool" where
  "CheckPassword bc hash plain' \<longleftrightarrow> bc_Compare bc hash plain' = None"

definition minPasswordLen :: nat where "minPasswordLen = 8"

record credentials =
  cr_Email :: string
  cr_Password :: string

text \<open>\<open>hex.EncodeToString\<close>, and the account ids made from random bytes.\<close>

definition hex_digit :: "nat \<Rightarrow> char" where
  "hex_digit d = ''0123456789abcdef'' ! d"

definition EncodeToString :: "8 word list \<Rightarrow> string" where
  "EncodeToString bs = concat (map (\<lambda>b. [hex_digit (unat b div 16), hex_digit (unat b mod 16)]) bs)"

definition newAccountID :: "8 word list \<Rightarrow> string" where
  "newAccountID b = ''acct-'' @ EncodeToString b"

definition NewDemoAccountID :: "string \<Rightarrow> (error + 8 word list) \<Rightarrow> string" where
  "NewDemoAccountID prefix' rnd =
     (case rnd of Inl err \<Rightarrow> prefix' | Inr buf \<Rightarrow> prefix' @ ''-'' @ EncodeToString buf)"

text \<open>
  The dependencies of the handlers: the store, the token service, the libraries, the JSON decoders
  of the two request bodies, and whether a Postgres pool is attached. The world is the store and
  the rows inserted into \<open>account_seeds\<close>.
\<close>

record 'u AuthServer =
  au_users :: "'u UserStore"
  au_tokens :: TokenService
  au_jwt :: Jwt
  au_bcrypt :: Bcrypt
  au_unicode :: Unicode
  au_decodeCreds :: "string \<Rightarrow> error + credentials"
  au_decodeRefresh :: "string \<Rightarrow> error + string"
  au_db :: bool

record 'u AuthWorld =
  aw_users :: 'u
  aw_seeds :: "(string \<times> i64) list"

text \<open>What the runtime chooses: the salt, random bytes, the clock, and whether the insert fails.\<close>

record authChoices =
  ac_salt :: string
  ac_random :: "8 word list"
  ac_now :: int
  ac_now' :: int
  ac_seedErr :: "error option"

definition issueTokens :: "'u AuthServer \<Rightarrow> authChoices \<Rightarrow> headers \<Rightarrow> string \<Rightarrow> Response" where
  "issueTokens s ch h accountID =
     (case Access (au_jwt s) (au_tokens s) (ac_now ch) accountID of
        Inl err \<Rightarrow> writeErr h 500 ''could not mint token''
      | Inr access \<Rightarrow>
          (case Refresh (au_jwt s) (au_tokens s) (ac_now' ch) accountID of
             Inl err \<Rightarrow> writeErr h 500 ''could not mint token''
           | Inr refresh \<Rightarrow>
               writeJSON h 200 (TokensBody access refresh accountID (AccessTTLSeconds (au_tokens s)))))"

definition handleSignup :: "'u AuthServer \<Rightarrow> authChoices \<Rightarrow> 'u AuthWorld handler" where
  "handleSignup s ch h rq w =
     (case au_decodeCreds s (rq_body rq) of
        Inl err \<Rightarrow> (writeErr h 400 ''invalid JSON body'', w)
      | Inr c \<Rightarrow>
          let email = NormalizeEmail (au_unicode s) (cr_Email c)
          in if \<not> ValidEmail email then (writeErr h 400 ''invalid email address'', w)
             else if length (cr_Password c) < minPasswordLen then
               (writeErr h 400 ''password must be at least 8 characters'', w)
             else
               (case HashPassword (au_bcrypt s) (ac_salt ch) (cr_Password c) of
                  Inl err \<Rightarrow> (writeErr h 500 ''could not hash password'', w)
                | Inr hash \<Rightarrow>
                    let u = \<lparr>us_AccountID = newAccountID (ac_random ch), us_Email = email, us_PasswordHash = hash\<rparr>
                    in (case st_Create (au_users s) (aw_users w) u of
                          (Some ErrEmailTaken, us) \<Rightarrow>
                            (writeErr h 409 ''that email is already registered'', w\<lparr>aw_users := us\<rparr>)
                        | (Some _, us) \<Rightarrow> (writeErr h 500 ''could not create account'', w\<lparr>aw_users := us\<rparr>)
                        | (None, us) \<Rightarrow>
                            let w1 = w\<lparr>aw_users := us\<rparr>;
                                w2 = (if au_db s \<and> ac_seedErr ch = None
                                      then w1\<lparr>aw_seeds := aw_seeds w1 @ [(us_AccountID u, StartingCashTicks)]\<rparr> else w1)
                            in (issueTokens s ch h (us_AccountID u), w2))))"

definition handleLogin :: "'u AuthServer \<Rightarrow> authChoices \<Rightarrow> 'u AuthWorld handler" where
  "handleLogin s ch h rq w =
     (case au_decodeCreds s (rq_body rq) of
        Inl err \<Rightarrow> (writeErr h 400 ''invalid JSON body'', w)
      | Inr c \<Rightarrow>
          (case st_ByEmail (au_users s) (aw_users w) (cr_Email c) of
             Inl err \<Rightarrow> (writeErr h 401 ''invalid email or password'', w)
           | Inr u \<Rightarrow>
               if \<not> CheckPassword (au_bcrypt s) (us_PasswordHash u) (cr_Password c) then
                 (writeErr h 401 ''invalid email or password'', w)
               else (issueTokens s ch h (us_AccountID u), w)))"

definition handleRefresh :: "'u AuthServer \<Rightarrow> authChoices \<Rightarrow> 'u AuthWorld handler" where
  "handleRefresh s ch h rq w =
     (case au_decodeRefresh s (rq_body rq) of
        Inl err \<Rightarrow> (writeErr h 400 ''missing refreshToken'', w)
      | Inr raw \<Rightarrow>
          if raw = '''' then (writeErr h 400 ''missing refreshToken'', w)
          else (case VerifyRefresh (au_jwt s) (au_tokens s) (ac_now ch) raw of
                  Inl err \<Rightarrow> (writeErr h 401 ''invalid or expired refresh token'', w)
                | Inr account' \<Rightarrow> (issueTokens s ch h account', w)))"

text \<open>\<open>POST /auth/demo\<close>: a token without a kind for a fresh demo account.\<close>

definition handleDemoSession ::
  "Jwt \<Rightarrow> string \<Rightarrow> string \<Rightarrow> int \<Rightarrow> int \<Rightarrow> int \<Rightarrow> (error + 8 word list) \<Rightarrow> 'w handler" where
  "handleDemoSession jw secret demoAccountID ttl now now' rnd h rq w =
     (let account' = NewDemoAccountID demoAccountID rnd;
          claims = \<lparr>cm_Subject = account', cm_IssuedAt = jw_Date jw now', cm_ExpiresAt = jw_Date jw (now + ttl), cm_Kind = ''''\<rparr>
      in (case jw_Sign jw (HMAC ''HS256'') claims secret of
            Inl err \<Rightarrow> (writeErr h 500 ''could not mint demo token'', w)
          | Inr token' \<Rightarrow> (writeJSON h 200 (SessionBody token' account' (word_of_int (ttl sdiv 1000000000))), w)))"

section \<open>The contract of a user store\<close>

text \<open>
  What the handlers rely on: a created user is found under every spelling of the e-mail address
  that normalizes alike, and nothing else changes; an address that is found is taken; a failed
  creation changes nothing.
\<close>

locale user_store =
  fixes create :: "'u \<Rightarrow> User \<Rightarrow> storeError option \<times> 'u"
    and by_email :: "'u \<Rightarrow> string \<Rightarrow> storeError + User"
    and normal :: "string \<Rightarrow> string"
  assumes created: "create s u = (None, s') \<Longrightarrow>
      by_email s' e = (if normal e = normal (us_Email u) then Inr (u\<lparr>us_Email := normal (us_Email u)\<rparr>) else by_email s e)"
    and refused: "create s u = (Some err, s') \<Longrightarrow> s' = s"
    and taken: "by_email s (us_Email u) = Inr v \<Longrightarrow> create s u = (Some ErrEmailTaken, s)"
    and spelling: "normal e = normal e' \<Longrightarrow> by_email s e = by_email s e'"
begin

text \<open>Signing up: a 200 means the address was free and now belongs to the new account.\<close>

lemma handleSignup_created:
  assumes store: "st_Create (au_users s) = create" "NormalizeEmail (au_unicode s) = normal"
    and c: "au_decodeCreds s (rq_body rq) = Inr c" and ok: "rsp_status (fst (handleSignup s ch h rq w)) = 200"
  shows "\<exists>hash. HashPassword (au_bcrypt s) (ac_salt ch) (cr_Password c) = Inr hash \<and>
    create (aw_users w) \<lparr>us_AccountID = newAccountID (ac_random ch), us_Email = normal (cr_Email c), us_PasswordHash = hash\<rparr> =
      (None, aw_users (snd (handleSignup s ch h rq w))) \<and>
    ValidEmail (normal (cr_Email c)) \<and> minPasswordLen \<le> length (cr_Password c)"
  using ok c store
  by (auto simp: handleSignup_def Let_def split: sum.splits if_splits prod.splits option.splits storeError.splits)

text \<open>Logging in with any spelling of the address and a password that matches the stored hash.\<close>

lemma login_after_signup:
  assumes store: "st_Create (au_users s) = create" "NormalizeEmail (au_unicode s) = normal"
      "st_ByEmail (au_users s) = by_email"
    and c: "au_decodeCreds s (rq_body rq) = Inr c" and ok: "rsp_status (fst (handleSignup s ch h rq w)) = 200"
    and c': "au_decodeCreds s (rq_body rq') = Inr c'" and e: "normal (cr_Email c') = normal (normal (cr_Email c))"
  shows "\<exists>hash. HashPassword (au_bcrypt s) (ac_salt ch) (cr_Password c) = Inr hash \<and>
    handleLogin s ch' h' rq' (snd (handleSignup s ch h rq w)) =
      ((if CheckPassword (au_bcrypt s) hash (cr_Password c') then issueTokens s ch' h' (newAccountID (ac_random ch))
        else writeErr h' 401 ''invalid email or password''), snd (handleSignup s ch h rq w))"
proof -
  obtain hash where hash: "HashPassword (au_bcrypt s) (ac_salt ch) (cr_Password c) = Inr hash"
    "create (aw_users w) \<lparr>us_AccountID = newAccountID (ac_random ch), us_Email = normal (cr_Email c), us_PasswordHash = hash\<rparr> =
      (None, aw_users (snd (handleSignup s ch h rq w)))"
    using handleSignup_created [OF store(1,2) c ok] by blast
  have "by_email (aw_users (snd (handleSignup s ch h rq w))) (cr_Email c') =
      Inr \<lparr>us_AccountID = newAccountID (ac_random ch), us_Email = normal (normal (cr_Email c)), us_PasswordHash = hash\<rparr>"
    by (simp add: created [OF hash(2)] e)
  then show ?thesis using hash(1) c' store(3) by (simp add: handleLogin_def)
qed

lemma second_signup_conflicts:
  assumes store: "st_Create (au_users s) = create" "NormalizeEmail (au_unicode s) = normal"
    and c: "au_decodeCreds s (rq_body rq) = Inr c" and ok: "rsp_status (fst (handleSignup s ch h rq w)) = 200"
    and c': "au_decodeCreds s (rq_body rq') = Inr c'" and e: "normal (cr_Email c') = normal (cr_Email c)"
    and pw: "minPasswordLen \<le> length (cr_Password c')"
    and hash': "HashPassword (au_bcrypt s) (ac_salt ch') (cr_Password c') = Inr hash'"
  shows "rsp_status (fst (handleSignup s ch' h' rq' (snd (handleSignup s ch h rq w)))) = 409"
    and "aw_users (snd (handleSignup s ch' h' rq' (snd (handleSignup s ch h rq w)))) = aw_users (snd (handleSignup s ch h rq w))"
proof -
  let ?w = "snd (handleSignup s ch h rq w)"
  obtain hash where hash: "create (aw_users w) \<lparr>us_AccountID = newAccountID (ac_random ch), us_Email = normal (cr_Email c),
      us_PasswordHash = hash\<rparr> = (None, aw_users ?w)" "ValidEmail (normal (cr_Email c))"
    using handleSignup_created [OF store c ok] by blast
  let ?u = "\<lparr>us_AccountID = newAccountID (ac_random ch'), us_Email = normal (cr_Email c), us_PasswordHash = hash'\<rparr>"
  have "by_email (aw_users ?w) (us_Email ?u) = Inr \<lparr>us_AccountID = newAccountID (ac_random ch),
      us_Email = normal (normal (cr_Email c)), us_PasswordHash = hash\<rparr>"
    by (simp add: created [OF hash(1)])
  then have "create (aw_users ?w) ?u = (Some ErrEmailTaken, aw_users ?w)" by (rule taken)
  then have "handleSignup s ch' h' rq' ?w = (writeErr h' 409 ''that email is already registered'', ?w\<lparr>aw_users := aw_users ?w\<rparr>)"
    using c' e pw hash' store hash(2) by (simp add: handleSignup_def)
  then show "rsp_status (fst (handleSignup s ch' h' rq' ?w)) = 409"
    and "aw_users (snd (handleSignup s ch' h' rq' ?w)) = aw_users ?w" by simp_all
qed

end

interpretation memory_store: user_store "MemoryCreate uni" "MemoryByEmail uni" "NormalizeEmail uni"
  for uni
  by unfold_locales (auto simp: MemoryCreate_def MemoryByEmail_def Let_def split: if_splits option.splits)

end
