(* ===== verification/Middleware.thy ===== *)
theory Middleware
  imports Float64 Auth
begin

text \<open>
  The rate limiter (\<open>gateway/internal/middleware/ratelimit.go\<close>), CORS and the security headers
  (\<open>cors.go\<close>). The limiter computes with \<open>float64\<close>, rounding included; \<open>x + y * z\<close> rounds twice, as
  on the platforms whose Go compiler does not fuse it. Times are nanoseconds.
\<close>

section \<open>Token buckets\<close>

record bucket =
  bk_tokens :: f64
  bk_lastSeen :: int

record RateLimiter =
  rl_buckets :: "string \<rightharpoonup> bucket"
  rl_ratePerSec :: f64
  rl_burst :: f64

definition NewRateLimiter :: "f64 \<Rightarrow> i64 \<Rightarrow> RateLimiter" where
  "NewRateLimiter ratePerSec burst =
     \<lparr>rl_buckets = Map.empty, rl_ratePerSec = ratePerSec, rl_burst = f64_of (sint burst)\<rparr>"

text \<open>\<open>Time.Sub\<close>, which saturates, and \<open>Duration.Seconds\<close>, which adds the whole seconds and the rest.\<close>

definition time_Sub :: "int \<Rightarrow> int \<Rightarrow> int" where
  "time_Sub t u = max (- (2 ^ 63)) (min (2 ^ 63 - 1) (t - u))"

definition Seconds :: "int \<Rightarrow> f64" where
  "Seconds d = fadd (f64_of (d sdiv 1000000000)) (rounded (of_int (d smod 1000000000) / 1000000000))"

definition Allow :: "RateLimiter \<Rightarrow> int \<Rightarrow> string \<Rightarrow> bool \<times> RateLimiter" where
  "Allow rl now key =
     (case rl_buckets rl key of
        None \<Rightarrow> (True, rl\<lparr>rl_buckets := (rl_buckets rl)(key \<mapsto> \<lparr>bk_tokens = fsub (rl_burst rl) (Finite 1), bk_lastSeen = now\<rparr>)\<rparr>)
      | Some b \<Rightarrow>
          let elapsed = Seconds (time_Sub now (bk_lastSeen b));
              tokens = fmin (rl_burst rl) (fadd (bk_tokens b) (fmul elapsed (rl_ratePerSec rl)))
          in if fle (Finite 1) tokens then
               (True, rl\<lparr>rl_buckets := (rl_buckets rl)(key \<mapsto> \<lparr>bk_tokens = fsub tokens (Finite 1), bk_lastSeen = now\<rparr>)\<rparr>)
             else (False, rl\<lparr>rl_buckets := (rl_buckets rl)(key \<mapsto> \<lparr>bk_tokens = tokens, bk_lastSeen = now\<rparr>)\<rparr>))"

text \<open>\<open>net.SplitHostPort\<close>, the host only; \<open>None\<close> is an error.\<close>

definition last_index :: "char \<Rightarrow> string \<Rightarrow> nat option" where
  "last_index c s = (case filter (\<lambda>i. s ! i = c) [0..<length s] of [] \<Rightarrow> None | is' \<Rightarrow> Some (last is'))"

definition first_index :: "char \<Rightarrow> string \<Rightarrow> nat option" where
  "first_index c s = (case filter (\<lambda>i. s ! i = c) [0..<length s] of [] \<Rightarrow> None | i # _ \<Rightarrow> Some i)"

definition SplitHostPort :: "string \<Rightarrow> string option" where
  "SplitHostPort s =
     (case last_index (CHR '':'') s of
        None \<Rightarrow> None
      | Some i \<Rightarrow>
          if s ! 0 = CHR ''['' then
            (case first_index (CHR '']'') s of
               None \<Rightarrow> None
             | Some e \<Rightarrow>
                 if e + 1 \<noteq> i then None
                 else if CHR ''['' \<in> set (drop 1 s) \<or> CHR '']'' \<in> set (drop (e + 1) s) then None
                 else Some (take (e - 1) (drop 1 s)))
          else if CHR '':'' \<in> set (take i s) then None
          else if CHR ''['' \<in> set s \<or> CHR '']'' \<in> set s then None
          else Some (take i s))"

definition clientIP :: "HttpRequest \<Rightarrow> string" where
  "clientIP rq =
     (let xff = rq_header rq ''X-Forwarded-For''
      in if xff \<noteq> '''' then xff
         else (case SplitHostPort (rq_remote rq) of None \<Rightarrow> rq_remote rq | Some host \<Rightarrow> host))"

definition rateMiddleware :: "int \<Rightarrow> 'w handler \<Rightarrow> (RateLimiter \<times> 'w) handler" where
  "rateMiddleware now nxt h rq st =
     (let (allowed, rl) = Allow (fst st) now (clientIP rq)
      in if \<not> allowed then
           (httpError (header_set h ''Retry-After'' ''1'') 429 ''rate limit exceeded'', (rl, snd st))
         else (let (rsp, w) = nxt h rq (snd st) in (rsp, (rl, w))))"

section \<open>CORS and security headers\<close>

fun split_on :: "char \<Rightarrow> string \<Rightarrow> string list" where
  "split_on c [] = [[]]"
| "split_on c (x # xs) =
     (if x = c then [] # split_on c xs
      else (case split_on c xs of [] \<Rightarrow> [[x]] | p # ps \<Rightarrow> (x # p) # ps))"

definition corsList :: "Unicode \<Rightarrow> string \<Rightarrow> string list" where
  "corsList uni allowed = filter (\<lambda>s. s \<noteq> '''') (map (TrimSpace uni) (split_on (CHR '','') allowed))"

definition CORS :: "Unicode \<Rightarrow> string \<Rightarrow> 'w handler \<Rightarrow> 'w handler" where
  "CORS uni allowed nxt h rq w =
     (let wildcard = (TrimSpace uni allowed = ''*'');
          origin = rq_header rq ''Origin'';
          h1 = (if wildcard then header_set h ''Access-Control-Allow-Origin'' ''*''
                else if origin \<noteq> '''' \<and> origin \<in> set (corsList uni allowed) then
                  header_add (header_set h ''Access-Control-Allow-Origin'' origin) ''Vary'' ''Origin''
                else h);
          h2 = header_set h1 ''Access-Control-Allow-Methods'' ''GET, POST, DELETE, OPTIONS'';
          h3 = header_set h2 ''Access-Control-Allow-Headers'' ''Authorization, Content-Type''
      in if rq_method rq = ''OPTIONS'' then (\<lparr>rsp_status = 204, rsp_headers = h3, rsp_body = NoBody\<rparr>, w)
         else nxt h3 rq w)"

definition SecurityHeaders :: "'w handler \<Rightarrow> 'w handler" where
  "SecurityHeaders nxt h rq w =
     nxt (header_set (header_set (header_set h ''X-Content-Type-Options'' ''nosniff'') ''X-Frame-Options'' ''DENY'')
            ''Referrer-Policy'' ''no-referrer'') rq w"

text \<open>\<open>protect\<close>: the limiter first, then authentication, then the handler.\<close>

definition protect ::
  "Jwt \<Rightarrow> string \<Rightarrow> int \<Rightarrow> 'w handler \<Rightarrow> (RateLimiter \<times> 'w) handler" where
  "protect jw secret now hnd = rateMiddleware now (jwtMiddleware jw secret now hnd)"

section \<open>The limiter's bound\<close>

text \<open>The requests of one history that a key got admitted.\<close>

primrec admitted :: "RateLimiter \<Rightarrow> string \<Rightarrow> (string \<times> int) list \<Rightarrow> nat" where
  "admitted rl k [] = 0"
| "admitted rl k (x # xs) =
     (if fst x = k \<and> fst (Allow rl (snd x) (fst x)) then 1 else 0) + admitted (snd (Allow rl (snd x) (fst x))) k xs"

definition seconds_of :: "int \<Rightarrow> rat" where
  "seconds_of d = of_int d / 1000000000"

lemma seconds_of_split: "seconds_of (a - b) + seconds_of (c - a) = seconds_of (c - b)"
  by (simp add: seconds_of_def field_simps)

lemma seconds_of_mono: "d \<le> d' \<Longrightarrow> seconds_of d \<le> seconds_of d'"
  by (simp add: seconds_of_def divide_right_mono)

lemma seconds_of_nonneg: "0 \<le> d \<Longrightarrow> 0 \<le> seconds_of d"
  by (simp add: seconds_of_def)

text \<open>The elapsed time in seconds, and the refill, are off by a few units in the last place.\<close>

lemma powers: "(2 :: rat) ^ 34 = 17179869184" "(2 :: rat) ^ 35 = 34359738368" "(2 :: rat) ^ 50 = 1125899906842624" "(2 :: rat) ^ 51 = 2251799813685248" "(2 :: rat) ^ 53 = 9007199254740992" "(2 :: rat) ^ 60 = 1152921504606846976" "(2 :: rat) ^ 64 = 18446744073709551616"
  by simp_all

lemma Seconds_bound:
  assumes "0 \<le> d" and "d < 2 ^ 63"
  shows "\<exists>s. Seconds d = Finite s \<and> 0 \<le> s \<and> s \<le> seconds_of d * (1 + 3 / 2 ^ 53)"
proof -
  define sec where "sec = d div 1000000000"
  define n where "n = d mod 1000000000"
  define y :: rat where "y = of_int n / 1000000000"
  have div: "d sdiv 1000000000 = sec" "d smod 1000000000 = n"
    using assms by (cases "d = 0"; simp add: sec_def n_def signed_divide_int_def signed_modulo_int_def minus_div_mult_eq_mod)+
  have sec: "0 \<le> sec" "sec \<le> 2 ^ 34" using assms by (simp_all add: sec_def)
  have n: "0 \<le> n" "n < 1000000000" by (simp_all add: n_def)
  have whole: "seconds_of d = of_int sec + y"
  proof -
    have "(of_int d :: rat) = of_int (1000000000 * sec + n)" by (simp add: sec_def n_def)
    then show ?thesis by (simp add: seconds_of_def y_def)
  qed
  have secr: "(0 :: rat) \<le> of_int sec" "(of_int sec :: rat) \<le> 2 ^ 34"
    using sec of_int_le_iff [of sec "2 ^ 34", where 'a = rat] by simp_all
  have f: "f64_of sec = Finite (of_int sec)"
    using sec secr nearest_int [of sec] overflow_large by (simp add: f64_of_def rounded_def Let_def)
  have y: "0 \<le> y" "y < 1" using n by (simp_all add: y_def)
  have near: "\<bar>nearest x - x\<bar> \<le> x / 2 ^ 53" if "x = 0 \<or> 1 / 2 ^ 60 \<le> x" for x
  proof (cases "x = 0")
    case False
    then have "1 / 2 ^ 60 \<le> x" using that by simp
    then show ?thesis using nearest_error(2) [of x] normal_min by (meson order_trans zero_le_divide_1_iff zero_le_numeral zero_le_power)
  qed (simp add: nearest_def)
  have y0: "y = 0 \<or> 1 / 1000000000 \<le> y"
    using n by (cases "n = 0") (simp_all add: y_def divide_right_mono)
  then have ny: "\<bar>nearest y - y\<bar> \<le> y / 2 ^ 53" by (intro near) auto
  define z where "z = of_int sec + nearest y"
  have "nearest y \<le> y + y / 2 ^ 53" "y - y / 2 ^ 53 \<le> nearest y" using ny by linarith+
  note ny = this
  have z: "0 \<le> z" "z \<le> seconds_of d * (1 + 1 / 2 ^ 53)" "z \<le> 2 ^ 35"
    using ny y secr unfolding z_def whole distrib_left distrib_right powers by - linarith+
  have "z = 0 \<or> 1 / 2 ^ 60 \<le> z"
  proof (cases "sec = 0")
    case True
    then show ?thesis using y0 ny by (auto simp: z_def nearest_def)
  next
    case False
    then have "(1 :: rat) \<le> of_int sec" using sec(1) by simp
    then show ?thesis using ny y unfolding z_def powers by (intro disjI2) (simp add: field_simps)
  qed
  from near [OF this] have nz: "nearest z \<le> z + z / 2 ^ 53" by linarith
  have "nearest y < overflow" "nearest z < overflow"
    using ny nz y z overflow_large unfolding powers by - linarith+
  moreover have pos: "0 \<le> nearest y" "0 \<le> nearest z" using nearest_nonneg y(1) z(1) by simp_all
  ultimately have "Seconds d = Finite (nearest z)"
    using overflow_large by (simp add: Seconds_def div f rounded_def Let_def y_def z_def)
  moreover have "nearest z \<le> seconds_of d * (1 + 3 / 2 ^ 53)"
  proof -
    have "0 \<le> seconds_of d" using assms(1) by (rule seconds_of_nonneg)
    then show ?thesis using nz z(2) by simp
  qed
  ultimately show ?thesis using pos by blast
qed

lemma refill_bound:
  assumes t: "0 \<le> t" "t \<le> B" and B: "1 \<le> B" "B \<le> 2 ^ 53" and r: "0 \<le> r" and d: "0 \<le> d" "d < 2 ^ 63"
  shows "\<exists>x. fmin (Finite B) (fadd (Finite t) (fmul (Seconds d) (Finite r))) = Finite x \<and> 0 \<le> x \<and> x \<le> B \<and>
    x \<le> t + seconds_of d * r * (1 + 1 / 2 ^ 50) + B / 2 ^ 51"
proof -
  obtain s where s: "Seconds d = Finite s" "0 \<le> s" "s \<le> seconds_of d * (1 + 3 / 2 ^ 53)" using Seconds_bound [OF d] by blast
  define w where "w = seconds_of d * r"
  have w: "0 \<le> w" using r d by (simp add: w_def seconds_of_nonneg)
  have sr: "0 \<le> s * r" "s * r \<le> w + w * 3 / 2 ^ 53"
    using s(2) r mult_right_mono [OF s(3) r] by (simp_all add: w_def algebra_simps)
  define p where "p = nearest (s * r)"
  have p: "0 \<le> p" "p \<le> s * r + s * r / 2 ^ 53 + tiny"
    unfolding p_def by (rule nearest_nonneg [OF sr(1)] nearest_upper [OF sr(1)])+
  define q where "q = nearest (t + p)"
  have tp: "0 \<le> t + p" using t p by simp
  have q: "0 \<le> q" "q \<le> (t + p) + (t + p) / 2 ^ 53 + tiny"
    unfolding q_def by (rule nearest_nonneg [OF tp] nearest_upper [OF tp])+
  have big: "B \<le> t + w * (1 + 1 / 2 ^ 50) + B / 2 ^ 51" if "overflow \<le> p \<or> overflow \<le> q"
    using that p(2) q(2) sr(2) w t B overflow_large tiny_bounds unfolding powers by (elim disjE) (simp_all add: field_simps)
  have x: "q \<le> t + w * (1 + 1 / 2 ^ 50) + B / 2 ^ 51"
    using p(2) q(2) sr(2) w t B tiny_bounds unfolding powers by (simp add: field_simps)
  have "fmin (Finite B) (fadd (Finite t) (fmul (Seconds d) (Finite r))) = (if overflow \<le> p \<or> overflow \<le> q then Finite B else Finite (min B q))"
    using p(1) q(1) overflow_large by (auto simp: s(1) rounded_def Let_def fmin_def p_def [symmetric] q_def [symmetric])
  then show ?thesis using big x q(1) B by (auto simp: w_def)
qed

lemma spend_bound:
  assumes x: "1 \<le> x" "x \<le> B" and B: "B \<le> 2 ^ 53"
  shows "\<exists>y. fsub (Finite x) (Finite 1) = Finite y \<and> 0 \<le> y \<and> y \<le> B \<and> y \<le> x - 1 + B / 2 ^ 51"
proof -
  have x1: "0 \<le> x - 1" using x by simp
  define y where "y = nearest (x - 1)"
  have y: "0 \<le> y" "y \<le> (x - 1) + (x - 1) / 2 ^ 53 + tiny"
    unfolding y_def by (rule nearest_nonneg [OF x1] nearest_upper [OF x1])+
  have "y \<le> B" "y \<le> x - 1 + B / 2 ^ 51" using y x B tiny_bounds unfolding powers by (simp_all add: field_simps)
  moreover have "fsub (Finite x) (Finite 1) = Finite y"
    using y(1) \<open>y \<le> B\<close> B overflow_large by (simp add: fsub_def rounded_def Let_def y_def)
  ultimately show ?thesis using y(1) by blast
qed
text \<open>The refill of a time, rounded up.\<close>

definition refill :: "rat \<Rightarrow> int \<Rightarrow> rat" where
  "refill r d = seconds_of d * r * (1 + 1 / 2 ^ 50)"

lemma refill_zero [simp]: "refill r 0 = 0"
  by (simp add: refill_def seconds_of_def)

lemma refill_nonneg: "0 \<le> r \<Longrightarrow> 0 \<le> d \<Longrightarrow> 0 \<le> refill r d"
  by (simp add: refill_def seconds_of_nonneg)

lemma refill_mono: "0 \<le> r \<Longrightarrow> d \<le> d' \<Longrightarrow> refill r d \<le> refill r d'"
  unfolding refill_def by (intro mult_right_mono seconds_of_mono) simp_all

lemma refill_split: "refill r (c - b) = refill r (a - b) + refill r (c - a)"
  by (simp only: refill_def seconds_of_split [of a b c, symmetric] distrib_right)

text \<open>A limiter in use: its parameters, and tokens between nothing and the burst.\<close>

definition limiter_ok :: "rat \<Rightarrow> rat \<Rightarrow> RateLimiter \<Rightarrow> int \<Rightarrow> bool" where
  "limiter_ok B r rl t \<longleftrightarrow> rl_burst rl = Finite B \<and> rl_ratePerSec rl = Finite r \<and> 0 \<le> r \<and> 1 \<le> B \<and> B \<le> 2 ^ 53 \<and>
     (\<forall>k b. rl_buckets rl k = Some b \<longrightarrow> (\<exists>x. bk_tokens b = Finite x \<and> 0 \<le> x \<and> x \<le> B) \<and> bk_lastSeen b \<le> t)"

text \<open>What a key may still spend at a time, if the refill is rounded up.\<close>

fun tokens_of :: "f64 \<Rightarrow> rat" where
  "tokens_of (Finite x) = x"
| "tokens_of _ = 0"

definition avail :: "rat \<Rightarrow> rat \<Rightarrow> RateLimiter \<Rightarrow> string \<Rightarrow> int \<Rightarrow> rat" where
  "avail B r rl k t =
     (case rl_buckets rl k of
        None \<Rightarrow> B
      | Some b \<Rightarrow> min B (tokens_of (bk_tokens b) + refill r (t - bk_lastSeen b)))"

lemma Allow_params [simp]:
  "rl_ratePerSec (snd (Allow rl t k)) = rl_ratePerSec rl" "rl_burst (snd (Allow rl t k)) = rl_burst rl"
  "k' \<noteq> k \<Longrightarrow> rl_buckets (snd (Allow rl t k)) k' = rl_buckets rl k'"
  by (auto simp: Allow_def Let_def split: option.split)

text \<open>One request of a key: it leaves a bucket in bounds, and what it spends was available.\<close>

lemma Allow_spends:
  assumes ok: "limiter_ok B r rl t0" and t: "t0 \<le> t"
  shows "\<exists>b x. rl_buckets (snd (Allow rl t k)) k = Some b \<and> bk_tokens b = Finite x \<and> bk_lastSeen b = t \<and> 0 \<le> x \<and> x \<le> B \<and>
    (if fst (Allow rl t k) then 1 else 0) + x \<le> avail B r rl k t + B / 2 ^ 50"
proof (cases "rl_buckets rl k")
  case None
  have B: "rl_burst rl = Finite B" "1 \<le> B" "B \<le> 2 ^ 53" using ok by (simp_all add: limiter_ok_def)
  obtain y where "fsub (Finite B) (Finite 1) = Finite y" "0 \<le> y" "y \<le> B" "y \<le> B - 1 + B / 2 ^ 51"
    using spend_bound [OF B(2) order_refl B(3)] by blast
  then show ?thesis using None B by (simp add: Allow_def avail_def field_simps)
next
  case (Some b)
  obtain x where x: "bk_tokens b = Finite x" "0 \<le> x" "x \<le> B" "bk_lastSeen b \<le> t"
    using ok Some t by (fastforce simp: limiter_ok_def)
  have B: "rl_burst rl = Finite B" "rl_ratePerSec rl = Finite r" "0 \<le> r" "1 \<le> B" "B \<le> 2 ^ 53" using ok by (simp_all add: limiter_ok_def)
  let ?d = "time_Sub t (bk_lastSeen b)"
  have d: "0 \<le> ?d" "?d < 2 ^ 63" "?d \<le> t - bk_lastSeen b" using x(4) by (simp_all add: time_Sub_def)
  obtain z where z: "fmin (Finite B) (fadd (Finite x) (fmul (Seconds ?d) (Finite r))) = Finite z" "0 \<le> z" "z \<le> B"
      "z \<le> x + refill r ?d + B / 2 ^ 51"
    using refill_bound [OF x(2,3) B(4,5,3) d(1,2)] unfolding refill_def by blast
  have "refill r ?d \<le> refill r (t - bk_lastSeen b)"
    using B(3) d(3) by (rule refill_mono)
  then have av: "z \<le> avail B r rl k t + B / 2 ^ 51"
    using z(3,4) B(4) Some x(1) by (simp add: avail_def min_def)
  show ?thesis
  proof (cases "1 \<le> z")
    case True
    obtain y where "fsub (Finite z) (Finite 1) = Finite y" "0 \<le> y" "y \<le> B" "y \<le> z - 1 + B / 2 ^ 51"
      using spend_bound [OF True z(3) B(5)] by blast
    moreover from this have "1 + y \<le> avail B r rl k t + B / 2 ^ 50" using av by (simp add: field_simps)
    ultimately show ?thesis using Some B x(1) z(1) True by (simp add: Allow_def)
  next
    case False
    have "z \<le> avail B r rl k t + B / 2 ^ 50" using av B(4) by (simp add: field_simps)
    then show ?thesis using Some B x(1) z False by (simp add: Allow_def)
  qed
qed

lemma Allow_ok:
  assumes "limiter_ok B r rl t0" and "t0 \<le> t"
  shows "limiter_ok B r (snd (Allow rl t k)) t"
proof -
  have "(\<exists>x. bk_tokens b = Finite x \<and> 0 \<le> x \<and> x \<le> B) \<and> bk_lastSeen b \<le> t"
    if b: "rl_buckets (snd (Allow rl t k)) k' = Some b" for k' b
  proof (cases "k' = k")
    case True
    then show ?thesis using Allow_spends [OF assms, of k] b by auto
  next
    case False
    then have "rl_buckets rl k' = Some b" using b by simp
    then show ?thesis using assms unfolding limiter_ok_def by (metis order_trans)
  qed
  then show ?thesis using assms(1) by (simp add: limiter_ok_def)
qed

lemma avail_later:
  assumes "limiter_ok B r rl t0" and "t0 \<le> t"
  shows "avail B r rl k t \<le> avail B r rl k t0 + refill r (t - t0)"
proof -
  have "0 \<le> refill r (t - t0)" using assms by (intro refill_nonneg) (simp_all add: limiter_ok_def)
  moreover have "refill r (t - bk_lastSeen b) = refill r (t0 - bk_lastSeen b) + refill r (t - t0)" for b :: bucket
    by (rule refill_split)
  ultimately show ?thesis by (cases "rl_buckets rl k") (simp_all add: avail_def min_def)
qed

lemma admitted_bound:
  assumes "limiter_ok B r rl t0" and "sorted (map snd reqs)" and "\<forall>x\<in>set reqs. t0 \<le> snd x \<and> snd x \<le> tn" and "t0 \<le> tn"
  shows "of_nat (admitted rl k reqs) \<le> avail B r rl k t0 + refill r (tn - t0) +
    of_nat (length (filter (\<lambda>x. fst x = k) reqs)) * (B / 2 ^ 50)"
  using assms
proof (induction reqs arbitrary: rl t0)
  case Nil
  then have "0 \<le> refill r (tn - t0)" by (simp add: refill_nonneg limiter_ok_def)
  moreover have "0 \<le> tokens_of (bk_tokens b) \<and> bk_lastSeen b \<le> t0" if "rl_buckets rl k = Some b" for b
    using that Nil.prems(1) by (fastforce simp: limiter_ok_def)
  then have "0 \<le> avail B r rl k t0"
    using Nil.prems(1) by (auto simp: avail_def limiter_ok_def refill_nonneg split: option.split)
  ultimately show ?case by simp
next
  case (Cons x xs)
  obtain k' t where x: "x = (k', t)" by force
  have t: "t0 \<le> t" "t \<le> tn" using Cons.prems x by auto
  let ?rl = "snd (Allow rl t k')" and ?n = "of_nat (length (filter (\<lambda>x. fst x = k) xs)) * (B / 2 ^ 50)"
  have ih: "of_nat (admitted ?rl k xs) \<le> avail B r ?rl k t + refill r (tn - t) + ?n"
    using Cons.IH [OF Allow_ok [OF Cons.prems(1) t(1)], of k'] Cons.prems x t by auto
  have split: "refill r (tn - t0) = refill r (t - t0) + refill r (tn - t)" by (rule refill_split)
  note later = avail_later [OF Cons.prems(1) t(1), of k]
  show ?case
  proof (cases "k' = k")
    case True
    obtain b y where "rl_buckets (snd (Allow rl t k)) k = Some b" "bk_tokens b = Finite y" "bk_lastSeen b = t"
        "(if fst (Allow rl t k) then 1 else 0) + y \<le> avail B r rl k t + B / 2 ^ 50"
      using Allow_spends [OF Cons.prems(1) t(1), of k] by blast
    then have "(if fst (Allow rl t k) then 1 else 0) + avail B r (snd (Allow rl t k)) k t \<le> avail B r rl k t + B / 2 ^ 50"
      by (simp add: avail_def)
    moreover have "of_nat (length (filter (\<lambda>x. fst x = k) (x # xs))) * (B / 2 ^ 50) = ?n + B / 2 ^ 50"
      by (simp add: x True distrib_right)
    ultimately show ?thesis
      using ih later unfolding split by (simp only: x True admitted.simps fst_conv snd_conv simp_thms) (auto split: if_splits)
  next
    case False
    then have "avail B r ?rl k t = avail B r rl k t" by (simp add: avail_def split: option.split)
    then show ?thesis using ih later False by (simp add: x split)
  qed
qed

section \<open>Properties\<close>

text \<open>C25: bounds. Starting from a new limiter with a burst between one and \<open>2 ^ 53\<close> and a finite rate that is
  not negative, a client gets no more requests through than the burst plus the rate times the
  length of the window, however its requests and those of other clients are spread over the
  window, but for the rounding of \<open>float64\<close>: a \<open>2 ^ 50\<close>-th of the refill, and a \<open>2 ^ 50\<close>-th of the
  burst for each request it makes.\<close>

theorem admitted_within_the_rate:
  assumes "0 \<le> rate" and "1 \<le> sint burst" and "sint burst \<le> 2 ^ 53" and "sorted (map snd reqs)"
    and "\<forall>x\<in>set reqs. t0 \<le> snd x \<and> snd x \<le> tn" and "t0 \<le> tn"
  shows "of_nat (admitted (NewRateLimiter (Finite rate) burst) k reqs) \<le>
    of_int (sint burst) + of_int (tn - t0) / 1000000000 * rate * (1 + 1 / 2 ^ 50) +
    of_nat (length (filter (\<lambda>x. fst x = k) reqs)) * (of_int (sint burst) / 2 ^ 50)"
proof -
  let ?B = "of_int (sint burst) :: rat"
  have B: "1 \<le> ?B" "?B \<le> 2 ^ 53"
    using assms(2,3) of_int_le_iff [of "sint burst" "2 ^ 53", where 'a = rat] of_int_le_iff [of 1 "sint burst", where 'a = rat] by simp_all
  have "f64_of (sint burst) = Finite ?B"
    using nearest_int [of "sint burst"] assms(2,3) B overflow_large by (simp add: f64_of_def rounded_def Let_def)
  then have "limiter_ok ?B rate (NewRateLimiter (Finite rate) burst) t0"
    using assms(1) B by (simp add: limiter_ok_def NewRateLimiter_def)
  from admitted_bound [OF this assms(4-6), of k] show ?thesis by (simp add: avail_def NewRateLimiter_def refill_def seconds_of_def)
qed

theorem admitted_within_the_rate_witness:
  "of_nat (admitted (NewRateLimiter (Finite 20) 2) ''10.0.0.1'' [(''10.0.0.1'', 0), (''10.0.0.2'', 1), (''10.0.0.1'', 2),
     (''10.0.0.1'', 3)]) \<le> (2 + 3 / 1000000000 * 20 * (1 + 1 / 2 ^ 50) + 3 * (2 / 2 ^ 50) :: rat)"
  using admitted_within_the_rate [of 20 2 "[(''10.0.0.1'', 0), (''10.0.0.2'', 1), (''10.0.0.1'', 2), (''10.0.0.1'', 3)]" 0 3 "''10.0.0.1''"]
  by simp

text \<open>
  The rounding cannot be left out: at the float closest to a third of a request per second, with a
  burst of one, two requests three seconds apart both pass, although the bound without it is below two.
\<close>

lemma rounding_admits_one_more:
  "admitted (NewRateLimiter (rounded (1 / 3)) 1) ''10.0.0.1'' [(''10.0.0.1'', 0), (''10.0.0.1'', 3000000000)] = 2"
  "1 + 3 * nearest (1 / 3) < 2"
proof -
  have third: "nearest (1 / 3) = 6004799503160661 / 18014398509481984" by code_simp
  have one: "nearest (18014398509481983 / 18014398509481984) = 1" by code_simp
  have ints: "nearest 0 = 0" "nearest 1 = 1" "nearest 3 = 3"
    using nearest_int [of 0] nearest_int [of 1] nearest_int [of 3] by simp_all
  show "1 + 3 * nearest (1 / 3) < 2" by (simp add: third)
  have "Seconds 3000000000 = Finite 3"
    by (simp add: Seconds_def f64_of_def rounded_small ints signed_divide_int_def signed_modulo_int_def)
  then show "admitted (NewRateLimiter (rounded (1 / 3)) 1) ''10.0.0.1'' [(''10.0.0.1'', 0), (''10.0.0.1'', 3000000000)] = 2"
    by (simp add: NewRateLimiter_def Allow_def f64_of_def fsub_def fmin_def time_Sub_def rounded_small ints third one)
qed

end
