(* ===== verification/Cache.thy ===== *)
theory Cache
  imports EngineTypes
begin

text \<open>
  The Redis cache of book snapshots, \<open>gateway/internal/cache/cache.go\<close>. The Redis client is a
  library: its operations and its state are arguments, and so is the JSON encoding of a snapshot.
  A cache pointer may be nil, and so may its client: both are options.
\<close>

section \<open>Printing an \<open>int32\<close>\<close>

definition go_div :: "'a::len word \<Rightarrow> 'a word \<Rightarrow> 'a word" where
  "go_div a b = word_of_int (sint a sdiv sint b)"

definition go_mod :: "'a::len word \<Rightarrow> 'a word \<Rightarrow> 'a word" where
  "go_mod a b = word_of_int (sint a smod sint b)"

lemma sint_i32_eq: "- (2 ^ 31) \<le> k \<Longrightarrow> k < 2 ^ 31 \<Longrightarrow> sint (word_of_int k :: i32) = k"
  by (simp add: sint_sbintrunc' signed_take_bit_int_eq_self)

lemma i32_range: "- (2 ^ 31) \<le> sint x \<and> sint x < 2 ^ 31" for x :: i32
  using sint_ge [of x] sint_lt [of x] by simp

lemma i32_eq_iff: "a = b \<longleftrightarrow> sint a = sint b" for a b :: i32
  by (metis signed_word_eqI)

lemma go_div_mod_ten:
  assumes "0 \<le> sint n"
  shows "sint (go_div n 10 :: i32) = sint n div 10" and "sint (go_mod n 10 :: i32) = sint n mod 10"
proof -
  have "sint n sdiv 10 = sint n div 10" "sint n smod 10 = sint n mod 10"
    using assms by (simp_all add: signed_divide_int_def signed_modulo_int_def sgn_if)
  moreover have "sint n < 2 ^ 31" using i32_range [of n] by simp
  ultimately show "sint (go_div n 10 :: i32) = sint n div 10" "sint (go_mod n 10 :: i32) = sint n mod 10"
    using assms by (simp_all add: go_div_def go_mod_def sint_i32_eq)
qed

text \<open>
  The loop writes its digits from the end of a twelve-byte buffer backwards: the argument is the
  part of the buffer already written (\<open>itoa_fits\<close>: it never runs out of room).
\<close>

function itoa_digits :: "i32 \<Rightarrow> string \<Rightarrow> string" where
  "itoa_digits n buf =
     (if 0 <s n then itoa_digits (go_div n 10) (char_of (unat (48 + go_mod n 10)) # buf) else buf)"
  by pat_completeness auto

termination itoa_digits
proof (relation "measure (\<lambda>(n, buf). nat (sint n))")
  fix n :: i32 and buf :: string
  assume "0 <s n"
  then have "0 < sint n" by (simp add: go_signed)
  then have "sint (go_div n 10) < sint n" using go_div_mod_ten(1) [of n] by simp
  with \<open>0 < sint n\<close> show "((go_div n 10, char_of (unat (48 + go_mod n 10)) # buf), n, buf) \<in> measure (\<lambda>(n, buf). nat (sint n))"
    by simp
qed simp

declare itoa_digits.simps [simp del]

definition itoa :: "i32 \<Rightarrow> string" where
  "itoa n =
     (if n = 0 then ''0''
      else let neg = n <s 0;
               n' = (if neg then - n else n);
               buf = itoa_digits n' []
           in if neg then CHR ''-'' # buf else buf)"

definition bookKey :: "string \<Rightarrow> i32 \<Rightarrow> string" where
  "bookKey symbol depth = ''book:'' @ symbol @ '':'' @ itoa depth"

section \<open>The cache\<close>

record 'r RedisClient =
  rd_Get :: "string \<Rightarrow> 'r \<Rightarrow> error + string"
  rd_Set :: "string \<Rightarrow> string \<Rightarrow> i64 \<Rightarrow> 'r \<Rightarrow> error option \<times> 'r"
  rd_Ping :: "'r \<Rightarrow> error option"

record snapCodec =
  js_Marshal :: "BookSnapshot \<Rightarrow> error + string"
  js_Unmarshal :: "string \<Rightarrow> error + BookSnapshot"

record 'r Cache =
  ca_rdb :: "'r RedisClient option"
  ca_ttl :: i64

definition CacheGetBook :: "snapCodec \<Rightarrow> 'r Cache option \<Rightarrow> 'r \<Rightarrow> string \<Rightarrow> i32 \<Rightarrow> BookSnapshot option" where
  "CacheGetBook js c r symbol depth =
     (case c of
        None \<Rightarrow> None
      | Some c \<Rightarrow>
          (case ca_rdb c of
             None \<Rightarrow> None
           | Some rdb \<Rightarrow>
               (case rd_Get rdb (bookKey symbol depth) r of
                  Inl err \<Rightarrow> None
                | Inr raw \<Rightarrow> (case js_Unmarshal js raw of Inl err \<Rightarrow> None | Inr snap \<Rightarrow> Some snap))))"

definition CacheSetBook :: "snapCodec \<Rightarrow> 'r Cache option \<Rightarrow> 'r \<Rightarrow> i32 \<Rightarrow> BookSnapshot \<Rightarrow> 'r" where
  "CacheSetBook js c r depth snap =
     (case c of
        None \<Rightarrow> r
      | Some c \<Rightarrow>
          (case ca_rdb c of
             None \<Rightarrow> r
           | Some rdb \<Rightarrow>
               (case js_Marshal js snap of
                  Inl err \<Rightarrow> r
                | Inr raw \<Rightarrow> snd (rd_Set rdb (bookKey (bs_Symbol snap) depth) raw (ca_ttl c) r))))"

definition CachePing :: "'r Cache option \<Rightarrow> 'r \<Rightarrow> bool" where
  "CachePing c r =
     (case c of None \<Rightarrow> False
      | Some c \<Rightarrow> (case ca_rdb c of None \<Rightarrow> False | Some rdb \<Rightarrow> rd_Ping rdb r = None))"

section \<open>Keys\<close>

lemma div_ten_zero: "0 < k \<Longrightarrow> k div 10 = 0 \<longleftrightarrow> nat k < 10" for k :: int
  by (simp add: nat_less_iff) presburger

lemma int_digits: "0 \<le> k \<Longrightarrow> k < 10 \<Longrightarrow> k \<in> {0, 1, 2, 3, 4, 5, 6, 7, 8, 9}" for k :: int
  by (simp, presburger)

lemma char_of_digit: "0 \<le> sint d \<Longrightarrow> sint d < 10 \<Longrightarrow> char_of (unat (48 + d)) = digit_char (nat (sint d))" for d :: i32
proof -
  assume d: "0 \<le> sint d" "sint d < 10"
  then have "sint d \<in> {0, 1, 2, 3, 4, 5, 6, 7, 8, 9}" by (rule int_digits)
  moreover have "d = word_of_int (sint d)" by simp
  ultimately show ?thesis by (elim insertE) (auto simp: digit_char_def char_of_def bit_0)
qed

lemma itoa_digits_show:
  "0 \<le> sint n \<Longrightarrow> itoa_digits n buf = (if n = 0 then [] else show_nat (nat (sint n))) @ buf"
proof (induction n buf rule: itoa_digits.induct)
  case (1 n buf)
  let ?q = "go_div n 10" and ?d = "go_mod n 10"
  show ?case
  proof (cases "n = 0")
    case True
    then show ?thesis by (subst itoa_digits.simps) (simp add: go_signed)
  next
    case False
    then have pos: "0 < sint n" using 1(2) by (metis i32_eq_iff order_le_less sint_0)
    note q = go_div_mod_ten [OF 1(2)]
    have d: "char_of (unat (48 + ?d)) = digit_char (nat (sint n) mod 10)"
      using 1(2) q(2) by (subst char_of_digit) (simp_all add: nat_mod_distrib)
    have q0: "?q = 0 \<longleftrightarrow> nat (sint n) < 10"
      using q(1) div_ten_zero [OF pos] by (simp add: i32_eq_iff)
    have "itoa_digits n buf = itoa_digits ?q (char_of (unat (48 + ?d)) # buf)"
      using pos by (subst itoa_digits.simps) (simp add: go_signed)
    also have "\<dots> = (if ?q = 0 then [] else show_nat (nat (sint ?q))) @ char_of (unat (48 + ?d)) # buf"
      using 1(1) pos q(1) by (simp add: go_signed)
    also have "\<dots> = show_nat (nat (sint n)) @ buf"
      using pos by (subst (2) show_nat.simps) (simp add: q0 d q(1) nat_div_distrib mod_less)
    finally show ?thesis using False by simp
  qed
qed

lemma sint_neg_i32: "- (2 ^ 31) < sint n \<Longrightarrow> sint (- n) = - sint n" for n :: i32
  using i32_range [of n] by (simp add: sint_word_minus signed_take_bit_int_eq_self)

lemma itoa_min: "itoa (- (2 ^ 31)) = ''-''"
  by (simp add: itoa_def itoa_digits.simps go_signed)

lemma show_zero [simp]: "show_nat 0 = ''0''"
  by (subst show_nat.simps) (simp add: digit_char_def)

text \<open>What \<open>itoa\<close> prints: the decimal numeral, except that the least \<open>int32\<close> loses its digits.\<close>

lemma itoa_shows:
  "itoa n = (if sint n = - (2 ^ 31) then ''-''
     else if sint n < 0 then CHR ''-'' # show_nat (nat (- sint n)) else show_nat (nat (sint n)))"
proof (cases "sint n = - (2 ^ 31)")
  case True
  then have "n = - (2 ^ 31)" by (simp add: i32_eq_iff)
  then show ?thesis using itoa_min True by simp
next
  case False
  then have neg: "sint (- n) = - sint n" using i32_range [of n] by (intro sint_neg_i32) auto
  have z: "n = 0 \<longleftrightarrow> sint n = 0" by (simp add: i32_eq_iff)
  consider "sint n < 0" | "sint n = 0" | "0 < sint n" by linarith
  then show ?thesis
  proof cases
    case 1
    then show ?thesis using False z neg itoa_digits_show [of "- n" "[]"]
      by (simp add: itoa_def go_signed Let_def)
  next
    case 2
    then show ?thesis using z by (simp add: itoa_def)
  next
    case 3
    then show ?thesis using z itoa_digits_show [of n "[]"] by (simp add: itoa_def go_signed Let_def)
  qed
qed

lemma itoa_chars: "c \<in> set (itoa n) \<Longrightarrow> c \<noteq> CHR '':''"
  using show_nat_chars [of c] by (auto simp: itoa_shows split: if_splits)

lemma itoa_inj: "itoa m = itoa n \<longleftrightarrow> m = n"
proof
  assume eq: "itoa m = itoa n"
  have minus: "show_nat a \<noteq> CHR ''-'' # xs" for a xs
    using show_nat_chars [of "CHR ''-''" a] by auto
  have "sint m = sint n"
    using eq minus minus [symmetric] show_nat_nonempty [symmetric]
    by (auto simp: itoa_shows show_nat_inj nat_eq_iff split: if_splits)
  then show "m = n" by (simp add: i32_eq_iff)
qed simp

lemma show_nat_length: "n < 10 ^ k \<Longrightarrow> 0 < k \<Longrightarrow> length (show_nat n) \<le> k"
proof (induction n arbitrary: k rule: show_nat.induct)
  case (1 n)
  show ?case
  proof (cases "n < 10")
    case True
    then show ?thesis using 1(3) by (subst show_nat.simps) simp
  next
    case False
    then obtain j where k: "k = Suc j" "0 < j" using 1(2,3) by (cases k; cases "k - 1") auto
    then have "n div 10 < 10 ^ j" using 1(2) by (simp add: div_less_iff_less_mult mult.commute)
    then show ?thesis using 1(1) [OF False, of j] False k by (subst show_nat.simps) simp
  qed
qed

text \<open>The buffer has room: at most eleven of its twelve bytes are written.\<close>

lemma itoa_fits: "length (itoa n) \<le> 11"
proof -
  have "length (show_nat (nat (sint n))) \<le> 10" "length (show_nat (nat (- sint n))) \<le> 10"
    using i32_range [of n] by (auto intro!: show_nat_length)
  then show ?thesis by (simp add: itoa_shows)
qed

lemma split_at_last:
  "c \<notin> set a \<Longrightarrow> c \<notin> set b \<Longrightarrow> x @ c # a = y @ c # b \<Longrightarrow> x = y \<and> a = b"
proof (induction x arbitrary: y)
  case Nil
  then show ?case by (cases y) auto
next
  case (Cons k x)
  then show ?case by (cases y) auto
qed

lemma bookKey_inj: "bookKey s d = bookKey s' d' \<longleftrightarrow> s = s' \<and> d = d'"
proof
  assume "bookKey s d = bookKey s' d'"
  then have eq: "s @ CHR '':'' # itoa d = s' @ CHR '':'' # itoa d'" by (simp add: bookKey_def)
  have "CHR '':'' \<notin> set (itoa d)" "CHR '':'' \<notin> set (itoa d')" using itoa_chars by blast+
  from split_at_last [OF this eq] have "s = s' \<and> itoa d = itoa d'" .
  then show "s = s' \<and> d = d'" by (simp add: itoa_inj)
qed simp

section \<open>What a hit is\<close>

text \<open>
  The one law of Redis the cache relies on: reading after a write gives, for the written key, the
  written value or what was there before (the write may have failed), for any other key what was
  there before, or an error (the entry expired, or the server is away).
\<close>

definition redis_laws :: "'r RedisClient \<Rightarrow> bool" where
  "redis_laws R \<longleftrightarrow>
     (\<forall>k v ttl r k' w. rd_Get R k' (snd (rd_Set R k v ttl r)) = Inr w \<longrightarrow>
        k' = k \<and> w = v \<or> rd_Get R k' r = Inr w)"

text \<open>A snapshot that survives its encoding, as every one with valid UTF-8 text does.\<close>

definition faithful :: "snapCodec \<Rightarrow> BookSnapshot \<Rightarrow> bool" where
  "faithful js snap \<longleftrightarrow> (\<forall>raw. js_Marshal js snap = Inr raw \<longrightarrow> js_Unmarshal js raw = Inr snap)"

text \<open>
  The states of a Redis server that starts empty and is written by \<open>SetBook\<close> alone, with the
  writes so far; entries may disappear at any time.
\<close>

inductive cache_reach :: "snapCodec \<Rightarrow> 'r RedisClient \<Rightarrow> i64 \<Rightarrow> 'r \<Rightarrow> (i32 \<times> BookSnapshot) list \<Rightarrow> bool"
  for js :: snapCodec and R :: "'r RedisClient" and ttl :: i64 where
  cold: "(\<And>k w. rd_Get R k r \<noteq> Inr w) \<Longrightarrow> cache_reach js R ttl r []"
| lapse: "cache_reach js R ttl r stored \<Longrightarrow> (\<And>k w. rd_Get R k r' = Inr w \<Longrightarrow> rd_Get R k r = Inr w) \<Longrightarrow>
    cache_reach js R ttl r' stored"
| put: "cache_reach js R ttl r stored \<Longrightarrow>
    cache_reach js R ttl (CacheSetBook js (Some \<lparr>ca_rdb = Some R, ca_ttl = ttl\<rparr>) r depth snap) (stored @ [(depth, snap)])"

lemma cache_reach_entries:
  assumes "cache_reach js R ttl r stored" and "redis_laws R" and "rd_Get R k r = Inr w"
  shows "\<exists>(d, s)\<in>set stored. k = bookKey (bs_Symbol s) d \<and> js_Marshal js s = Inr w"
  using assms
proof (induction arbitrary: k w rule: cache_reach.induct)
  case (put r stored depth snap)
  show ?case
  proof (cases "js_Marshal js snap")
    case (Inl err)
    then show ?thesis using put by (auto simp: CacheSetBook_def)
  next
    case (Inr raw)
    then have "rd_Get R k (snd (rd_Set R (bookKey (bs_Symbol snap) depth) raw ttl r)) = Inr w"
      using put.prems by (simp add: CacheSetBook_def)
    then have "k = bookKey (bs_Symbol snap) depth \<and> w = raw \<or> rd_Get R k r = Inr w"
      using put.prems(1) unfolding redis_laws_def by blast
    then show ?thesis using put Inr by auto
  qed
qed auto

lemma CacheGetBook_hit:
  assumes "CacheGetBook js (Some \<lparr>ca_rdb = Some R, ca_ttl = ttl\<rparr>) r symbol depth = Some snap"
  shows "\<exists>raw. rd_Get R (bookKey symbol depth) r = Inr raw \<and> js_Unmarshal js raw = Inr snap"
  using assms by (auto simp: CacheGetBook_def split: sum.splits)

lemma cache_hit_stored:
  assumes "cache_reach js R ttl r stored" and "redis_laws R" and "\<forall>(d, s)\<in>set stored. faithful js s"
    and "CacheGetBook js (Some \<lparr>ca_rdb = Some R, ca_ttl = ttl\<rparr>) r symbol depth = Some snap"
  shows "(depth, snap) \<in> set stored \<and> bs_Symbol snap = symbol"
proof -
  obtain raw where raw: "rd_Get R (bookKey symbol depth) r = Inr raw" "js_Unmarshal js raw = Inr snap"
    using CacheGetBook_hit [OF assms(4)] by blast
  obtain d s where s: "(d, s) \<in> set stored" "bookKey symbol depth = bookKey (bs_Symbol s) d" "js_Marshal js s = Inr raw"
    using cache_reach_entries [OF assms(1,2) raw(1)] by blast
  then have "js_Unmarshal js raw = Inr s" using assms(3) by (auto simp: faithful_def)
  then show ?thesis using s raw(2) by (simp add: bookKey_inj)
qed

section \<open>Properties\<close>

text \<open>Safety, the cache. A hit for a symbol and a depth is a snapshot that was stored for
  exactly this symbol and this depth: whatever the symbol's text and the depth's sign, keys never
  collide, and expiring entries or failing writes only ever turn a hit into a miss.\<close>

theorem cache_hits_were_stored:
  assumes "cache_reach js R ttl r stored" and "redis_laws R" and "\<forall>(d, s)\<in>set stored. faithful js s"
    and "CacheGetBook js (Some \<lparr>ca_rdb = Some R, ca_ttl = ttl\<rparr>) r symbol depth = Some snap"
  shows "(depth, snap) \<in> set stored \<and> bs_Symbol snap = symbol"
  using assms by (rule cache_hit_stored)

definition sample_redis :: "(string \<rightharpoonup> string) RedisClient" where
  "sample_redis = \<lparr>rd_Get = \<lambda>k r. (case r k of None \<Rightarrow> Inl ''nil'' | Some v \<Rightarrow> Inr v),
     rd_Set = \<lambda>k v ttl r. (None, r(k \<mapsto> v)), rd_Ping = \<lambda>r. None\<rparr>"

definition sample_codec :: snapCodec where
  "sample_codec = \<lparr>js_Marshal = \<lambda>s. Inr (bs_Symbol s),
     js_Unmarshal = \<lambda>v. Inr \<lparr>bs_Symbol = v, bs_Bids = [], bs_Asks = [], bs_TsMillis = 7\<rparr>\<rparr>"

definition sample_snapshot :: BookSnapshot where
  "sample_snapshot = \<lparr>bs_Symbol = ''A:1'', bs_Bids = [], bs_Asks = [], bs_TsMillis = 7\<rparr>"

theorem cache_hits_were_stored_witness:
  "(5 :: i32, sample_snapshot) \<in> set [(5, sample_snapshot)] \<and> bs_Symbol sample_snapshot = ''A:1''"
proof -
  let ?r = "CacheSetBook sample_codec (Some \<lparr>ca_rdb = Some sample_redis, ca_ttl = 1\<rparr>) Map.empty 5 sample_snapshot"
  have "cache_reach sample_codec sample_redis 1 Map.empty []"
    by (rule cold) (simp add: sample_redis_def)
  from put [OF this, of 5 sample_snapshot]
  have reach: "cache_reach sample_codec sample_redis 1 ?r [(5, sample_snapshot)]" by simp
  have laws: "redis_laws sample_redis" by (auto simp: redis_laws_def sample_redis_def)
  have codec: "\<forall>(d, s)\<in>set [(5 :: i32, sample_snapshot)]. faithful sample_codec s"
    by (simp add: faithful_def sample_codec_def sample_snapshot_def)
  have "CacheGetBook sample_codec (Some \<lparr>ca_rdb = Some sample_redis, ca_ttl = 1\<rparr>) ?r ''A:1'' 5 = Some sample_snapshot"
    by (simp add: CacheGetBook_def CacheSetBook_def sample_redis_def sample_codec_def sample_snapshot_def)
  from cache_hits_were_stored [OF reach laws codec this] show ?thesis .
qed

text \<open>Printing a depth for its key never leaves the twelve-byte buffer, never confuses
  two depths, and gives the decimal numeral of every depth but the least \<open>int32\<close>, which prints as a
  bare sign.\<close>

theorem itoa_is_exact_but_for_the_least:
  "length (itoa n) \<le> 12 \<and> (itoa m = itoa n \<longleftrightarrow> m = n) \<and> itoa (- (2 ^ 31)) = ''-'' \<and>
   (n \<noteq> - (2 ^ 31) \<longrightarrow> itoa n = (if sint n < 0 then CHR ''-'' # show_nat (nat (- sint n)) else show_nat (nat (sint n))))"
proof -
  have "n \<noteq> - (2 ^ 31) \<Longrightarrow> sint n \<noteq> - (2 ^ 31)" by (simp add: i32_eq_iff)
  then show ?thesis using itoa_fits [of n] by (simp add: itoa_inj itoa_min [simplified]) (simp add: itoa_shows)
qed

theorem itoa_is_exact_but_for_the_least_witness: "itoa (- 42) = ''-42'' \<and> length (itoa (- 42)) \<le> 12"
proof -
  have m: "(- 42 :: i32) \<noteq> - (2 ^ 31)" by simp
  have "show_nat 42 = ''42''" by (subst show_nat.simps, subst show_nat.simps) (simp add: digit_char_def)
  then show ?thesis using itoa_is_exact_but_for_the_least [of "- 42" 0] m by simp
qed

end
