(* ===== verification/OrderBook.thy ===== *)
theory OrderBook
  imports EngineTypes
begin

text \<open>
  One symbol's limit order book of the in-process engine, \<open>gateway/internal/engine/local.go\<close>:
  a flat slice of resting orders in arrival order. \<open>bestOpposite\<close> scans it for the best
  counterparty, \<open>remove\<close> takes an order out, \<open>topLevels\<close> and \<open>GetBook\<close> aggregate it.

  The slice holds pointers; a resting order is reached through its place in the slice only,
  so the scan returns the place with the order, and a write through the pointer is an update
  at that place.
\<close>

section \<open>State\<close>

record restingOrder =
  ro_id :: string
  ro_accountID :: string
  ro_side :: Side
  ro_price :: i64
  ro_remaining :: i64
  ro_seq :: i64

record orderBook =
  ob_symbol :: string
  ob_orders :: "restingOrder list"

section \<open>Operations\<close>

text \<open>\<open>betterPrice\<close>: lower is better for asks, higher for bids.\<close>

definition betterPrice :: "Side \<Rightarrow> i64 \<Rightarrow> i64 \<Rightarrow> bool" where
  "betterPrice side a b = (if side = SideSell then a <s b else b <s a)"

definition wanted :: "Side \<Rightarrow> Side" where
  "wanted incoming = (if incoming = SideSell then SideBuy else SideSell)"

text \<open>The scan of \<open>bestOpposite\<close>: \<open>i\<close> is the place of the head of the list in the slice.\<close>

fun bestScan ::
  "Side \<Rightarrow> string \<Rightarrow> restingOrder list \<Rightarrow> nat \<Rightarrow> (nat \<times> restingOrder) option \<Rightarrow>
   (nat \<times> restingOrder) option" where
  "bestScan want taker [] i best = best"
| "bestScan want taker (ro # ros) i best =
     (if ro_side ro \<noteq> want then bestScan want taker ros (Suc i) best
      else if ro_accountID ro = taker then bestScan want taker ros (Suc i) best
      else if (case best of
                 None \<Rightarrow> True
               | Some (_, b) \<Rightarrow> betterPrice want (ro_price ro) (ro_price b) \<or>
                   (ro_price ro = ro_price b \<and> ro_seq ro <s ro_seq b))
           then bestScan want taker ros (Suc i) (Some (i, ro))
      else bestScan want taker ros (Suc i) best)"

definition bestOpposite ::
  "restingOrder list \<Rightarrow> Side \<Rightarrow> string \<Rightarrow> (nat \<times> restingOrder) option" where
  "bestOpposite orders incoming takerAccount =
     bestScan (wanted incoming) takerAccount orders 0 None"

text \<open>\<open>remove\<close>: the first order with this id leaves the slice.\<close>

fun remove_order :: "restingOrder list \<Rightarrow> string \<Rightarrow> restingOrder list" where
  "remove_order [] i = []"
| "remove_order (ro # ros) i = (if ro_id ro = i then ros else ro # remove_order ros i)"

text \<open>\<open>crosses\<close>: can the incoming order trade with a resting order at this price?\<close>

definition crosses :: "NewOrder \<Rightarrow> i64 \<Rightarrow> bool" where
  "crosses o' restPrice =
     (if no_Type o' = OrderTypeMarket then True
      else if no_Side o' = SideBuy then restPrice \<le>s no_PriceTicks o'
      else no_PriceTicks o' \<le>s restPrice)"

definition statusFor :: "OrderType \<Rightarrow> i64 \<Rightarrow> i64 \<Rightarrow> i64 \<Rightarrow> OrderStatus" where
  "statusFor t qty filled remaining =
     (if filled = 0 \<and> t = OrderTypeMarket then StatusRejected
      else if filled = 0 then StatusAccepted
      else if remaining = 0 then StatusFilled
      else if t = OrderTypeMarket then StatusPartiallyFilled
      else StatusPartiallyFilled)"

definition reasonFor :: "OrderType \<Rightarrow> i64 \<Rightarrow> string" where
  "reasonFor t filled =
     (if t = OrderTypeMarket \<and> filled = 0 then ''no liquidity to fill market order'' else '''')"

text \<open>
  The aggregation of \<open>GetBook\<close>: two maps from price to quantity, filled in one pass, each
  turned into price levels (in the order \<open>ks\<close> in which \<open>range byPrice\<close> visits the prices),
  sorted best first and cut to the depth.
\<close>

fun aggregate ::
  "restingOrder list \<Rightarrow> (i64 \<rightharpoonup> i64) \<Rightarrow> (i64 \<rightharpoonup> i64) \<Rightarrow> (i64 \<rightharpoonup> i64) \<times> (i64 \<rightharpoonup> i64)" where
  "aggregate [] bids asks = (bids, asks)"
| "aggregate (ro # ros) bids asks =
     (if ro_side ro = SideBuy
      then aggregate ros (bids(ro_price ro \<mapsto> map_get bids (ro_price ro) + ro_remaining ro)) asks
      else aggregate ros bids (asks(ro_price ro \<mapsto> map_get asks (ro_price ro) + ro_remaining ro)))"

definition level_before :: "bool \<Rightarrow> PriceLevel \<Rightarrow> PriceLevel \<Rightarrow> bool" where
  "level_before descending a b =
     (if descending then pl_PriceTicks b <s pl_PriceTicks a else pl_PriceTicks a <s pl_PriceTicks b)"

definition topLevels :: "(i64 \<rightharpoonup> i64) \<Rightarrow> i64 list \<Rightarrow> nat \<Rightarrow> bool \<Rightarrow> PriceLevel list" where
  "topLevels byPrice ks depth descending =
     take depth (sort_slice (level_before descending)
       (map (\<lambda>p. \<lparr>pl_PriceTicks = p, pl_Quantity = map_get byPrice p\<rparr>) ks))"

section \<open>Price-time priority\<close>

text \<open>
  The order the exchange promises: price first (the most aggressive side of the book), then
  arrival. It is a lexicographic order on integers, lowest first.
\<close>

definition prio :: "Side \<Rightarrow> restingOrder \<Rightarrow> int \<times> int" where
  "prio want ro = (if want = SideSell then sint (ro_price ro) else - sint (ro_price ro), sint (ro_seq ro))"

definition eligible :: "Side \<Rightarrow> string \<Rightarrow> restingOrder \<Rightarrow> bool" where
  "eligible want taker ro \<longleftrightarrow> ro_side ro = want \<and> ro_accountID ro \<noteq> taker"

lemma beats_prio:
  "betterPrice want (ro_price a) (ro_price b) \<or> (ro_price a = ro_price b \<and> ro_seq a <s ro_seq b) \<longleftrightarrow>
   prio want a < prio want b"
  by (auto simp: betterPrice_def prio_def less_prod_def' go_signed i64_eq_iff)

lemma bestScan_cons:
  "bestScan want taker (ro # ros) i best =
     bestScan want taker ros (Suc i)
       (if eligible want taker ro \<and> (case best of None \<Rightarrow> True | Some (_, b) \<Rightarrow> prio want ro < prio want b)
        then Some (i, ro) else best)"
  by (auto simp: eligible_def beats_prio split: option.split)

lemma bestScan_None:
  "bestScan want taker os i best = None \<longleftrightarrow> best = None \<and> (\<forall>ro\<in>set os. \<not> eligible want taker ro)"
  by (induction os arbitrary: i best) (auto simp: bestScan_cons simp del: bestScan.simps(2))

lemma bestScan_Some:
  "bestScan want taker os i best = Some (j, m) \<Longrightarrow>
     (best = Some (j, m) \<or> (i \<le> j \<and> j < i + length os \<and> os ! (j - i) = m \<and> eligible want taker m)) \<and>
     (\<forall>ro\<in>set os. eligible want taker ro \<longrightarrow> prio want m \<le> prio want ro) \<and>
     (\<forall>k b. best = Some (k, b) \<longrightarrow> prio want m \<le> prio want b)"
proof (induction os arbitrary: i best)
  case Nil
  then show ?case by simp
next
  case (Cons ro ros)
  let ?take = "eligible want taker ro \<and> (case best of None \<Rightarrow> True | Some (_, b) \<Rightarrow> prio want ro < prio want b)"
  from Cons.prems have scan: "bestScan want taker ros (Suc i) (if ?take then Some (i, ro) else best) = Some (j, m)"
    by (simp add: bestScan_cons del: bestScan.simps)
  note IH = Cons.IH [OF scan]
  have place: "best = Some (j, m) \<or>
      (i \<le> j \<and> j < i + length (ro # ros) \<and> (ro # ros) ! (j - i) = m \<and> eligible want taker m)"
  proof -
    have "(if ?take then Some (i, ro) else best) = Some (j, m) \<or>
        Suc i \<le> j \<and> j < Suc i + length ros \<and> ros ! (j - Suc i) = m \<and> eligible want taker m"
      using IH by blast
    then show ?thesis
    proof
      assume "(if ?take then Some (i, ro) else best) = Some (j, m)"
      then show ?thesis by (auto split: if_splits)
    next
      assume "Suc i \<le> j \<and> j < Suc i + length ros \<and> ros ! (j - Suc i) = m \<and> eligible want taker m"
      then show ?thesis by (auto simp: nth_Cons' Suc_diff_Suc [symmetric])
    qed
  qed
  have "eligible want taker ro \<longrightarrow> prio want m \<le> prio want ro"
    using IH by (cases best) (force split: if_splits)+
  moreover have "\<forall>k b. best = Some (k, b) \<longrightarrow> prio want m \<le> prio want b"
    using IH by (force split: if_splits)
  ultimately show ?case using IH place by simp
qed

lemma bestOpposite_None:
  "bestOpposite os side taker = None \<longleftrightarrow> (\<forall>ro\<in>set os. \<not> eligible (wanted side) taker ro)"
  by (simp add: bestOpposite_def bestScan_None)

lemma bestOpposite_Some:
  assumes "bestOpposite os side taker = Some (j, m)"
  shows "j < length os" and "os ! j = m" and "m \<in> set os" and "eligible (wanted side) taker m"
    and "\<And>ro. ro \<in> set os \<Longrightarrow> eligible (wanted side) taker ro \<Longrightarrow> prio (wanted side) m \<le> prio (wanted side) ro"
proof -
  note b = bestScan_Some [OF assms [unfolded bestOpposite_def]]
  show "j < length os" "os ! j = m" "eligible (wanted side) taker m" using b by auto
  then show "m \<in> set os" by (auto simp: in_set_conv_nth)
  show "\<And>ro. ro \<in> set os \<Longrightarrow> eligible (wanted side) taker ro \<Longrightarrow> prio (wanted side) m \<le> prio (wanted side) ro"
    using b by blast
qed

section \<open>Removing an order\<close>

lemma length_remove_order:
  "i \<in> ro_id ` set os \<Longrightarrow> Suc (length (remove_order os i)) = length os"
  by (induction os) auto

lemma remove_order_absent: "i \<notin> ro_id ` set os \<Longrightarrow> remove_order os i = os"
  by (induction os) auto

lemma remove_order_filter:
  "distinct (map ro_id os) \<Longrightarrow> remove_order os i = filter (\<lambda>ro. ro_id ro \<noteq> i) os"
proof (induction os)
  case (Cons ro ros)
  then show ?case by (auto simp: filter_id_conv) (metis (mono_tags) filter_True image_eqI)
qed simp

lemma set_remove_order: "set (remove_order os i) \<subseteq> set os"
  by (induction os) auto

lemma remove_order_keeps: "ro \<in> set os \<Longrightarrow> ro_id ro \<noteq> i \<Longrightarrow> ro \<in> set (remove_order os i)"
  by (induction os) auto

definition without :: "nat \<Rightarrow> 'a list \<Rightarrow> 'a list" where
  "without j xs = take j xs @ drop (Suc j) xs"

lemma mset_without:
  assumes "j < length xs"
  shows "mset xs = add_mset (xs ! j) (mset (without j xs))"
proof -
  have "mset xs = mset (take j xs @ xs ! j # drop (Suc j) xs)"
    using id_take_nth_drop [OF assms] by (rule arg_cong)
  then show ?thesis by (simp add: without_def)
qed

lemma set_without: "set (without j xs) \<subseteq> set xs"
  by (auto simp: without_def dest: in_set_takeD in_set_dropD)

lemma without_update [simp]: "without j (xs[j := x]) = without j xs"
  by (simp add: without_def take_update_cancel drop_update_cancel)

lemma remove_order_at:
  assumes "distinct (map ro_id os)" and "j < length os" and "ro_id m = ro_id (os ! j)"
  shows "remove_order (os[j := m]) (ro_id (os ! j)) = without j os"
  using assms
proof (induction os arbitrary: j)
  case Nil
  then show ?case by simp
next
  case (Cons ro ros)
  then show ?case by (cases j) (auto simp: without_def)
qed

section \<open>The queue in front of an incoming order\<close>

text \<open>
  The resting orders an incoming order may trade with, in price-time priority. Under a
  well-formed book (distinct arrival numbers) the scan of the code returns its head.
\<close>

definition queue :: "Side \<Rightarrow> string \<Rightarrow> restingOrder list \<Rightarrow> restingOrder list" where
  "queue want taker os = sort_key (prio want) (filter (eligible want taker) os)"

text \<open>
  A well-formed slice: ids are distinct, arrival numbers ascend along the slice, and every
  resting order has something left at a positive price.
\<close>

definition book_ok :: "restingOrder list \<Rightarrow> bool" where
  "book_ok os \<longleftrightarrow> distinct (map ro_id os) \<and>
     sorted_wrt (\<lambda>a b. sint (ro_seq a) < sint (ro_seq b)) os \<and>
     (\<forall>ro\<in>set os. 0 < sint (ro_remaining ro) \<and> 0 < sint (ro_price ro))"

lemma book_ok_Nil [simp]: "book_ok []"
  by (simp add: book_ok_def)

lemma book_ok_seqs: "book_ok os \<Longrightarrow> distinct (map ro_seq os)"
proof (induction os)
  case (Cons ro os)
  then show ?case by (fastforce simp: book_ok_def)
qed simp

lemma book_ok_ids: "book_ok os \<Longrightarrow> distinct (map ro_id os)"
  by (simp add: book_ok_def)

lemma book_ok_pos:
  "book_ok os \<Longrightarrow> ro \<in> set os \<Longrightarrow> 0 < sint (ro_remaining ro)"
  "book_ok os \<Longrightarrow> ro \<in> set os \<Longrightarrow> 0 < sint (ro_price ro)"
  by (auto simp: book_ok_def)

lemma book_ok_without: "book_ok os \<Longrightarrow> book_ok (without j os)"
proof -
  assume ok: "book_ok os"
  then have "book_ok (take j os @ drop j os)" by simp
  moreover have "drop (Suc j) os = tl (drop j os)" by (simp add: drop_Suc drop_tl)
  ultimately show ?thesis unfolding without_def book_ok_def
    by (cases "drop j os") (auto simp: sorted_wrt_append)
qed

lemma book_ok_filter: "book_ok os \<Longrightarrow> book_ok (filter p os)"
  by (auto simp: book_ok_def distinct_map_filter sorted_wrt_filter)

lemma book_ok_update:
  assumes "book_ok os" and "j < length os" and "ro_id m = ro_id (os ! j)" and "ro_seq m = ro_seq (os ! j)"
    and "0 < sint (ro_remaining m)" and "0 < sint (ro_price m)"
  shows "book_ok (os[j := m])"
proof -
  have "map ro_id (os[j := m]) = map ro_id os"
    using assms(3) by (metis list_update_id map_update)
  moreover have "map ro_seq (os[j := m]) = map ro_seq os"
    using assms(4) by (metis list_update_id map_update)
  moreover have "sorted_wrt (\<lambda>a b. sint (ro_seq a) < sint (ro_seq b)) xs =
      sorted_wrt (\<lambda>a b. sint a < sint b) (map ro_seq xs)" for xs
    by (simp add: sorted_wrt_map)
  ultimately show ?thesis using assms
    by (auto simp: book_ok_def dest!: set_update_subset_insert [THEN subsetD])
qed

lemma book_ok_snoc:
  "book_ok os \<Longrightarrow> ro_id m \<notin> ro_id ` set os \<Longrightarrow> (\<And>ro. ro \<in> set os \<Longrightarrow> sint (ro_seq ro) < sint (ro_seq m)) \<Longrightarrow>
   0 < sint (ro_remaining m) \<Longrightarrow> 0 < sint (ro_price m) \<Longrightarrow> book_ok (os @ [m])"
  by (auto simp: book_ok_def sorted_wrt_append)

lemma set_queue: "set (queue want taker os) = {ro \<in> set os. eligible want taker ro}"
  by (simp add: queue_def)

lemma inj_on_prio: "distinct (map ro_seq os) \<Longrightarrow> inj_on (prio want) (set os)"
  by (auto simp: inj_on_def prio_def i64_eq_iff [symmetric] distinct_map)

lemma queue_head:
  assumes "distinct (map ro_seq os)" and "j < length os" and "eligible want taker (os ! j)"
    and "\<And>ro. ro \<in> set os \<Longrightarrow> eligible want taker ro \<Longrightarrow> prio want (os ! j) \<le> prio want ro"
  shows "queue want taker os = os ! j # queue want taker (without j os)"
proof -
  have "os ! j # queue want taker (without j os) = sort_key (prio want) (filter (eligible want taker) os)"
  proof (rule sorted_key_unique)
    show "sorted (map (prio want) (os ! j # queue want taker (without j os)))"
      using assms(4) set_without [of j os] by (auto simp: queue_def)
    show "mset (os ! j # queue want taker (without j os)) = mset (filter (eligible want taker) os)"
      using assms(2,3) by (simp add: queue_def mset_filter mset_without [of j os])
    show "inj_on (prio want) (set (filter (eligible want taker) os))"
      using inj_on_prio [OF assms(1)] by (rule inj_on_subset) auto
  qed
  then show ?thesis by (simp add: queue_def)
qed

lemma bestOpposite_queue:
  assumes "bestOpposite os side taker = Some (j, m)" and "distinct (map ro_seq os)"
  shows "queue (wanted side) taker os = m # queue (wanted side) taker (without j os)"
  using bestOpposite_Some [OF assms(1)] queue_head [OF assms(2)] by blast

lemma bestOpposite_queue_None:
  "bestOpposite os side taker = None \<longleftrightarrow> queue (wanted side) taker os = []"
  by (auto simp: bestOpposite_None set_queue simp flip: set_empty)

section \<open>The reference: greedy allocation along the queue\<close>

text \<open>
  What an incoming order should get: walk the queue, take from each order as much as is left to
  fill, stop when nothing is left. \<open>deplete\<close> is what that leaves of the book.
\<close>

definition fill_size :: "i64 \<Rightarrow> restingOrder \<Rightarrow> i64" where
  "fill_size remaining maker = (if ro_remaining maker <s remaining then ro_remaining maker else remaining)"

fun allocate :: "i64 \<Rightarrow> restingOrder list \<Rightarrow> (restingOrder \<times> i64) list" where
  "allocate remaining [] = []"
| "allocate remaining (m # ms) =
     (if 0 <s remaining
      then (m, fill_size remaining m) # allocate (remaining - fill_size remaining m) ms
      else [])"

definition deplete :: "(restingOrder \<times> i64) list \<Rightarrow> restingOrder list \<Rightarrow> restingOrder list" where
  "deplete fs os =
     filter (\<lambda>ro. ro_remaining ro \<noteq> 0)
       (map (\<lambda>ro. case map_of (map (\<lambda>(m, f). (ro_id m, f)) fs) (ro_id ro) of
               None \<Rightarrow> ro
             | Some f \<Rightarrow> ro\<lparr>ro_remaining := ro_remaining ro - f\<rparr>) os)"

lemma fill_size_pos:
  "0 < sint remaining \<Longrightarrow> 0 < sint (ro_remaining m) \<Longrightarrow> 0 < sint (fill_size remaining m)"
  by (simp add: fill_size_def)

lemma fill_size_le:
  "sint (fill_size remaining m) \<le> sint remaining"
  "sint (fill_size remaining m) \<le> sint (ro_remaining m)"
  by (auto simp: fill_size_def go_signed)

lemma fill_size_cases:
  "fill_size remaining m = remaining \<or> fill_size remaining m = ro_remaining m"
  by (simp add: fill_size_def)

lemma allocate_stop: "\<not> 0 <s remaining \<Longrightarrow> allocate remaining ms = []"
  by (cases ms) auto

lemma set_allocate: "(m, f) \<in> set (allocate remaining ms) \<Longrightarrow> m \<in> set ms"
  by (induction remaining ms rule: allocate.induct) (auto split: if_splits)

text \<open>
  The quantities of an allocation: each is positive and no larger than the order it is taken
  from, and together they are the smaller of what was asked and what the queue holds. The
  equations hold over the integers: nothing wraps.
\<close>

lemma allocate_fill_bounds:
  "\<forall>m\<in>set ms. 0 < sint (ro_remaining m) \<Longrightarrow> (m, f) \<in> set (allocate remaining ms) \<Longrightarrow>
   0 < sint f \<and> sint f \<le> sint (ro_remaining m)"
proof (induction remaining ms rule: allocate.induct)
  case (1 remaining)
  then show ?case by simp
next
  case (2 remaining m' ms)
  then show ?case
    using fill_size_pos [of remaining m'] fill_size_le [of remaining m']
    by (auto simp: go_signed split: if_splits)
qed

lemma allocate_total:
  "\<forall>m\<in>set ms. 0 < sint (ro_remaining m) \<Longrightarrow> 0 \<le> sint remaining \<Longrightarrow>
   (\<Sum>(m, f)\<leftarrow>allocate remaining ms. sint f) =
     min (sint remaining) (\<Sum>m\<leftarrow>ms. sint (ro_remaining m))"
proof (induction remaining ms rule: allocate.induct)
  case (1 remaining)
  then show ?case by simp
next
  case (2 remaining m ms)
  have rest: "0 \<le> (\<Sum>m\<leftarrow>ms. sint (ro_remaining m))"
    using 2(2) by (intro sum_list_nonneg) (auto intro: less_imp_le)
  show ?case
  proof (cases "0 <s remaining")
    case True
    have sub: "sint (remaining - fill_size remaining m) = sint remaining - sint (fill_size remaining m)"
      using True 2(2) fill_size_pos [of remaining m] fill_size_le [of remaining m]
      by (intro sint_take_away) (auto simp: go_signed)
    then have "(\<Sum>(m, f)\<leftarrow>allocate (remaining - fill_size remaining m) ms. sint f) =
        min (sint remaining - sint (fill_size remaining m)) (\<Sum>m\<leftarrow>ms. sint (ro_remaining m))"
      using 2(1) [OF True] 2(2) fill_size_le(1) [of remaining m] by simp
    then show ?thesis
      using True rest by (auto simp: fill_size_def go_signed)
  next
    case False
    then have "sint remaining = 0" using 2(3) by (simp add: go_signed)
    then show ?thesis using False rest 2(2) by simp
  qed
qed

lemma allocate_remaining:
  "\<forall>m\<in>set ms. 0 < sint (ro_remaining m) \<Longrightarrow> 0 \<le> sint remaining \<Longrightarrow>
   sint (remaining - (\<Sum>(m, f)\<leftarrow>allocate remaining ms. f)) =
     sint remaining - (\<Sum>(m, f)\<leftarrow>allocate remaining ms. sint f)"
proof (induction remaining ms rule: allocate.induct)
  case (1 remaining)
  then show ?case by simp
next
  case (2 remaining m ms)
  show ?case
  proof (cases "0 <s remaining")
    case True
    have sub: "sint (remaining - fill_size remaining m) = sint remaining - sint (fill_size remaining m)"
      using True 2(2) fill_size_pos [of remaining m] fill_size_le [of remaining m]
      by (intro sint_take_away) (auto simp: go_signed)
    then show ?thesis
      using True 2(1) [OF True] 2(2) fill_size_le(1) [of remaining m]
      by (simp add: diff_diff_eq)
  qed simp
qed

end
