(* ===== verification/LocalEngine.thy ===== *)
theory LocalEngine
  imports OrderBook Ledger
begin

text \<open>
  The in-process matching engine, \<open>LocalEngine\<close> of \<open>gateway/internal/engine/local.go\<close>: its
  state and its operations. Every operation runs under the engine's mutex, so an operation is
  a function from state to state. The wall clock (\<open>now\<close>), the context's error (\<open>ctxErr\<close>) and
  the orders in which the runtime ranges over maps are arguments.
\<close>

section \<open>State\<close>

record LocalEngine =
  le_books :: "string \<rightharpoonup> orderBook"
  le_accounts :: accounts
  le_lastPrice :: "string \<rightharpoonup> i64"
  le_orderID :: i64
  le_tradeID :: i64
  le_seq :: i64

definition empty_engine :: LocalEngine where
  "empty_engine = \<lparr>le_books = Map.empty, le_accounts = Map.empty, le_lastPrice = Map.empty,
     le_orderID = 0, le_tradeID = 0, le_seq = 0\<rparr>"

text \<open>The atomic counters: \<open>Add(1)\<close> returns the new value and wraps.\<close>

definition nextOrderID :: "LocalEngine \<Rightarrow> string \<times> LocalEngine" where
  "nextOrderID e = (''ord-'' @ fmt_d (le_orderID e + 1), e\<lparr>le_orderID := le_orderID e + 1\<rparr>)"

definition nextTradeID :: "LocalEngine \<Rightarrow> string \<times> LocalEngine" where
  "nextTradeID e = (''trd-'' @ fmt_d (le_tradeID e + 1), e\<lparr>le_tradeID := le_tradeID e + 1\<rparr>)"

definition nextSeq :: "LocalEngine \<Rightarrow> i64 \<times> LocalEngine" where
  "nextSeq e = (le_seq e + 1, e\<lparr>le_seq := le_seq e + 1\<rparr>)"

text \<open>\<open>book\<close>: the book of a symbol, created on first use.\<close>

definition book :: "LocalEngine \<Rightarrow> string \<Rightarrow> orderBook \<times> LocalEngine" where
  "book e symbol =
     (case le_books e symbol of
        Some b \<Rightarrow> (b, e)
      | None \<Rightarrow>
          let b = \<lparr>ob_symbol = symbol, ob_orders = []\<rparr>
          in (b, e\<lparr>le_books := (le_books e)(symbol \<mapsto> b)\<rparr>))"

text \<open>Reading and writing the slice behind the book pointer of a symbol.\<close>

definition orders_of :: "LocalEngine \<Rightarrow> string \<Rightarrow> restingOrder list" where
  "orders_of e symbol = (case le_books e symbol of None \<Rightarrow> [] | Some b \<Rightarrow> ob_orders b)"

definition set_orders :: "LocalEngine \<Rightarrow> string \<Rightarrow> restingOrder list \<Rightarrow> LocalEngine" where
  "set_orders e symbol os =
     e\<lparr>le_books := (le_books e)(symbol \<mapsto> (fst (book e symbol))\<lparr>ob_orders := os\<rparr>)\<rparr>"

section \<open>Seeding\<close>

text \<open>\<open>seedBook\<close>: ten market-maker orders around 10000, a bid and an ask per distance.\<close>

definition seedPair :: "string \<Rightarrow> LocalEngine \<Rightarrow> nat \<Rightarrow> LocalEngine" where
  "seedPair symbol e i =
     (let (bidID, e1) = nextOrderID e;
          (bidSeq, e2) = nextSeq e1;
          (askID, e3) = nextOrderID e2;
          (askSeq, e4) = nextSeq e3
      in set_orders e4 symbol (orders_of e4 symbol @
           [\<lparr>ro_id = bidID, ro_accountID = ''market-maker'', ro_side = SideBuy,
             ro_price = 10000 - of_nat i, ro_remaining = of_nat (i * 10), ro_seq = bidSeq\<rparr>,
            \<lparr>ro_id = askID, ro_accountID = ''market-maker'', ro_side = SideSell,
             ro_price = 10000 + of_nat i, ro_remaining = of_nat (i * 10), ro_seq = askSeq\<rparr>]))"

definition seedBook :: "LocalEngine \<Rightarrow> string \<Rightarrow> LocalEngine" where
  "seedBook e symbol = foldl (seedPair symbol) (snd (book e symbol)) [1, 2, 3, 4, 5]"

definition NewLocalEngine :: "string list \<Rightarrow> LocalEngine" where
  "NewLocalEngine seedSymbols = foldl seedBook empty_engine seedSymbols"

section \<open>Submitting an order\<close>

text \<open>
  One execution of the matching loop: \<open>fill\<close> units of the incoming order \<open>o'\<close> (its id is
  \<open>oid\<close>) trade with the resting order at place \<open>j\<close>.
\<close>

definition matchFill ::
  "string \<Rightarrow> NewOrder \<Rightarrow> i64 \<Rightarrow> nat \<Rightarrow> restingOrder \<Rightarrow> i64 \<Rightarrow> LocalEngine \<Rightarrow> Trade \<times> LocalEngine" where
  "matchFill oid o' now j maker fill e =
     (let symbol = no_Symbol o';
          maker' = maker\<lparr>ro_remaining := ro_remaining maker - fill\<rparr>;
          os = (orders_of e symbol)[j := maker'];
          (buyID, sellID) = (if no_Side o' = SideSell then (ro_id maker, oid) else (oid, ro_id maker));
          (tradeID, e1) = nextTradeID e;
          t = \<lparr>tr_TradeID = tradeID, tr_Symbol = symbol, tr_PriceTicks = ro_price maker,
               tr_Quantity = fill, tr_BuyOrderID = buyID, tr_SellOrderID = sellID,
               tr_TsMillis = now\<rparr>;
          accounts1 = applyFill (le_accounts e1) (no_AccountID o') symbol (no_Side o') (ro_price maker) fill;
          accounts2 = applyFill accounts1 (ro_accountID maker) symbol (opposite (no_Side o')) (ro_price maker) fill;
          e2 = e1\<lparr>le_accounts := accounts2,
                   le_lastPrice := (le_lastPrice e1)(symbol \<mapsto> ro_price maker)\<rparr>
      in (t, set_orders e2 symbol
               (if ro_remaining maker' = 0 then remove_order os (ro_id maker) else os)))"

text \<open>
  The loop of \<open>SubmitOrder\<close>. It stops because every execution either fills the incoming order
  or takes the maker out of the slice.
\<close>

lemma orders_of_set_orders [simp]:
  "orders_of (set_orders e symbol os) s = (if s = symbol then os else orders_of e s)"
  by (auto simp: orders_of_def set_orders_def)

lemma matchFill_orders:
  "orders_of (snd (matchFill oid o' now j maker fill e)) s =
     (if s = no_Symbol o' then
        (if ro_remaining maker - fill = 0
         then remove_order ((orders_of e s)[j := maker\<lparr>ro_remaining := ro_remaining maker - fill\<rparr>]) (ro_id maker)
         else (orders_of e s)[j := maker\<lparr>ro_remaining := ro_remaining maker - fill\<rparr>])
      else orders_of e s)"
proof -
  have frame: "orders_of (e'\<lparr>le_accounts := a, le_lastPrice := l\<rparr>) s = orders_of e' s" for e' a l
    by (simp add: orders_of_def)
  have counter: "orders_of (snd (nextTradeID e)) s = orders_of e s"
    by (simp add: orders_of_def nextTradeID_def)
  show ?thesis
    using counter by (auto simp: matchFill_def Let_def frame nextTradeID_def split: prod.splits)
qed

function matchLoop ::
  "string \<Rightarrow> NewOrder \<Rightarrow> i64 \<Rightarrow> i64 \<Rightarrow> Trade list \<Rightarrow> LocalEngine \<Rightarrow> i64 \<times> Trade list \<times> LocalEngine" where
  "matchLoop oid o' now remaining trades e =
     (if 0 <s remaining then
        (case bestOpposite (orders_of e (no_Symbol o')) (no_Side o') (no_AccountID o') of
           None \<Rightarrow> (remaining, trades, e)
         | Some (j, maker) \<Rightarrow>
             if \<not> crosses o' (ro_price maker) then (remaining, trades, e)
             else
               let fill = (if ro_remaining maker <s remaining then ro_remaining maker else remaining);
                   (t, e') = matchFill oid o' now j maker fill e
               in matchLoop oid o' now (remaining - fill) (trades @ [t]) e')
      else (remaining, trades, e))"
  by pat_completeness auto
termination
proof (relation "measure (\<lambda>(oid, o', now, remaining, trades, e).
    if 0 <s remaining then Suc (length (orders_of e (no_Symbol o'))) else 0)", goal_cases)
  case 1
  show ?case by simp
next
  case (2 oid o' now remaining trades e jm j maker fill te t e')
  let ?os = "orders_of e (no_Symbol o')"
  have "bestOpposite ?os (no_Side o') (no_AccountID o') = Some (j, maker)" using 2(2,3) by simp
  note best = bestOpposite_Some [OF this]
  have e': "e' = snd (matchFill oid o' now j maker fill e)"
    using 2(6,7) by (metis snd_conv)
  show ?case
  proof (cases "fill = ro_remaining maker")
    case True
    let ?os' = "?os[j := maker\<lparr>ro_remaining := ro_remaining maker - fill\<rparr>]"
    have "ro_id maker \<in> ro_id ` set ?os'"
      using best(1) by (auto intro: image_eqI [OF _ set_update_memI [OF best(1)]])
    then have "Suc (length (remove_order ?os' (ro_id maker))) = length ?os"
      using length_remove_order by (metis length_list_update)
    then have "Suc (length (orders_of e' (no_Symbol o'))) = length ?os"
      using True by (simp add: e' matchFill_orders)
    then show ?thesis using 2(1) by simp
  next
    case False
    then have "fill = remaining" using 2(5) by (simp split: if_splits)
    then show ?thesis using 2(1) by simp
  qed
qed

declare matchLoop.simps [simp del]

text \<open>The part of \<open>SubmitOrder\<close> under the mutex.\<close>

definition submitLocked ::
  "string \<Rightarrow> NewOrder \<Rightarrow> i64 \<Rightarrow> LocalEngine \<Rightarrow> OrderAck \<times> LocalEngine" where
  "submitLocked oid o' now e =
     (let (b, e0) = book e (no_Symbol o');
          (remaining, trades, e1) = matchLoop oid o' now (no_Quantity o') [] e0;
          filled = no_Quantity o' - remaining;
          e2 = (if 0 <s remaining \<and> no_Type o' = OrderTypeLimit then
                  let (n, e1') = nextSeq e1
                  in set_orders e1' (no_Symbol o') (orders_of e1' (no_Symbol o') @
                       [\<lparr>ro_id = oid, ro_accountID = no_AccountID o', ro_side = no_Side o',
                         ro_price = no_PriceTicks o', ro_remaining = remaining, ro_seq = n\<rparr>])
                else e1)
      in (\<lparr>ack_OrderID = oid,
           ack_Status = statusFor (no_Type o') (no_Quantity o') filled remaining,
           ack_FilledQuantity = filled,
           ack_Reason = reasonFor (no_Type o') filled,
           ack_Trades = trades\<rparr>, e2))"

definition SubmitOrder ::
  "LocalEngine \<Rightarrow> string option \<Rightarrow> NewOrder \<Rightarrow> i64 \<Rightarrow> (error + OrderAck) \<times> LocalEngine" where
  "SubmitOrder e ctxErr o' now =
     (case ctxErr of
        Some err \<Rightarrow> (Inl err, e)
      | None \<Rightarrow>
          let (oid, e1) = nextOrderID e
          in if no_Quantity o' \<le>s 0 then
               (Inr (ack_zero\<lparr>ack_OrderID := oid, ack_Status := StatusRejected,
                       ack_Reason := ''quantity must be positive''\<rparr>), e1)
             else if no_Type o' = OrderTypeLimit \<and> no_PriceTicks o' \<le>s 0 then
               (Inr (ack_zero\<lparr>ack_OrderID := oid, ack_Status := StatusRejected,
                       ack_Reason := ''limit order requires positive priceTicks''\<rparr>), e1)
             else
               let (ack, e2) = submitLocked oid o' now e1 in (Inr ack, e2))"

section \<open>Cancelling an order\<close>

text \<open>
  \<open>CancelOrder\<close> ranges over the books map; \<open>syms\<close> is the order in which this run visits the
  symbols. It stops at the first resting order with the id.
\<close>

fun cancelScan :: "CancelOrder \<Rightarrow> LocalEngine \<Rightarrow> string list \<Rightarrow> OrderAck \<times> LocalEngine" where
  "cancelScan c e [] =
     (ack_zero\<lparr>ack_OrderID := co_OrderID c, ack_Status := StatusRejected,
        ack_Reason := ''order not found''\<rparr>, e)"
| "cancelScan c e (s # ss) =
     (case find (\<lambda>ro. ro_id ro = co_OrderID c) (orders_of e s) of
        None \<Rightarrow> cancelScan c e ss
      | Some ro \<Rightarrow>
          if co_AccountID c \<noteq> '''' \<and> ro_accountID ro \<noteq> co_AccountID c then
            (ack_zero\<lparr>ack_OrderID := co_OrderID c, ack_Status := StatusRejected,
               ack_Reason := ''not your order''\<rparr>, e)
          else
            (ack_zero\<lparr>ack_OrderID := co_OrderID c, ack_Status := StatusCancelled\<rparr>,
             set_orders e s (remove_order (orders_of e s) (co_OrderID c))))"

definition CancelOrder ::
  "LocalEngine \<Rightarrow> string option \<Rightarrow> CancelOrder \<Rightarrow> string list \<Rightarrow> (error + OrderAck) \<times> LocalEngine" where
  "CancelOrder e ctxErr c syms =
     (case ctxErr of
        Some err \<Rightarrow> (Inl err, e)
      | None \<Rightarrow>
          if co_OrderID c = '''' then
            (Inr (ack_zero\<lparr>ack_Status := StatusRejected, ack_Reason := ''order_id required''\<rparr>), e)
          else let (ack, e') = cancelScan c e syms in (Inr ack, e'))"

section \<open>The book snapshot\<close>

definition GetBook ::
  "LocalEngine \<Rightarrow> string option \<Rightarrow> BookRequest \<Rightarrow> i64 \<Rightarrow> i64 list \<Rightarrow> i64 list \<Rightarrow>
   (error + BookSnapshot) \<times> LocalEngine" where
  "GetBook e ctxErr r now bidKeys askKeys =
     (case ctxErr of
        Some err \<Rightarrow> (Inl err, e)
      | None \<Rightarrow>
          let depth = (if br_Depth r \<le>s 0 then 5 else nat (sint (br_Depth r)));
              (b, e1) = book e (br_Symbol r);
              (bidQty, askQty) = aggregate (ob_orders b) Map.empty Map.empty
          in (Inr \<lparr>bs_Symbol = br_Symbol r,
                   bs_Bids = topLevels bidQty bidKeys depth True,
                   bs_Asks = topLevels askQty askKeys depth False,
                   bs_TsMillis = now\<rparr>, e1))"

end
