(* ===== verification/Matching.thy ===== *)
theory Matching
  imports LocalEngine
begin

text \<open>
  The matching loop of \<open>SubmitOrder\<close> and what it computes. The loop is given an induction rule
  and a proof rule of its own; with them: it implements the greedy allocation along the
  price-time queue (\<open>matchLoop_refines\<close>), it never trades an account with itself, and it keeps
  the book well formed and uncrossed.
\<close>

section \<open>Frames of one execution\<close>

lemma book_frame [simp]:
  "le_accounts (snd (book e s)) = le_accounts e" "le_lastPrice (snd (book e s)) = le_lastPrice e"
  "le_orderID (snd (book e s)) = le_orderID e" "le_tradeID (snd (book e s)) = le_tradeID e"
  "le_seq (snd (book e s)) = le_seq e"
  by (simp_all add: book_def Let_def split: option.split)

lemma orders_of_book [simp]: "orders_of (snd (book e s)) t = orders_of e t"
  by (simp add: book_def orders_of_def Let_def split: option.split)

lemma ob_orders_book [simp]: "ob_orders (fst (book e s)) = orders_of e s"
  by (simp add: book_def orders_of_def Let_def split: option.split)

lemma set_orders_frame [simp]:
  "le_accounts (set_orders e s os) = le_accounts e" "le_lastPrice (set_orders e s os) = le_lastPrice e"
  "le_orderID (set_orders e s os) = le_orderID e" "le_tradeID (set_orders e s os) = le_tradeID e"
  "le_seq (set_orders e s os) = le_seq e"
  by (simp_all add: set_orders_def)

lemma orders_of_update [simp]:
  "orders_of (e\<lparr>le_accounts := a\<rparr>) s = orders_of e s" "orders_of (e\<lparr>le_lastPrice := l\<rparr>) s = orders_of e s"
  "orders_of (e\<lparr>le_orderID := i\<rparr>) s = orders_of e s" "orders_of (e\<lparr>le_tradeID := i\<rparr>) s = orders_of e s"
  "orders_of (e\<lparr>le_seq := i\<rparr>) s = orders_of e s"
  by (simp_all add: orders_of_def)

lemma matchFill_engine:
  "le_accounts (snd (matchFill oid o' now j m f e)) =
     applyFill (applyFill (le_accounts e) (no_AccountID o') (no_Symbol o') (no_Side o') (ro_price m) f)
       (ro_accountID m) (no_Symbol o') (opposite (no_Side o')) (ro_price m) f"
  "le_lastPrice (snd (matchFill oid o' now j m f e)) = (le_lastPrice e)(no_Symbol o' \<mapsto> ro_price m)"
  "le_tradeID (snd (matchFill oid o' now j m f e)) = le_tradeID e + 1"
  "le_orderID (snd (matchFill oid o' now j m f e)) = le_orderID e"
  "le_seq (snd (matchFill oid o' now j m f e)) = le_seq e"
  by (simp_all add: matchFill_def nextTradeID_def Let_def split: prod.split)

lemma matchFill_trade:
  "fst (matchFill oid o' now j m f e) =
     \<lparr>tr_TradeID = ''trd-'' @ fmt_d (le_tradeID e + 1), tr_Symbol = no_Symbol o',
      tr_PriceTicks = ro_price m, tr_Quantity = f,
      tr_BuyOrderID = (if no_Side o' = SideSell then ro_id m else oid),
      tr_SellOrderID = (if no_Side o' = SideSell then oid else ro_id m), tr_TsMillis = now\<rparr>"
  by (simp add: matchFill_def nextTradeID_def Let_def split: prod.split)

section \<open>The loop, one step at a time\<close>

definition best_of :: "NewOrder \<Rightarrow> LocalEngine \<Rightarrow> (nat \<times> restingOrder) option" where
  "best_of o' e = bestOpposite (orders_of e (no_Symbol o')) (no_Side o') (no_AccountID o')"

definition loop_done :: "NewOrder \<Rightarrow> i64 \<Rightarrow> LocalEngine \<Rightarrow> bool" where
  "loop_done o' remaining e \<longleftrightarrow> \<not> 0 <s remaining \<or>
     (case best_of o' e of None \<Rightarrow> True | Some (j, m) \<Rightarrow> \<not> crosses o' (ro_price m))"

lemma matchLoop_done:
  "loop_done o' remaining e \<Longrightarrow> matchLoop oid o' now remaining trades e = (remaining, trades, e)"
  by (subst matchLoop.simps) (auto simp: loop_done_def best_of_def split: option.splits prod.splits)

lemma matchLoop_step:
  assumes "0 <s remaining" and "best_of o' e = Some (j, m)" and "crosses o' (ro_price m)"
  shows "matchLoop oid o' now remaining trades e =
    matchLoop oid o' now (remaining - fill_size remaining m)
      (trades @ [fst (matchFill oid o' now j m (fill_size remaining m) e)])
      (snd (matchFill oid o' now j m (fill_size remaining m) e))"
  using assms by (subst matchLoop.simps)
    (simp add: best_of_def fill_size_def [symmetric] Let_def split: prod.split)

lemma matchLoop_induct [case_names finished step]:
  assumes finished: "\<And>remaining trades e. loop_done o' remaining e \<Longrightarrow> P remaining trades e"
    and step: "\<And>remaining trades e j m. 0 <s remaining \<Longrightarrow> best_of o' e = Some (j, m) \<Longrightarrow>
      crosses o' (ro_price m) \<Longrightarrow>
      P (remaining - fill_size remaining m)
        (trades @ [fst (matchFill oid o' now j m (fill_size remaining m) e)])
        (snd (matchFill oid o' now j m (fill_size remaining m) e)) \<Longrightarrow>
      P remaining trades e"
  shows "P remaining trades e"
  using assms
proof (induction oid o' now remaining trades e rule: matchLoop.induct)
  case (1 oid o' now remaining trades e)
  show ?case
  proof (cases "loop_done o' remaining e")
    case True
    then show ?thesis by (rule "1.prems"(1))
  next
    case False
    then obtain j m where go: "0 <s remaining" "best_of o' e = Some (j, m)" "crosses o' (ro_price m)"
      by (auto simp: loop_done_def split: option.splits)
    show ?thesis
    proof (rule "1.prems"(2) [OF go])
      show "P (remaining - fill_size remaining m)
          (trades @ [fst (matchFill oid o' now j m (fill_size remaining m) e)])
          (snd (matchFill oid o' now j m (fill_size remaining m) e))"
        unfolding fill_size_def
        by (rule "1.IH" [OF go(1) go(2) [unfolded best_of_def] refl _ refl refl prod.collapse])
          (use go(3) "1.prems" in \<open>simp_all\<close>)
    qed
  qed
qed

text \<open>
  The proof rule of the loop: what holds at the start and is kept by one execution holds at the
  end, where moreover nothing is left to do.
\<close>

lemma matchLoop_rule:
  assumes start: "P remaining trades e"
    and step: "\<And>remaining trades e j m. P remaining trades e \<Longrightarrow> 0 <s remaining \<Longrightarrow>
      best_of o' e = Some (j, m) \<Longrightarrow> crosses o' (ro_price m) \<Longrightarrow>
      P (remaining - fill_size remaining m)
        (trades @ [fst (matchFill oid o' now j m (fill_size remaining m) e)])
        (snd (matchFill oid o' now j m (fill_size remaining m) e))"
    and result: "matchLoop oid o' now remaining trades e = (remaining', trades', e')"
  shows "P remaining' trades' e' \<and> loop_done o' remaining' e'"
  using start result
proof (induction remaining trades e rule: matchLoop_induct [where oid = oid and o' = o' and now = now])
  case (finished remaining trades e)
  then show ?case by (simp add: matchLoop_done)
next
  case (step remaining trades e j m)
  then show ?case using assms(2) by (simp add: matchLoop_step)
qed

section \<open>What one execution does to the book\<close>

definition consume :: "restingOrder list \<Rightarrow> nat \<Rightarrow> restingOrder \<Rightarrow> i64 \<Rightarrow> restingOrder list" where
  "consume os j m f =
     (if ro_remaining m - f = 0 then without j os
      else os[j := m\<lparr>ro_remaining := ro_remaining m - f\<rparr>])"

text \<open>Everything of a resting order but the quantity it has left.\<close>

definition ro_core :: "restingOrder \<Rightarrow> restingOrder" where
  "ro_core ro = ro\<lparr>ro_remaining := 0\<rparr>"

lemma ro_core_eq:
  "ro_core a = ro_core b \<Longrightarrow> ro_id a = ro_id b \<and> ro_accountID a = ro_accountID b \<and>
     ro_side a = ro_side b \<and> ro_price a = ro_price b \<and> ro_seq a = ro_seq b"
  by (cases a; cases b) (simp add: ro_core_def)

lemma best_of_facts:
  assumes "best_of o' e = Some (j, m)"
  shows "j < length (orders_of e (no_Symbol o'))" and "orders_of e (no_Symbol o') ! j = m"
    and "m \<in> set (orders_of e (no_Symbol o'))" and "eligible (wanted (no_Side o')) (no_AccountID o') m"
    and "\<And>ro. ro \<in> set (orders_of e (no_Symbol o')) \<Longrightarrow> eligible (wanted (no_Side o')) (no_AccountID o') ro \<Longrightarrow>
      prio (wanted (no_Side o')) m \<le> prio (wanted (no_Side o')) ro"
  using bestOpposite_Some [OF assms [unfolded best_of_def]] by blast+

lemma orders_matchFill:
  assumes "best_of o' e = Some (j, m)" and "book_ok (orders_of e (no_Symbol o'))"
  shows "orders_of (snd (matchFill oid o' now j m f e)) s =
    (if s = no_Symbol o' then consume (orders_of e s) j m f else orders_of e s)"
proof -
  let ?os = "orders_of e (no_Symbol o')"
  have "remove_order (?os[j := m\<lparr>ro_remaining := ro_remaining m - f\<rparr>]) (ro_id (?os ! j)) = without j ?os"
    by (rule remove_order_at [OF book_ok_ids [OF assms(2)] best_of_facts(1) [OF assms(1)]])
      (simp add: best_of_facts(2) [OF assms(1)])
  then show ?thesis
    using best_of_facts(2) [OF assms(1)]
    by (cases "f = ro_remaining m") (auto simp: matchFill_orders consume_def)
qed

lemma fill_leaves:
  assumes "0 < sint remaining" and "0 < sint (ro_remaining m)"
  shows "sint (ro_remaining m - fill_size remaining m) = sint (ro_remaining m) - sint (fill_size remaining m)"
    and "sint (remaining - fill_size remaining m) = sint remaining - sint (fill_size remaining m)"
    and "0 \<le> sint (ro_remaining m - fill_size remaining m)" and "0 \<le> sint (remaining - fill_size remaining m)"
    and "sint (remaining - fill_size remaining m) < sint remaining"
proof -
  note b = fill_size_pos [OF assms] fill_size_le [of remaining m]
  show "sint (ro_remaining m - fill_size remaining m) = sint (ro_remaining m) - sint (fill_size remaining m)"
    and "sint (remaining - fill_size remaining m) = sint remaining - sint (fill_size remaining m)"
    using b by (auto intro: sint_take_away)
  then show "0 \<le> sint (ro_remaining m - fill_size remaining m)" "0 \<le> sint (remaining - fill_size remaining m)"
    "sint (remaining - fill_size remaining m) < sint remaining"
    using b by auto
qed

lemma book_ok_consume:
  assumes ok: "book_ok os" and at: "j < length os" "os ! j = m" and r: "0 < sint remaining"
  shows "book_ok (consume os j m (fill_size remaining m))"
proof (cases "ro_remaining m - fill_size remaining m = 0")
  case True
  then show ?thesis using ok by (simp add: consume_def book_ok_without)
next
  case False
  have m: "m \<in> set os" using at by auto
  note pos = book_ok_pos [OF ok m]
  have "sint (ro_remaining m - fill_size remaining m) \<noteq> 0" using False by (simp add: sint_zero_iff)
  then have "0 < sint (ro_remaining m - fill_size remaining m)"
    using fill_leaves(3) [OF r pos(1)] by linarith
  then show ?thesis using False ok at pos(2)
    by (auto simp: consume_def intro!: book_ok_update)
qed

lemma core_consume:
  assumes "j < length os" and "os ! j = m"
  shows "ro_core ` set (consume os j m f) \<subseteq> ro_core ` set os"
proof (cases "ro_remaining m - f = 0")
  case True
  then show ?thesis using set_without [of j os] by (auto simp: consume_def)
next
  case False
  have "m \<in> set os" using assms by auto
  moreover have "ro_core (m\<lparr>ro_remaining := r\<rparr>) = ro_core m" for r by (simp add: ro_core_def)
  ultimately show ?thesis using False set_update_subset_insert [of os j]
    by (fastforce simp: consume_def)
qed

section \<open>Refinement: the loop is greedy allocation in price-time priority\<close>

text \<open>The counterparties the incoming order reaches, in the order it reaches them.\<close>

definition reachable_queue :: "NewOrder \<Rightarrow> restingOrder list \<Rightarrow> restingOrder list" where
  "reachable_queue o' os =
     takeWhile (\<lambda>m. crosses o' (ro_price m)) (queue (wanted (no_Side o')) (no_AccountID o') os)"

text \<open>The trades an allocation prints, and the fills it books in the ledger.\<close>

fun trades_of :: "string \<Rightarrow> NewOrder \<Rightarrow> i64 \<Rightarrow> i64 \<Rightarrow> (restingOrder \<times> i64) list \<Rightarrow> Trade list" where
  "trades_of oid o' now tid [] = []"
| "trades_of oid o' now tid ((m, f) # fs) =
     \<lparr>tr_TradeID = ''trd-'' @ fmt_d (tid + 1), tr_Symbol = no_Symbol o',
      tr_PriceTicks = ro_price m, tr_Quantity = f,
      tr_BuyOrderID = (if no_Side o' = SideSell then ro_id m else oid),
      tr_SellOrderID = (if no_Side o' = SideSell then oid else ro_id m), tr_TsMillis = now\<rparr> #
     trades_of oid o' now (tid + 1) fs"

fun book_fills :: "NewOrder \<Rightarrow> (restingOrder \<times> i64) list \<Rightarrow> accounts \<Rightarrow> accounts" where
  "book_fills o' [] acc = acc"
| "book_fills o' ((m, f) # fs) acc =
     book_fills o' fs
       (applyFill (applyFill acc (no_AccountID o') (no_Symbol o') (no_Side o') (ro_price m) f)
         (ro_accountID m) (no_Symbol o') (opposite (no_Side o')) (ro_price m) f)"

lemma deplete_Nil [simp]: "book_ok os \<Longrightarrow> deplete [] os = os"
  by (force simp: deplete_def filter_id_conv dest: book_ok_pos(1))

lemma deplete_append: "deplete fs (os @ os') = deplete fs os @ deplete fs os'"
  by (simp add: deplete_def)

lemma deplete_skip:
  "ro_id m \<notin> ro_id ` set os \<Longrightarrow> deplete ((m, f) # fs) os = deplete fs os"
  unfolding deplete_def by (intro arg_cong [where f = "filter _"] map_cong) (auto simp: image_iff)

lemma deplete_consume:
  assumes ok: "book_ok os" and at: "j < length os" "os ! j = m"
    and fresh: "ro_id m \<notin> (\<lambda>(n, _). ro_id n) ` set fs"
  shows "deplete ((m, f) # fs) os = deplete fs (consume os j m f)"
proof -
  have os: "os = take j os @ m # drop (Suc j) os" using at id_take_nth_drop by metis
  have "distinct (map ro_id (take j os @ m # drop (Suc j) os))" using ok os by (simp add: book_ok_ids)
  then have out: "ro_id m \<notin> ro_id ` set (take j os)" "ro_id m \<notin> ro_id ` set (drop (Suc j) os)"
    by auto
  have none: "map_of (map (\<lambda>(m, f). (ro_id m, f)) fs) (ro_id m) = None"
    using fresh by (force simp: map_of_eq_None_iff)
  have one: "deplete ((m, f) # fs) [m] =
      (if ro_remaining m - f = 0 then [] else [m\<lparr>ro_remaining := ro_remaining m - f\<rparr>])"
    by (simp add: deplete_def)
  have one': "ro_remaining m - f \<noteq> 0 \<Longrightarrow>
      deplete fs [m\<lparr>ro_remaining := ro_remaining m - f\<rparr>] = [m\<lparr>ro_remaining := ro_remaining m - f\<rparr>]"
    using none by (simp add: deplete_def)
  have "deplete ((m, f) # fs) os =
      deplete ((m, f) # fs) (take j os) @ deplete ((m, f) # fs) [m] @ deplete ((m, f) # fs) (drop (Suc j) os)"
    by (subst os) (metis append_Cons append_Nil deplete_append)
  also have "\<dots> = deplete fs (take j os) @ deplete ((m, f) # fs) [m] @ deplete fs (drop (Suc j) os)"
    by (simp only: deplete_skip [OF out(1)] deplete_skip [OF out(2)])
  also have "\<dots> = deplete fs (consume os j m f)"
    using one one' at
    by (simp add: consume_def without_def upd_conv_take_nth_drop deplete_append)
      (metis append_Cons append_Nil deplete_append)
  finally show ?thesis .
qed

lemma exhausted_or_filled:
  "ro_remaining m - fill_size remaining m \<noteq> 0 \<Longrightarrow> remaining - fill_size remaining m = 0"
  using fill_size_cases [of remaining m] by auto

lemma allocate_step:
  assumes best: "best_of o' e = Some (j, m)" and cross: "crosses o' (ro_price m)"
    and ok: "book_ok (orders_of e (no_Symbol o'))" and go: "0 <s remaining"
  defines "os \<equiv> orders_of e (no_Symbol o')" and "f \<equiv> fill_size remaining m"
  shows "allocate remaining (reachable_queue o' os) =
      (m, f) # allocate (remaining - f) (reachable_queue o' (consume os j m f))"
    and "ro_id m \<notin> (\<lambda>(n, _). ro_id n) ` set (allocate (remaining - f) (reachable_queue o' (consume os j m f)))"
proof -
  note at = best_of_facts [OF best, folded os_def]
  have q: "queue (wanted (no_Side o')) (no_AccountID o') os = m # queue (wanted (no_Side o')) (no_AccountID o') (without j os)"
    using bestOpposite_queue [OF best [unfolded best_of_def]] book_ok_seqs [OF ok] by (simp add: os_def)
  then have rq: "reachable_queue o' os = m # reachable_queue o' (without j os)"
    using cross by (simp add: reachable_queue_def)
  show "allocate remaining (reachable_queue o' os) =
      (m, f) # allocate (remaining - f) (reachable_queue o' (consume os j m f))"
    using go exhausted_or_filled [of m remaining]
    by (auto simp: rq f_def consume_def allocate_stop go_signed)
  show "ro_id m \<notin> (\<lambda>(n, _). ro_id n) ` set (allocate (remaining - f) (reachable_queue o' (consume os j m f)))"
  proof (cases "ro_remaining m - f = 0")
    case True
    have "distinct (map ro_id os)" using ok by (simp add: os_def book_ok_ids)
    moreover have "os = take j os @ m # drop (Suc j) os" using at(1,2) id_take_nth_drop by metis
    ultimately have "distinct (map ro_id (take j os @ m # drop (Suc j) os))" by simp
    then have "ro_id m \<notin> ro_id ` set (without j os)" by (auto simp: without_def)
    moreover have "n \<in> set (without j os)" if "(n, f') \<in> set (allocate (remaining - f) (reachable_queue o' (without j os)))" for n f'
      using set_allocate [OF that] by (auto simp: reachable_queue_def set_queue dest: set_takeWhileD)
    ultimately show ?thesis using True by (fastforce simp: consume_def)
  next
    case False
    then have "remaining - f = 0" using exhausted_or_filled f_def by blast
    then show ?thesis by (simp add: allocate_stop go_signed)
  qed
qed

lemma allocate_loop_done:
  assumes "loop_done o' remaining e" and ok: "book_ok (orders_of e (no_Symbol o'))"
  shows "allocate remaining (reachable_queue o' (orders_of e (no_Symbol o'))) = []"
proof (cases "best_of o' e")
  case None
  then show ?thesis by (simp add: best_of_def bestOpposite_queue_None reachable_queue_def)
next
  case (Some jm)
  obtain j m where jm: "jm = (j, m)" by force
  then have "queue (wanted (no_Side o')) (no_AccountID o') (orders_of e (no_Symbol o')) =
      m # queue (wanted (no_Side o')) (no_AccountID o') (without j (orders_of e (no_Symbol o')))"
    using bestOpposite_queue [OF Some [unfolded jm best_of_def] book_ok_seqs [OF ok]] by simp
  then show ?thesis using assms(1) Some jm
    by (auto simp: loop_done_def reachable_queue_def allocate_stop)
qed

lemma book_ok_matchFill:
  assumes "best_of o' e = Some (j, m)" and "book_ok (orders_of e (no_Symbol o'))" and "0 <s remaining"
  shows "book_ok (orders_of (snd (matchFill oid o' now j m (fill_size remaining m) e)) (no_Symbol o'))"
  using assms best_of_facts(1,2) [OF assms(1)]
  by (simp add: orders_matchFill book_ok_consume go_signed)

text \<open>
  The refinement. From a well-formed book the loop computes exactly the greedy allocation: the
  quantity left, the trades, the book, the ledger and the mark price all are what the
  allocation along the price-time queue says, and nothing else of the engine changes.
\<close>

definition allocation :: "NewOrder \<Rightarrow> i64 \<Rightarrow> LocalEngine \<Rightarrow> (restingOrder \<times> i64) list" where
  "allocation o' remaining e = allocate remaining (reachable_queue o' (orders_of e (no_Symbol o')))"

definition last_mark :: "NewOrder \<Rightarrow> (restingOrder \<times> i64) list \<Rightarrow> (string \<rightharpoonup> i64) \<Rightarrow> (string \<rightharpoonup> i64)" where
  "last_mark o' fs lp = (if fs = [] then lp else lp(no_Symbol o' \<mapsto> ro_price (fst (last fs))))"

definition carries_out ::
  "string \<Rightarrow> NewOrder \<Rightarrow> i64 \<Rightarrow> (restingOrder \<times> i64) list \<Rightarrow>
   i64 \<times> Trade list \<times> LocalEngine \<Rightarrow> i64 \<times> Trade list \<times> LocalEngine \<Rightarrow> bool" where
  "carries_out oid o' now fs = (\<lambda>(remaining, trades, e) (remaining', trades', e').
     remaining' = remaining - (\<Sum>(m, f)\<leftarrow>fs. f) \<and>
     trades' = trades @ trades_of oid o' now (le_tradeID e) fs \<and>
     orders_of e' (no_Symbol o') = deplete fs (orders_of e (no_Symbol o')) \<and>
     (\<forall>s. s \<noteq> no_Symbol o' \<longrightarrow> orders_of e' s = orders_of e s) \<and>
     le_accounts e' = book_fills o' fs (le_accounts e) \<and>
     le_lastPrice e' = last_mark o' fs (le_lastPrice e) \<and>
     le_tradeID e' = le_tradeID e + of_nat (length fs) \<and>
     le_orderID e' = le_orderID e \<and> le_seq e' = le_seq e)"

lemma carries_out_Nil:
  "book_ok (orders_of e (no_Symbol o')) \<Longrightarrow> carries_out oid o' now [] (remaining, trades, e) (remaining, trades, e)"
  by (simp add: carries_out_def last_mark_def)

lemma carries_out_Cons:
  assumes best: "best_of o' e = Some (j, m)" and ok: "book_ok (orders_of e (no_Symbol o'))"
    and fresh: "ro_id m \<notin> (\<lambda>(n, _). ro_id n) ` set fs"
    and rest: "carries_out oid o' now fs
      (remaining - f, trades @ [fst (matchFill oid o' now j m f e)], snd (matchFill oid o' now j m f e)) result"
  shows "carries_out oid o' now ((m, f) # fs) (remaining, trades, e) result"
proof -
  have "deplete ((m, f) # fs) (orders_of e (no_Symbol o')) = deplete fs (consume (orders_of e (no_Symbol o')) j m f)"
    by (rule deplete_consume [OF ok best_of_facts(1,2) [OF best] fresh])
  with rest show ?thesis
    by (auto simp: carries_out_def orders_matchFill [OF best ok] matchFill_engine matchFill_trade
        last_mark_def algebra_simps)
qed

lemma matchLoop_refines:
  "book_ok (orders_of e (no_Symbol o')) \<Longrightarrow>
   carries_out oid o' now (allocation o' remaining e) (remaining, trades, e)
     (matchLoop oid o' now remaining trades e)"
proof (induction remaining trades e rule: matchLoop_induct [where oid = oid and o' = o' and now = now])
  case (finished remaining trades e)
  then have "allocation o' remaining e = []" by (simp add: allocation_def allocate_loop_done)
  with finished show ?case by (simp add: matchLoop_done carries_out_Nil)
next
  case (step remaining trades e j m)
  let ?f = "fill_size remaining m"
  let ?e = "snd (matchFill oid o' now j m ?f e)"
  have al: "allocation o' remaining e = (m, ?f) # allocation o' (remaining - ?f) ?e"
    and fresh: "ro_id m \<notin> (\<lambda>(n, _). ro_id n) ` set (allocation o' (remaining - ?f) ?e)"
    using allocate_step [OF step.hyps(2,3) step.prems step.hyps(1)] step.hyps(2) step.prems
    by (simp_all add: allocation_def orders_matchFill)
  have "book_ok (orders_of ?e (no_Symbol o'))"
    by (rule book_ok_matchFill [OF step.hyps(2) step.prems step.hyps(1)])
  then show ?case unfolding al matchLoop_step [OF step.hyps(1-3)]
    by (rule carries_out_Cons [OF step.hyps(2) step.prems fresh step.IH])
qed

lemma allocation_facts:
  assumes "book_ok (orders_of e (no_Symbol o'))" and "(m, f) \<in> set (allocation o' remaining e)"
  shows "m \<in> set (orders_of e (no_Symbol o'))" and "ro_accountID m \<noteq> no_AccountID o'"
    and "ro_side m = wanted (no_Side o')" and "crosses o' (ro_price m)"
    and "0 < sint f" and "sint f \<le> sint (ro_remaining m)"
proof -
  let ?rq = "reachable_queue o' (orders_of e (no_Symbol o'))"
  have m: "m \<in> set ?rq" using assms(2) set_allocate by (auto simp: allocation_def)
  then show os: "m \<in> set (orders_of e (no_Symbol o'))" "ro_accountID m \<noteq> no_AccountID o'"
    "ro_side m = wanted (no_Side o')" "crosses o' (ro_price m)"
    by (auto simp: reachable_queue_def set_queue eligible_def dest: set_takeWhileD)
  have "\<forall>m\<in>set ?rq. 0 < sint (ro_remaining m)"
    using book_ok_pos(1) [OF assms(1)]
    by (auto simp: reachable_queue_def set_queue dest: set_takeWhileD)
  then show "0 < sint f" and "sint f \<le> sint (ro_remaining m)"
    using allocate_fill_bounds assms(2) by (auto simp: allocation_def)
qed

text \<open>The quantity filled and left over, as integers.\<close>

lemma allocation_total:
  assumes "book_ok (orders_of e (no_Symbol o'))" and "0 \<le> sint remaining"
  shows "(\<Sum>(m, f)\<leftarrow>allocation o' remaining e. sint f) =
      min (sint remaining) (\<Sum>m\<leftarrow>reachable_queue o' (orders_of e (no_Symbol o')). sint (ro_remaining m))"
    and "sint (remaining - (\<Sum>(m, f)\<leftarrow>allocation o' remaining e. f)) =
      sint remaining - (\<Sum>(m, f)\<leftarrow>allocation o' remaining e. sint f)"
proof -
  have "\<forall>m\<in>set (reachable_queue o' (orders_of e (no_Symbol o'))). 0 < sint (ro_remaining m)"
    using book_ok_pos(1) [OF assms(1)]
    by (auto simp: reachable_queue_def set_queue dest: set_takeWhileD)
  then show "(\<Sum>(m, f)\<leftarrow>allocation o' remaining e. sint f) =
      min (sint remaining) (\<Sum>m\<leftarrow>reachable_queue o' (orders_of e (no_Symbol o')). sint (ro_remaining m))"
    and "sint (remaining - (\<Sum>(m, f)\<leftarrow>allocation o' remaining e. f)) =
      sint remaining - (\<Sum>(m, f)\<leftarrow>allocation o' remaining e. sint f)"
    using assms(2) allocate_total allocate_remaining by (simp_all add: allocation_def)
qed

end
