(* ===== verification/EngineInvariants.thy ===== *)
theory EngineInvariants
  imports Matching
begin

text \<open>
  The invariants of the engine's books and counters, and that every operation keeps them:
  slices are well formed, ids and arrival numbers stay behind their counters, ids are unique
  over all books, and the book never stays crossed between two accounts.
\<close>

section \<open>The invariants\<close>

definition order_id :: "i64 \<Rightarrow> string" where
  "order_id n = ''ord-'' @ fmt_d n"

definition ids_ok :: "LocalEngine \<Rightarrow> bool" where
  "ids_ok e \<longleftrightarrow>
     (\<forall>s. \<forall>ro\<in>set (orders_of e s).
        (\<exists>n. ro_id ro = order_id n \<and> sint n \<le> sint (le_orderID e)) \<and> sint (ro_seq ro) \<le> sint (le_seq e)) \<and>
     (\<forall>s t. s \<noteq> t \<longrightarrow> ro_id ` set (orders_of e s) \<inter> ro_id ` set (orders_of e t) = {})"

text \<open>Uncrossed between accounts: orders of one account are not compared, since they never trade with
  each other and may rest crossed (\<open>docs/adr/0008\<close>).\<close>

definition uncrossed :: "restingOrder list \<Rightarrow> bool" where
  "uncrossed os \<longleftrightarrow> (\<forall>b\<in>set os. \<forall>a\<in>set os. ro_side b = SideBuy \<longrightarrow> ro_side a = SideSell \<longrightarrow>
     ro_accountID a \<noteq> ro_accountID b \<longrightarrow> sint (ro_price b) < sint (ro_price a))"

definition books_ok :: "LocalEngine \<Rightarrow> bool" where
  "books_ok e \<longleftrightarrow> (\<forall>s. book_ok (orders_of e s)) \<and> ids_ok e \<and> (\<forall>s. uncrossed (orders_of e s))"

text \<open>There is room for \<open>n\<close> more draws from each counter before it wraps.\<close>

definition counter_room :: "nat \<Rightarrow> LocalEngine \<Rightarrow> bool" where
  "counter_room n e \<longleftrightarrow> sint (le_orderID e) + int n < 2 ^ 63 \<and> sint (le_seq e) + int n < 2 ^ 63"

lemma order_id_inj [simp]: "order_id m = order_id n \<longleftrightarrow> m = n"
  by (simp add: order_id_def fmt_d_inj)

lemma books_ok_empty: "books_ok empty_engine"
  by (simp add: books_ok_def ids_ok_def uncrossed_def empty_engine_def orders_of_def)

lemma books_ok_book: "books_ok e \<Longrightarrow> book_ok (orders_of e s)"
  by (simp add: books_ok_def)

section \<open>Shrinking the books\<close>

text \<open>
  An engine whose books hold no order the other does not hold (up to the quantity left), and
  whose counters have not gone back: every step that only matches or removes.
\<close>

definition shrinks :: "LocalEngine \<Rightarrow> LocalEngine \<Rightarrow> bool" where
  "shrinks e e' \<longleftrightarrow> (\<forall>s. ro_core ` set (orders_of e' s) \<subseteq> ro_core ` set (orders_of e s)) \<and>
     sint (le_orderID e) \<le> sint (le_orderID e') \<and> sint (le_seq e) \<le> sint (le_seq e')"

lemma shrinks_order:
  assumes "shrinks e e'" and "ro' \<in> set (orders_of e' s)"
  obtains ro where "ro \<in> set (orders_of e s)" and "ro_core ro = ro_core ro'"
    and "ro_id ro = ro_id ro'" and "ro_accountID ro = ro_accountID ro'" and "ro_side ro = ro_side ro'"
    and "ro_price ro = ro_price ro'" and "ro_seq ro = ro_seq ro'"
proof -
  have "ro_core ro' \<in> ro_core ` set (orders_of e s)" using assms by (auto simp: shrinks_def)
  then obtain ro where "ro \<in> set (orders_of e s)" "ro_core ro = ro_core ro'" by force
  then show ?thesis using that ro_core_eq by metis
qed

lemma uncrossed_shrinks:
  assumes "shrinks e e'" and "uncrossed (orders_of e s)"
  shows "uncrossed (orders_of e' s)"
  unfolding uncrossed_def
proof (intro ballI impI)
  fix b' a' assume in_book: "b' \<in> set (orders_of e' s)" "a' \<in> set (orders_of e' s)" and
    sides: "ro_side b' = SideBuy" "ro_side a' = SideSell" "ro_accountID a' \<noteq> ro_accountID b'"
  obtain b where b: "b \<in> set (orders_of e s)" "ro_accountID b = ro_accountID b'" "ro_side b = ro_side b'"
    "ro_price b = ro_price b'"
    by (rule shrinks_order [OF assms(1) in_book(1)]) (rule that)
  obtain a where a: "a \<in> set (orders_of e s)" "ro_accountID a = ro_accountID a'" "ro_side a = ro_side a'"
    "ro_price a = ro_price a'"
    by (rule shrinks_order [OF assms(1) in_book(2)]) (rule that)
  have "sint (ro_price b) < sint (ro_price a)"
    using assms(2) a(1,2,3) b(1,2,3) sides by (simp add: uncrossed_def)
  then show "sint (ro_price b') < sint (ro_price a')" using a(4) b(4) by simp
qed

lemma ids_ok_shrinks:
  assumes "shrinks e e'" and "ids_ok e"
  shows "ids_ok e'"
proof -
  have "(\<exists>n. ro_id ro' = order_id n \<and> sint n \<le> sint (le_orderID e')) \<and> sint (ro_seq ro') \<le> sint (le_seq e')"
    if "ro' \<in> set (orders_of e' s)" for ro' s
    using that
  proof (rule shrinks_order [OF assms(1)])
    fix ro assume "ro \<in> set (orders_of e s)" "ro_id ro = ro_id ro'" "ro_seq ro = ro_seq ro'"
    moreover from this obtain n where "ro_id ro = order_id n" "sint n \<le> sint (le_orderID e)"
      "sint (ro_seq ro) \<le> sint (le_seq e)"
      using assms(2) unfolding ids_ok_def by blast
    moreover have "sint (le_orderID e) \<le> sint (le_orderID e')" "sint (le_seq e) \<le> sint (le_seq e')"
      using assms(1) by (simp_all add: shrinks_def)
    ultimately show ?thesis by (metis order_trans)
  qed
  moreover have sub: "ro_id ` set (orders_of e' s) \<subseteq> ro_id ` set (orders_of e s)" for s
  proof
    fix i assume "i \<in> ro_id ` set (orders_of e' s)"
    then obtain ro' where ro': "ro' \<in> set (orders_of e' s)" "i = ro_id ro'" by blast
    show "i \<in> ro_id ` set (orders_of e s)"
      by (rule shrinks_order [OF assms(1) ro'(1)]) (metis ro'(2) image_eqI)
  qed
  moreover have "ro_id ` set (orders_of e' s) \<inter> ro_id ` set (orders_of e' t) = {}" if "s \<noteq> t" for s t
  proof -
    have "ro_id ` set (orders_of e s) \<inter> ro_id ` set (orders_of e t) = {}"
      using assms(2) that by (simp add: ids_ok_def)
    then show ?thesis using sub [of s] sub [of t] by blast
  qed
  ultimately show ?thesis by (simp add: ids_ok_def)
qed

lemma books_ok_shrinks:
  "shrinks e e' \<Longrightarrow> books_ok e \<Longrightarrow> (\<And>s. book_ok (orders_of e' s)) \<Longrightarrow> books_ok e'"
  by (auto simp: books_ok_def intro: uncrossed_shrinks ids_ok_shrinks)

lemma shrinks_refl: "shrinks e e"
  by (simp add: shrinks_def)

lemma shrinks_trans: "shrinks e e' \<Longrightarrow> shrinks e' e'' \<Longrightarrow> shrinks e e''"
  unfolding shrinks_def by (meson order_trans)

lemma shrinks_matchFill:
  assumes "best_of o' e = Some (j, m)" and "book_ok (orders_of e (no_Symbol o'))"
  shows "shrinks e (snd (matchFill oid o' now j m f e))"
  using core_consume [OF best_of_facts(1,2) [OF assms(1)]]
  by (auto simp: shrinks_def orders_matchFill [OF assms] matchFill_engine)

text \<open>The matching loop keeps the books in order and leaves nothing to match.\<close>

lemma matchLoop_books:
  assumes "books_ok e" and "matchLoop oid o' now remaining trades e = (remaining', trades', e')"
  shows "books_ok e'" and "shrinks e e'" and "loop_done o' remaining' e'"
    and "le_orderID e' = le_orderID e" and "le_seq e' = le_seq e"
proof -
  let ?P = "\<lambda>(remaining :: i64) (trades :: Trade list) e'. books_ok e' \<and> shrinks e e' \<and>
    le_orderID e' = le_orderID e \<and> le_seq e' = le_seq e"
  have "?P remaining' trades' e' \<and> loop_done o' remaining' e'"
  proof (rule matchLoop_rule [where P = ?P, OF _ _ assms(2)])
    show "?P remaining trades e" using assms(1) by (simp add: shrinks_refl)
  next
    fix r ts d j m
    assume P: "?P r ts d" and go: "0 <s r" and best: "best_of o' d = Some (j, m)"
    let ?d = "snd (matchFill oid o' now j m (fill_size r m) d)"
    have ok: "book_ok (orders_of d s)" for s using P by (simp add: books_ok_book)
    have sh: "shrinks d ?d" by (rule shrinks_matchFill [OF best ok])
    have "book_ok (orders_of ?d s)" for s
      using book_ok_matchFill [OF best ok go] ok
      by (cases "s = no_Symbol o'") (simp_all add: orders_matchFill [OF best ok])
    then have "books_ok ?d" using books_ok_shrinks [OF sh] P by blast
    then show "?P (r - fill_size r m) (ts @ [fst (matchFill oid o' now j m (fill_size r m) d)]) ?d"
      using P sh by (auto simp: matchFill_engine intro: shrinks_trans)
  qed
  then show "books_ok e'" and "shrinks e e'" and "loop_done o' remaining' e'"
    and "le_orderID e' = le_orderID e" and "le_seq e' = le_seq e" by auto
qed

section \<open>Resting an order\<close>

lemma counter_next: "sint c + 1 < 2 ^ 63 \<Longrightarrow> sint (c + 1) = sint c + 1" for c :: i64
  using i64_range [of c] sint_i64_add [of c 1] by simp

text \<open>
  What a new resting order must bring: an id nobody has, positive price and quantity, and a
  price that crosses no order of another account.
\<close>

definition rests_well :: "restingOrder \<Rightarrow> restingOrder list \<Rightarrow> bool" where
  "rests_well m os \<longleftrightarrow> 0 < sint (ro_remaining m) \<and> 0 < sint (ro_price m) \<and>
     (\<forall>ro\<in>set os. ro_accountID ro \<noteq> ro_accountID m \<longrightarrow>
        (ro_side m = SideBuy \<and> ro_side ro = SideSell \<longrightarrow> sint (ro_price m) < sint (ro_price ro)) \<and>
        (ro_side m = SideSell \<and> ro_side ro = SideBuy \<longrightarrow> sint (ro_price ro) < sint (ro_price m)))"

lemma books_ok_rest:
  assumes ok: "books_ok e" and well: "rests_well m (orders_of e s)"
    and seq: "ro_seq m = le_seq e + 1" "sint (le_seq e) + 1 < 2 ^ 63"
    and new_id: "ro_id m = order_id n" "sint n \<le> sint (le_orderID e)"
    and fresh: "\<And>t. ro_id m \<notin> ro_id ` set (orders_of e t)"
  shows "books_ok (set_orders (e\<lparr>le_seq := le_seq e + 1\<rparr>) s (orders_of e s @ [m]))"
proof -
  let ?e = "set_orders (e\<lparr>le_seq := le_seq e + 1\<rparr>) s (orders_of e s @ [m])"
  have ids: "ids_ok e" and un: "uncrossed (orders_of e t)" and bk: "book_ok (orders_of e t)" for t
    using ok by (auto simp: books_ok_def)
  have behind: "sint (ro_seq ro) < sint (ro_seq m)" if "ro \<in> set (orders_of e t)" for ro t
    using ids that seq counter_next [OF seq(2)] by (fastforce simp: ids_ok_def)
  have "book_ok (orders_of e s @ [m])"
    by (rule book_ok_snoc [OF bk fresh behind]) (use well in \<open>simp_all add: rests_well_def\<close>)
  then have "book_ok (orders_of ?e t)" for t using bk by simp
  moreover have "ids_ok ?e"
    using ids new_id fresh counter_next [OF seq(2)] seq(1) unfolding ids_ok_def
    by (auto 4 3 simp: image_iff intro: less_imp_le dest: bspec)
  moreover have "uncrossed (orders_of ?e t)" for t
    using un [of t] well by (auto simp: uncrossed_def rests_well_def)
  ultimately show ?thesis by (simp add: books_ok_def)
qed

text \<open>When the loop is done and something is left of a limit order, its rest may join the book.\<close>

lemma loop_done_rests_well:
  assumes "loop_done o' remaining e" and "0 <s remaining" and "no_Type o' = OrderTypeLimit"
    and "0 < sint (no_PriceTicks o')"
    and m: "ro_remaining m = remaining" "ro_price m = no_PriceTicks o'" "ro_side m = no_Side o'"
      "ro_accountID m = no_AccountID o'"
  shows "rests_well m (orders_of e (no_Symbol o'))"
proof -
  let ?os = "orders_of e (no_Symbol o')"
  have apart: "(no_Side o' = SideBuy \<longrightarrow> sint (no_PriceTicks o') < sint (ro_price ro)) \<and>
      (no_Side o' = SideSell \<longrightarrow> sint (ro_price ro) < sint (no_PriceTicks o'))"
    if ro: "ro \<in> set ?os" "ro_accountID ro \<noteq> no_AccountID o'" "ro_side ro = wanted (no_Side o')" for ro
  proof -
    have el: "eligible (wanted (no_Side o')) (no_AccountID o') ro" using ro by (simp add: eligible_def)
    then obtain j b where best: "best_of o' e = Some (j, b)"
      using ro(1) bestOpposite_None [of ?os "no_Side o'" "no_AccountID o'"] by (force simp: best_of_def)
    then have "\<not> crosses o' (ro_price b)" using assms(1,2) by (simp add: loop_done_def)
    moreover have "prio (wanted (no_Side o')) b \<le> prio (wanted (no_Side o')) ro"
      by (rule best_of_facts(5) [OF best ro(1) el])
    ultimately show ?thesis using assms(3)
      by (auto simp: crosses_def prio_def wanted_def go_signed less_eq_prod_def split: if_splits)
  qed
  show ?thesis unfolding rests_well_def m
    using assms(2,4) apart by (auto simp: go_signed wanted_def)
qed

section \<open>Submitting keeps the invariants\<close>

lemma orders_of_counter [simp]: "orders_of (snd (nextOrderID e)) s = orders_of e s"
  by (simp add: nextOrderID_def)

lemma books_ok_book_first_use [simp]: "books_ok (snd (book e s)) \<longleftrightarrow> books_ok e"
  by (simp add: books_ok_def ids_ok_def)

text \<open>A fresh id: it is the one just drawn, and the books know smaller numbers only.\<close>

lemma nextOrderID_fresh:
  assumes "books_ok e" and "sint (le_orderID e) + 1 < 2 ^ 63"
  shows "books_ok (snd (nextOrderID e))" and "fst (nextOrderID e) = order_id (le_orderID e + 1)"
    and "fst (nextOrderID e) \<notin> ro_id ` set (orders_of e t)"
proof -
  note up = counter_next [OF assms(2)]
  have ids: "ids_ok e" using assms(1) by (simp add: books_ok_def)
  have old: "\<exists>n. ro_id ro = order_id n \<and> sint n \<le> sint (le_orderID e)" if "ro \<in> set (orders_of e s)" for ro s
    using ids that by (auto simp: ids_ok_def)
  show "fst (nextOrderID e) = order_id (le_orderID e + 1)"
    by (simp add: nextOrderID_def order_id_def)
  then show "fst (nextOrderID e) \<notin> ro_id ` set (orders_of e t)"
    using old [of _ t] up by force
  have "shrinks e (snd (nextOrderID e))"
    using up by (simp add: shrinks_def) (simp add: nextOrderID_def)
  then show "books_ok (snd (nextOrderID e))"
    using assms(1) by (rule books_ok_shrinks) (simp add: books_ok_book [OF assms(1)])
qed

text \<open>The engine after the loop, with the leftover of a limit order resting.\<close>

lemma submitLocked_books:
  assumes ok: "books_ok e" and room: "sint (le_seq e) + 1 < 2 ^ 63"
    and oid: "oid = order_id (le_orderID e)" "\<And>t. oid \<notin> ro_id ` set (orders_of e t)"
    and price: "no_Type o' = OrderTypeLimit \<longrightarrow> 0 < sint (no_PriceTicks o')"
  shows "books_ok (snd (submitLocked oid o' now e))"
    and "le_orderID (snd (submitLocked oid o' now e)) = le_orderID e"
    and "le_seq (snd (submitLocked oid o' now e)) \<in> {le_seq e, le_seq e + 1}"
proof -
  obtain b e0 where bk: "book e (no_Symbol o') = (b, e0)" by force
  then have e0: "e0 = snd (book e (no_Symbol o'))" by simp
  obtain remaining trades e1 where
    loop: "matchLoop oid o' now (no_Quantity o') [] e0 = (remaining, trades, e1)" by (metis prod_cases3)
  have "books_ok e0" using ok e0 by simp
  note after = matchLoop_books [OF this loop]
  have same: "le_orderID e1 = le_orderID e" "le_seq e1 = le_seq e" using after e0 by auto
  let ?m = "\<lparr>ro_id = oid, ro_accountID = no_AccountID o', ro_side = no_Side o',
    ro_price = no_PriceTicks o', ro_remaining = remaining, ro_seq = le_seq e1 + 1\<rparr>"
  let ?rest = "0 <s remaining \<and> no_Type o' = OrderTypeLimit"
  have result: "snd (submitLocked oid o' now e) =
      (if ?rest then set_orders (e1\<lparr>le_seq := le_seq e1 + 1\<rparr>) (no_Symbol o') (orders_of e1 (no_Symbol o') @ [?m])
       else e1)"
    by (simp add: submitLocked_def bk loop nextSeq_def Let_def)
  have "books_ok (set_orders (e1\<lparr>le_seq := le_seq e1 + 1\<rparr>) (no_Symbol o') (orders_of e1 (no_Symbol o') @ [?m]))"
    if ?rest
  proof (rule books_ok_rest [OF after(1)])
    show "rests_well ?m (orders_of e1 (no_Symbol o'))"
      using that price by (intro loop_done_rests_well [OF after(3)]) auto
    show "ro_id ?m \<notin> ro_id ` set (orders_of e1 t)" for t
    proof
      assume "ro_id ?m \<in> ro_id ` set (orders_of e1 t)"
      then obtain ro' where "ro' \<in> set (orders_of e1 t)" "ro_id ro' = oid" by auto
      then show False
        using oid(2) [of t] e0 by (elim shrinks_order [OF after(2)]) (auto simp: image_iff)
    qed
  qed (use same oid(1) room in auto)
  then show "books_ok (snd (submitLocked oid o' now e))" using after(1) by (simp add: result)
  show "le_orderID (snd (submitLocked oid o' now e)) = le_orderID e"
    and "le_seq (snd (submitLocked oid o' now e)) \<in> {le_seq e, le_seq e + 1}"
    using same by (simp_all add: result)
qed

text \<open>A call is one draw of each counter at most.\<close>

definition draws :: "nat \<Rightarrow> LocalEngine \<Rightarrow> LocalEngine \<Rightarrow> bool" where
  "draws k e e' \<longleftrightarrow> sint (le_orderID e') \<le> sint (le_orderID e) + int k \<and>
     sint (le_seq e') \<le> sint (le_seq e) + int k"

lemma draws_room: "draws k e e' \<Longrightarrow> counter_room (k + n) e \<Longrightarrow> counter_room n e'"
  by (auto simp: draws_def counter_room_def)

lemma counter_room_le: "counter_room n e \<Longrightarrow> k \<le> n \<Longrightarrow> counter_room k e"
  by (auto simp: counter_room_def)

text \<open>The two guards of \<open>SubmitOrder\<close>, and the call by cases over them.\<close>

definition passes_guards :: "NewOrder \<Rightarrow> bool" where
  "passes_guards o' \<longleftrightarrow> 0 < sint (no_Quantity o') \<and>
     (no_Type o' = OrderTypeLimit \<longrightarrow> 0 < sint (no_PriceTicks o'))"

lemma SubmitOrder_err: "SubmitOrder e (Some err) o' now = (Inl err, e)"
  by (simp add: SubmitOrder_def)

lemma SubmitOrder_refused:
  "\<not> passes_guards o' \<Longrightarrow> SubmitOrder e None o' now =
     (Inr (ack_zero\<lparr>ack_OrderID := fst (nextOrderID e), ack_Status := StatusRejected,
        ack_Reason := (if no_Quantity o' \<le>s 0 then ''quantity must be positive''
                       else ''limit order requires positive priceTicks'')\<rparr>), snd (nextOrderID e))"
  by (auto simp: SubmitOrder_def passes_guards_def go_signed Let_def split: prod.splits)

lemma SubmitOrder_locked:
  "passes_guards o' \<Longrightarrow> SubmitOrder e None o' now =
     (Inr (fst (submitLocked (fst (nextOrderID e)) o' now (snd (nextOrderID e)))),
      snd (submitLocked (fst (nextOrderID e)) o' now (snd (nextOrderID e))))"
  by (auto simp: SubmitOrder_def passes_guards_def go_signed Let_def split: prod.splits)

lemma SubmitOrder_cases:
  obtains (err) err where "ctxErr = Some err" | (refused) "ctxErr = None" "\<not> passes_guards o'"
    | (locked) "ctxErr = None" "passes_guards o'"
  by (cases ctxErr) auto

theorem SubmitOrder_books:
  assumes ok: "books_ok e" and room: "counter_room 1 e"
  shows "books_ok (snd (SubmitOrder e ctxErr o' now))" and "draws 1 e (snd (SubmitOrder e ctxErr o' now))"
proof -
  let ?e1 = "snd (nextOrderID e)" and ?oid = "fst (nextOrderID e)"
  have room': "sint (le_orderID e) + 1 < 2 ^ 63" "sint (le_seq e) + 1 < 2 ^ 63"
    using room by (auto simp: counter_room_def)
  note id = nextOrderID_fresh [OF ok room'(1)] and up = counter_next [OF room'(1)] counter_next [OF room'(2)]
  have c: "le_orderID ?e1 = le_orderID e + 1" "le_seq ?e1 = le_seq e" by (simp_all add: nextOrderID_def)
  have "books_ok (snd (SubmitOrder e ctxErr o' now)) \<and> draws 1 e (snd (SubmitOrder e ctxErr o' now))"
  proof (cases rule: SubmitOrder_cases [where ctxErr = ctxErr and o' = o'])
    case (err err)
    then show ?thesis using ok by (simp add: SubmitOrder_err draws_def)
  next
    case refused
    then show ?thesis using id(1) c up by (simp add: SubmitOrder_refused draws_def)
  next
    case locked
    have "?oid \<notin> ro_id ` set (orders_of ?e1 t)" for t using id(3) [of t] by simp
    note r = submitLocked_books [OF id(1) _ _ this, of o' now]
    have "books_ok (snd (submitLocked ?oid o' now ?e1))"
      and "le_orderID (snd (submitLocked ?oid o' now ?e1)) = le_orderID e + 1"
      and "le_seq (snd (submitLocked ?oid o' now ?e1)) \<in> {le_seq e, le_seq e + 1}"
      using r room'(2) locked(2) id(2) c by (simp_all add: passes_guards_def)
    then show ?thesis using locked up by (auto simp: SubmitOrder_locked draws_def)
  qed
  then show "books_ok (snd (SubmitOrder e ctxErr o' now))" and "draws 1 e (snd (SubmitOrder e ctxErr o' now))"
    by auto
qed

section \<open>Cancelling and reading keep the invariants\<close>

lemma shrinks_remove:
  "shrinks e (set_orders e s (remove_order (orders_of e s) i))"
  using set_remove_order [of "orders_of e s" i] by (auto simp: shrinks_def)

lemma cancelScan_engine:
  "snd (cancelScan c e ss) = e \<or>
   (\<exists>s. snd (cancelScan c e ss) = set_orders e s (remove_order (orders_of e s) (co_OrderID c)))"
  by (induction ss) (auto split: option.split)

theorem CancelOrder_books:
  assumes ok: "books_ok e"
  shows "books_ok (snd (CancelOrder e ctxErr c syms))" and "draws 0 e (snd (CancelOrder e ctxErr c syms))"
proof -
  have "book_ok (remove_order (orders_of e s) i)" for s i
    using books_ok_book [OF ok, of s] by (simp add: remove_order_filter book_ok_ids book_ok_filter)
  then have "books_ok (set_orders e s (remove_order (orders_of e s) i))" for s i
    using books_ok_book [OF ok] by (intro books_ok_shrinks [OF shrinks_remove ok]) simp
  then have "books_ok (snd (cancelScan c e syms)) \<and> draws 0 e (snd (cancelScan c e syms))"
    using cancelScan_engine [of c e syms] ok by (auto simp: draws_def)
  then show "books_ok (snd (CancelOrder e ctxErr c syms))" and "draws 0 e (snd (CancelOrder e ctxErr c syms))"
    using ok by (auto simp: CancelOrder_def draws_def split: option.split prod.split)
qed

lemma GetBook_engine:
  "snd (GetBook e ctxErr r now bk ak) = (if ctxErr = None then snd (book e (br_Symbol r)) else e)"
  by (auto simp: GetBook_def Let_def split: option.split prod.split)

theorem GetBook_books:
  assumes "books_ok e"
  shows "books_ok (snd (GetBook e ctxErr r now bk ak))" and "draws 0 e (snd (GetBook e ctxErr r now bk ak))"
  using assms by (simp_all add: GetBook_engine draws_def)

section \<open>Seeding\<close>

text \<open>One pair of a seeded book is two orders resting one after the other.\<close>

lemma set_orders_twice: "set_orders (set_orders e s xs) s ys = set_orders e s ys"
  by (cases e) (auto simp: set_orders_def book_def Let_def split: option.splits)

definition rest_seed :: "string \<Rightarrow> Side \<Rightarrow> i64 \<Rightarrow> i64 \<Rightarrow> LocalEngine \<Rightarrow> LocalEngine" where
  "rest_seed symbol side price qty e =
     (let (i, e1) = nextOrderID e
      in set_orders (e1\<lparr>le_seq := le_seq e1 + 1\<rparr>) symbol (orders_of e1 symbol @
           [\<lparr>ro_id = i, ro_accountID = ''market-maker'', ro_side = side, ro_price = price,
             ro_remaining = qty, ro_seq = le_seq e1 + 1\<rparr>]))"

lemma seedPair_rests:
  "seedPair symbol e i =
     rest_seed symbol SideSell (10000 + of_nat i) (of_nat (i * 10))
       (rest_seed symbol SideBuy (10000 - of_nat i) (of_nat (i * 10)) e)"
  by (cases e) (auto simp: seedPair_def rest_seed_def nextOrderID_def nextSeq_def Let_def set_orders_def
    orders_of_def book_def split: option.splits)

text \<open>The seeded book holds the market maker's orders only, so none of them can cross.\<close>

definition seed_ok :: "LocalEngine \<Rightarrow> bool" where
  "seed_ok e \<longleftrightarrow> books_ok e \<and> (\<forall>s. \<forall>ro\<in>set (orders_of e s). ro_accountID ro = ''market-maker'')"

lemma rest_seed_ok:
  assumes ok: "seed_ok e" and room: "counter_room 1 e" and pos: "0 < sint price" "0 < sint qty"
  shows "seed_ok (rest_seed symbol side price qty e)" and "draws 1 e (rest_seed symbol side price qty e)"
proof -
  let ?e1 = "snd (nextOrderID e)" and ?oid = "fst (nextOrderID e)"
  let ?m = "\<lparr>ro_id = ?oid, ro_accountID = ''market-maker'', ro_side = side, ro_price = price,
    ro_remaining = qty, ro_seq = le_seq ?e1 + 1\<rparr>"
  have bk: "books_ok e" and mm: "ro \<in> set (orders_of e s) \<Longrightarrow> ro_accountID ro = ''market-maker''" for ro s
    using ok by (auto simp: seed_ok_def)
  have room': "sint (le_orderID e) + 1 < 2 ^ 63" "sint (le_seq e) + 1 < 2 ^ 63"
    using room by (auto simp: counter_room_def)
  note id = nextOrderID_fresh [OF bk room'(1)]
  have c: "le_orderID ?e1 = le_orderID e + 1" "le_seq ?e1 = le_seq e" by (simp_all add: nextOrderID_def)
  have eq: "rest_seed symbol side price qty e =
      set_orders (?e1\<lparr>le_seq := le_seq ?e1 + 1\<rparr>) symbol (orders_of ?e1 symbol @ [?m])"
    by (simp add: rest_seed_def nextOrderID_def)
  have "books_ok (rest_seed symbol side price qty e)" unfolding eq
  proof (rule books_ok_rest [OF id(1), where n = "le_orderID e + 1"])
    show "rests_well ?m (orders_of ?e1 symbol)" using pos mm by (simp add: rests_well_def)
    show "ro_id ?m \<notin> ro_id ` set (orders_of ?e1 t)" for t using id(3) [of t] by simp
  qed (use id(2) c room' in simp_all)
  then show "seed_ok (rest_seed symbol side price qty e)"
    using mm by (auto simp: seed_ok_def eq)
  show "draws 1 e (rest_seed symbol side price qty e)"
    using c counter_next [OF room'(1)] counter_next [OF room'(2)] by (simp add: draws_def eq)
qed

lemma seedPair_ok:
  assumes ok: "seed_ok e" and room: "counter_room 2 e" and i: "1 \<le> i" "i \<le> 5"
  shows "seed_ok (seedPair symbol e i)" and "draws 2 e (seedPair symbol e i)"
proof -
  have i5: "i \<in> {1, 2, 3, 4, 5}" using i by auto
  let ?bid = "rest_seed symbol SideBuy (10000 - of_nat i) (of_nat (i * 10)) e"
  have "0 < sint (10000 - of_nat i :: i64)" "0 < sint (10000 + of_nat i :: i64)"
    "0 < sint (of_nat (i * 10) :: i64)"
    using i5 by auto
  note pos = this
  have room1: "counter_room 1 e" using room by (rule counter_room_le) simp
  note bid = rest_seed_ok [OF ok room1 pos(1,3), of symbol SideBuy]
  have "counter_room 1 ?bid" using draws_room [OF bid(2), of 1] room by (simp add: numeral_2_eq_2)
  note ask = rest_seed_ok [OF bid(1) this pos(2,3), of symbol SideSell]
  show "seed_ok (seedPair symbol e i)" using ask(1) by (simp add: seedPair_rests)
  show "draws 2 e (seedPair symbol e i)" using ask(2) bid(2) by (simp add: seedPair_rests draws_def)
qed

lemma draws_trans: "draws k e e' \<Longrightarrow> draws l e' e'' \<Longrightarrow> draws (k + l) e e''"
  by (auto simp: draws_def)

lemma seedPairs_ok:
  assumes "seed_ok e" and "counter_room (2 * length is) e" and "\<forall>i\<in>set is. 1 \<le> i \<and> i \<le> 5"
  shows "seed_ok (foldl (seedPair symbol) e is) \<and> draws (2 * length is) e (foldl (seedPair symbol) e is)"
  using assms
proof (induction "is" arbitrary: e)
  case Nil
  then show ?case by (simp add: draws_def)
next
  case (Cons i "is")
  have room: "counter_room 2 e" using Cons.prems(2) by (rule counter_room_le) simp
  have i: "1 \<le> i" "i \<le> 5" using Cons.prems(3) by auto
  note p = seedPair_ok [OF Cons.prems(1) room i, of symbol]
  have "counter_room (2 * length is) (seedPair symbol e i)"
    using draws_room [OF p(2), of "2 * length is"] Cons.prems(2) by simp
  then show ?case using Cons.IH [OF p(1)] Cons.prems(3) draws_trans [OF p(2)] by simp
qed

lemma seedBook_ok:
  assumes "seed_ok e" and "counter_room 10 e"
  shows "seed_ok (seedBook e symbol)" and "draws 10 e (seedBook e symbol)"
proof -
  let ?e0 = "snd (book e symbol)"
  have "seed_ok ?e0" "counter_room 10 ?e0" using assms by (simp_all add: seed_ok_def counter_room_def)
  then show "seed_ok (seedBook e symbol)" and "draws 10 e (seedBook e symbol)"
    using seedPairs_ok [of ?e0 "[1, 2, 3, 4, 5]" symbol] by (simp_all add: seedBook_def draws_def)
qed

lemma seedBooks_ok:
  assumes "seed_ok e" and "counter_room (10 * length syms) e"
  shows "seed_ok (foldl seedBook e syms) \<and> draws (10 * length syms) e (foldl seedBook e syms)"
  using assms
proof (induction syms arbitrary: e)
  case Nil
  then show ?case by (simp add: draws_def)
next
  case (Cons s syms)
  have room: "counter_room 10 e" using Cons.prems(2) by (rule counter_room_le) simp
  note p = seedBook_ok [OF Cons.prems(1) room, of s]
  have "counter_room (10 * length syms) (seedBook e s)"
    using draws_room [OF p(2), of "10 * length syms"] Cons.prems(2) by simp
  then show ?case using Cons.IH [OF p(1)] draws_trans [OF p(2)] by simp
qed

lemma seed_ok_empty: "seed_ok empty_engine"
  by (simp add: seed_ok_def books_ok_empty) (simp add: empty_engine_def orders_of_def)

theorem NewLocalEngine_books:
  assumes "10 * int (length seedSymbols) < 2 ^ 63"
  shows "books_ok (NewLocalEngine seedSymbols)" and "seed_ok (NewLocalEngine seedSymbols)"
    and "draws (10 * length seedSymbols) empty_engine (NewLocalEngine seedSymbols)"
proof -
  have "counter_room (10 * length seedSymbols) empty_engine"
    using assms by (simp add: counter_room_def empty_engine_def)
  then show "seed_ok (NewLocalEngine seedSymbols)"
    and "draws (10 * length seedSymbols) empty_engine (NewLocalEngine seedSymbols)"
    using seedBooks_ok [OF seed_ok_empty] by (simp_all add: NewLocalEngine_def)
  then show "books_ok (NewLocalEngine seedSymbols)" by (simp add: seed_ok_def)
qed

end
