(* ===== verification/LedgerBounds.thy ===== *)
theory LedgerBounds
  imports Ledger
begin

text \<open>
  Bounds on the cost basis of a position. Its exact cost lies between \<open>lo\<close> and \<open>hi\<close> times its
  size, where \<open>[lo, hi]\<close> is the band of prices the account traded at. A fill inside the band
  keeps it there, so the displayed average never leaves that band, whatever the truncated
  division of a partial close rounds away. The hypothesis \<open>fill_room\<close> says that the products of
  the computation fit into an \<open>int64\<close>.
\<close>

section \<open>Truncated division and proportional closing\<close>

lemma sint_div64:
  assumes "0 \<le> sint a" and "0 < sint b"
  shows "sint (div64 a b) = sint a div sint b"
proof -
  have "sint a sdiv sint b = sint a div sint b"
    using assms by (cases "sint a = 0") (simp_all add: signed_divide_int_def)
  moreover have "0 \<le> sint a div sint b" "sint a div sint b \<le> sint a"
    using assms zdiv_mono2 [of "sint a" 1 "sint b"] by (simp_all add: pos_imp_zdiv_nonneg_iff)
  ultimately show ?thesis
    using i64_range [of a] by (simp add: div64_def sint_i64_eq)
qed

lemma band_close:
  fixes B Q c lo hi :: int
  assumes "0 < Q" and "c \<le> Q" and "lo * Q \<le> B" and "B \<le> hi * Q"
  shows "lo * (Q - c) \<le> B - B * c div Q" and "B - B * c div Q \<le> hi * (Q - c)"
proof -
  have "lo * Q * (Q - c) \<le> B * (Q - c)" and "B * (Q - c) \<le> hi * Q * (Q - c)"
    using assms by (auto intro: mult_right_mono)
  then have up: "B * c \<le> (B - lo * (Q - c)) * Q" and dn: "(B - hi * (Q - c)) * Q \<le> B * c"
    by (simp_all add: algebra_simps)
  have "B * c div Q \<le> (B - lo * (Q - c)) * Q div Q" using up assms(1) by (rule zdiv_mono1)
  then show "lo * (Q - c) \<le> B - B * c div Q" using assms(1) by simp
  have "(B - hi * (Q - c)) * Q div Q \<le> B * c div Q" using dn assms(1) by (rule zdiv_mono1)
  then show "B - B * c div Q \<le> hi * (Q - c)" using assms(1) by simp
qed

section \<open>The price band\<close>

definition in_band :: "int \<Rightarrow> int \<Rightarrow> position \<Rightarrow> bool" where
  "in_band lo hi p \<longleftrightarrow> lo * \<bar>sint (pos_qty p)\<bar> \<le> sint (pos_costBasis p) \<and>
     sint (pos_costBasis p) \<le> hi * \<bar>sint (pos_qty p)\<bar>"

definition fill_room :: "int \<Rightarrow> int \<Rightarrow> position \<Rightarrow> i64 \<Rightarrow> i64 \<Rightarrow> i64 \<Rightarrow> bool" where
  "fill_room lo hi pos delta price qty \<longleftrightarrow>
     0 \<le> lo \<and> 1 \<le> hi \<and> lo \<le> sint price \<and> sint price \<le> hi \<and> 0 < sint qty \<and>
     (delta = qty \<or> delta = - qty) \<and>
     hi * (\<bar>sint (pos_qty pos)\<bar> + sint qty) * (\<bar>sint (pos_qty pos)\<bar> + sint qty) < 2 ^ 63"

lemma band_size_ok:
  fixes hi N :: int
  assumes "1 \<le> hi" and "0 \<le> N" and "hi * N * N < 2 ^ 63"
  shows "N < 2 ^ 63" and "hi * N < 2 ^ 63"
proof -
  have "N * 1 \<le> N * N" if "1 \<le> N" using that by (intro mult_left_mono) auto
  then have "N \<le> N * N" using assms(2) by (cases "N = 0") auto
  then have "hi * N \<le> hi * (N * N)" using assms(1) by (intro mult_left_mono) auto
  moreover have "1 * N \<le> hi * N" using assms by (intro mult_right_mono) auto
  ultimately show "N < 2 ^ 63" and "hi * N < 2 ^ 63" using assms(3) by (auto simp: mult.assoc)
qed

lemma fill_room_size:
  assumes "fill_room lo hi pos delta price qty"
  shows "\<bar>sint (pos_qty pos)\<bar> + sint qty < 2 ^ 63"
    and "hi * (\<bar>sint (pos_qty pos)\<bar> + sint qty) < 2 ^ 63"
  using band_size_ok [of hi "\<bar>sint (pos_qty pos)\<bar> + sint qty"] assms
  by (auto simp: fill_room_def)

lemma fill_room_delta:
  assumes "fill_room lo hi pos delta price qty"
  shows "sint delta = (if delta = qty then sint qty else - sint qty)"
    and "\<bar>sint delta\<bar> = sint qty" and "sint (abs64 delta) = sint qty"
    and "sint (abs64 (pos_qty pos)) = \<bar>sint (pos_qty pos)\<bar>"
    and "sint (pos_qty pos + delta) = sint (pos_qty pos) + sint delta"
proof -
  have q: "0 < sint qty" using assms by (simp add: fill_room_def)
  show d: "sint delta = (if delta = qty then sint qty else - sint qty)"
    using assms sint_i64_uminus [of qty] by (auto simp: fill_room_def)
  then show "\<bar>sint delta\<bar> = sint qty" using q by auto
  show "sint (abs64 delta) = sint qty"
    using d q fill_room_size [OF assms] by (subst sint_abs64) (auto split: if_splits)
  show "sint (abs64 (pos_qty pos)) = \<bar>sint (pos_qty pos)\<bar>"
    using q fill_room_size [OF assms] by (intro sint_abs64) auto
  show "sint (pos_qty pos + delta) = sint (pos_qty pos) + sint delta"
    using d q fill_room_size [OF assms] by (intro sint_i64_add) auto
qed

text \<open>The cost of any part of the fill, at the fill price.\<close>

lemma fill_room_cost:
  assumes room: "fill_room lo hi pos delta price qty"
    and y: "0 \<le> sint y" "sint y \<le> \<bar>sint (pos_qty pos)\<bar> + sint qty"
  shows "lo * sint y \<le> sint (price * y)" and "sint (price * y) \<le> hi * sint y"
    and "0 \<le> sint (price * y)"
proof -
  have "hi * sint y \<le> hi * (\<bar>sint (pos_qty pos)\<bar> + sint qty)"
    using y room by (intro mult_left_mono) (auto simp: fill_room_def)
  then have "hi * sint y < 2 ^ 63"
    using fill_room_size(2) [OF room] by (rule le_less_trans)
  then have "sint (price * y) = sint price * sint y"
    using sint_mult_le(1) [of price hi y "sint y"] y room by (simp add: fill_room_def)
  then show "lo * sint y \<le> sint (price * y)" and "sint (price * y) \<le> hi * sint y"
    and "0 \<le> sint (price * y)"
    using room y by (auto simp: fill_room_def intro: mult_right_mono)
qed

lemma in_band_basis:
  assumes "in_band lo hi p" and "0 \<le> lo"
  shows "0 \<le> sint (pos_costBasis p)"
  using assms by (auto simp: in_band_def intro: order_trans [rotated])

lemma settle_band_open_add:
  assumes room: "fill_room lo hi pos delta price qty" and band: "in_band lo hi pos"
    and grow: "pos_qty pos = 0 \<or> sameSign (pos_qty pos) delta"
  shows "in_band lo hi (fst (settle pos delta price qty r))"
proof -
  have q: "0 < sint qty" "0 \<le> lo" using room by (auto simp: fill_room_def)
  note cost = fill_room_cost [OF room, of qty] and d = fill_room_delta [OF room]
  show ?thesis
  proof (cases "pos_qty pos = 0")
    case True
    then show ?thesis using cost q d by (simp add: settle_def in_band_def)
  next
    case False
    then have same: "sameSign (pos_qty pos) delta" using grow by simp
    have "sint (pos_costBasis pos + price * qty) = sint (pos_costBasis pos) + sint (price * qty)"
      using band in_band_basis [OF band] cost q fill_room_size [OF room]
      by (intro sint_i64_add) (auto simp: in_band_def algebra_simps)
    moreover have "\<bar>sint (pos_qty pos) + sint delta\<bar> = \<bar>sint (pos_qty pos)\<bar> + sint qty"
      using same False d q sint_zero_iff [of "pos_qty pos"]
      by (auto simp: sameSign_iff split: if_splits)
    ultimately show ?thesis using same False band cost q d
      by (simp add: settle_def in_band_def algebra_simps)
  qed
qed

text \<open>
  The reducing branch: what closes is the smaller of the two sizes, and what is left has the
  difference of the sizes, on the position's side or, past flat, on the fill's.
\<close>

lemma reduce_facts:
  assumes room: "fill_room lo hi pos delta price qty"
    and reduce: "pos_qty pos \<noteq> 0" "\<not> sameSign (pos_qty pos) delta"
  shows "sint (min64 (abs64 (pos_qty pos)) (abs64 delta)) = min \<bar>sint (pos_qty pos)\<bar> (sint qty)"
    and "\<bar>sint (pos_qty pos + delta)\<bar> = \<bar>\<bar>sint (pos_qty pos)\<bar> - sint qty\<bar>"
    and "sint (abs64 (pos_qty pos + delta)) = \<bar>\<bar>sint (pos_qty pos)\<bar> - sint qty\<bar>"
    and "sint qty < \<bar>sint (pos_qty pos)\<bar> \<Longrightarrow> \<not> sameSign (pos_qty pos + delta) delta"
    and "\<bar>sint (pos_qty pos)\<bar> < sint qty \<Longrightarrow> sameSign (pos_qty pos + delta) delta"
proof -
  have q: "0 < sint qty" using room by (simp add: fill_room_def)
  have nz: "sint (pos_qty pos) \<noteq> 0" using reduce by (simp add: sint_zero_iff)
  have opp: "0 < sint (pos_qty pos) \<longleftrightarrow> \<not> 0 < sint delta" using reduce by (auto simp: sameSign_iff)
  note d = fill_room_delta [OF room]
  show "sint (min64 (abs64 (pos_qty pos)) (abs64 delta)) = min \<bar>sint (pos_qty pos)\<bar> (sint qty)"
    using d by (simp add: min64_def go_signed)
  show n: "\<bar>sint (pos_qty pos + delta)\<bar> = \<bar>\<bar>sint (pos_qty pos)\<bar> - sint qty\<bar>"
    using d(1,5) opp nz q by (auto split: if_splits)
  then show "sint (abs64 (pos_qty pos + delta)) = \<bar>\<bar>sint (pos_qty pos)\<bar> - sint qty\<bar>"
    using q fill_room_size [OF room] by (subst sint_abs64) auto
  show "sint qty < \<bar>sint (pos_qty pos)\<bar> \<Longrightarrow> \<not> sameSign (pos_qty pos + delta) delta"
    and "\<bar>sint (pos_qty pos)\<bar> < sint qty \<Longrightarrow> sameSign (pos_qty pos + delta) delta"
    using d(1,5) opp nz q by (auto simp: sameSign_iff split: if_splits)
qed

lemma settle_band_partial:
  assumes room: "fill_room lo hi pos delta price qty" and band: "in_band lo hi pos"
    and reduce: "pos_qty pos \<noteq> 0" "\<not> sameSign (pos_qty pos) delta"
    and part: "sint qty < \<bar>sint (pos_qty pos)\<bar>"
  shows "in_band lo hi (fst (settle pos delta price qty r))"
proof -
  let ?c = "min64 (abs64 (pos_qty pos)) (abs64 delta)"
  let ?W = "\<bar>sint (pos_qty pos)\<bar>" and ?Q = "sint qty" and ?B = "sint (pos_costBasis pos)"
  let ?cc = "div64 (pos_costBasis pos * ?c) (abs64 (pos_qty pos))"
  note d = fill_room_delta [OF room] and f = reduce_facts [OF room reduce]
  have q: "0 < ?Q" "0 \<le> lo" "1 \<le> hi" and W: "0 < ?W"
    using room part by (auto simp: fill_room_def)
  have B: "lo * ?W \<le> ?B" "?B \<le> hi * ?W" "0 \<le> ?B"
    using band in_band_basis [OF band q(2)] by (auto simp: in_band_def)
  have "hi * ?W * ?W \<le> hi * (?W + ?Q) * (?W + ?Q)" using q by (intro mult_mono) auto
  also have "hi * (?W + ?Q) * (?W + ?Q) < 2 ^ 63" using room by (simp add: fill_room_def)
  finally have "sint (pos_costBasis pos * ?c) = ?B * ?Q"
    using sint_mult_le(1) [of "pos_costBasis pos" "hi * ?W" ?c ?W] B f part q by simp
  then have cc: "sint ?cc = ?B * ?Q div ?W"
    using sint_div64 [of "pos_costBasis pos * ?c" "abs64 (pos_qty pos)"] d(4) B(3) q(1) W by simp
  have bc: "lo * (?W - ?Q) \<le> ?B - ?B * ?Q div ?W" "?B - ?B * ?Q div ?W \<le> hi * (?W - ?Q)"
    using band_close [of ?W ?Q lo ?B hi] W part B by auto
  have "0 \<le> lo * (?W - ?Q)" "0 \<le> ?B * ?Q div ?W"
    using q part B W by (simp_all add: pos_imp_zdiv_nonneg_iff)
  then have "sint (pos_costBasis pos - ?cc) = ?B - ?B * ?Q div ?W"
    using cc bc by (subst sint_take_away) auto
  moreover have "?c \<noteq> abs64 (pos_qty pos)"
  proof
    assume "?c = abs64 (pos_qty pos)"
    then have "sint ?c = ?W" using d(4) by simp
    then show False using f(1) part by simp
  qed
  moreover have "pos_qty pos + delta \<noteq> 0" using f(2) part by auto
  ultimately show ?thesis using reduce bc f part
    by (simp add: settle_def in_band_def Let_def)
qed

lemma settle_band:
  assumes room: "fill_room lo hi pos delta price qty" and band: "in_band lo hi pos"
  shows "in_band lo hi (fst (settle pos delta price qty r))"
proof (cases "pos_qty pos = 0 \<or> sameSign (pos_qty pos) delta")
  case True
  with room band show ?thesis by (rule settle_band_open_add)
next
  case False
  then have reduce: "pos_qty pos \<noteq> 0" "\<not> sameSign (pos_qty pos) delta" by auto
  note f = reduce_facts [OF room reduce]
  consider "sint qty < \<bar>sint (pos_qty pos)\<bar>" | "sint qty = \<bar>sint (pos_qty pos)\<bar>"
    | "\<bar>sint (pos_qty pos)\<bar> < sint qty" by linarith
  then show ?thesis
  proof cases
    case 1
    with room band reduce show ?thesis by (rule settle_band_partial)
  next
    case 2
    then have "pos_qty pos + delta = 0" using f(2) by (simp add: sint_zero_iff)
    then show ?thesis using reduce by (simp add: settle_def in_band_def Let_def)
  next
    case 3
    then have "pos_qty pos + delta \<noteq> 0" using f(2) by auto
    then show ?thesis
      using reduce f 3 fill_room_cost [OF room, of "abs64 (pos_qty pos + delta)"]
      by (simp add: settle_def in_band_def Let_def)
  qed
qed

text \<open>The displayed average of an open position in the band lies in the band.\<close>

lemma position_view_band:
  assumes band: "in_band lo hi p" and lo: "0 \<le> lo" and open_p: "pos_qty p \<noteq> 0"
    and rng: "- (2 ^ 63) < sint (pos_qty p)"
  shows "lo \<le> sint (pv_AvgPriceTicks (position_view s p))"
    and "sint (pv_AvgPriceTicks (position_view s p)) \<le> hi"
proof -
  let ?W = "\<bar>sint (pos_qty p)\<bar>"
  have W: "0 < ?W" "sint (abs64 (pos_qty p)) = ?W"
    using open_p rng by (simp_all add: sint_zero_iff sint_abs64)
  then have avg: "sint (pv_AvgPriceTicks (position_view s p)) = sint (pos_costBasis p) div ?W"
    using in_band_basis [OF band lo] by (simp add: position_view_def sint_div64)
  have "lo * ?W div ?W \<le> sint (pos_costBasis p) div ?W" "sint (pos_costBasis p) div ?W \<le> hi * ?W div ?W"
    using band W(1) by (auto simp only: in_band_def intro!: zdiv_mono1)
  then show "lo \<le> sint (pv_AvgPriceTicks (position_view s p))"
    and "sint (pv_AvgPriceTicks (position_view s p)) \<le> hi"
    using W avg by auto
qed

end
