(* ===== verification/EngineLedger.thy ===== *)
theory EngineLedger
  imports EngineInvariants LedgerBounds
begin

text \<open>
  The whole of \<open>SubmitOrder\<close> against its reference: the answer, the books, the ledger and the
  mark price are those of the greedy allocation. On top of it the ledger's invariants: cash
  is conserved, positions are zero-sum, every account reconciles.
\<close>

section \<open>SubmitOrder against the reference\<close>

definition leftover :: "NewOrder \<Rightarrow> (restingOrder \<times> i64) list \<Rightarrow> i64" where
  "leftover o' fs = no_Quantity o' - (\<Sum>(m, f)\<leftarrow>fs. f)"

definition spec_ack :: "LocalEngine \<Rightarrow> NewOrder \<Rightarrow> i64 \<Rightarrow> (restingOrder \<times> i64) list \<Rightarrow> OrderAck" where
  "spec_ack e o' now fs =
     \<lparr>ack_OrderID = order_id (le_orderID e + 1),
      ack_Status = statusFor (no_Type o') (no_Quantity o') (\<Sum>(m, f)\<leftarrow>fs. f) (leftover o' fs),
      ack_FilledQuantity = (\<Sum>(m, f)\<leftarrow>fs. f),
      ack_Reason = reasonFor (no_Type o') (\<Sum>(m, f)\<leftarrow>fs. f),
      ack_Trades = trades_of (order_id (le_orderID e + 1)) o' now (le_tradeID e) fs\<rparr>"

definition rests :: "NewOrder \<Rightarrow> (restingOrder \<times> i64) list \<Rightarrow> bool" where
  "rests o' fs \<longleftrightarrow> 0 <s leftover o' fs \<and> no_Type o' = OrderTypeLimit"

definition resting_part :: "LocalEngine \<Rightarrow> NewOrder \<Rightarrow> (restingOrder \<times> i64) list \<Rightarrow> restingOrder list" where
  "resting_part e o' fs =
     (if rests o' fs
      then [\<lparr>ro_id = order_id (le_orderID e + 1), ro_accountID = no_AccountID o', ro_side = no_Side o',
             ro_price = no_PriceTicks o', ro_remaining = leftover o' fs, ro_seq = le_seq e + 1\<rparr>]
      else [])"

definition spec_books ::
  "LocalEngine \<Rightarrow> NewOrder \<Rightarrow> (restingOrder \<times> i64) list \<Rightarrow> string \<Rightarrow> restingOrder list" where
  "spec_books e o' fs s =
     (if s = no_Symbol o' then deplete fs (orders_of e s) @ resting_part e o' fs else orders_of e s)"

lemma allocation_frame:
  "(\<And>s. orders_of e' s = orders_of e s) \<Longrightarrow> allocation o' r e' = allocation o' r e"
  by (simp add: allocation_def)

lemma submitLocked_refines:
  assumes ok: "book_ok (orders_of e (no_Symbol o'))"
  defines "fs \<equiv> allocation o' (no_Quantity o') e"
  assumes result: "submitLocked oid o' now e = (ack, e')"
  shows "ack = \<lparr>ack_OrderID = oid,
      ack_Status = statusFor (no_Type o') (no_Quantity o') (\<Sum>(m, f)\<leftarrow>fs. f) (leftover o' fs),
      ack_FilledQuantity = (\<Sum>(m, f)\<leftarrow>fs. f), ack_Reason = reasonFor (no_Type o') (\<Sum>(m, f)\<leftarrow>fs. f),
      ack_Trades = trades_of oid o' now (le_tradeID e) fs\<rparr>"
    and "orders_of e' s = (if s = no_Symbol o' then deplete fs (orders_of e s) @
        (if rests o' fs then [\<lparr>ro_id = oid, ro_accountID = no_AccountID o', ro_side = no_Side o',
           ro_price = no_PriceTicks o', ro_remaining = leftover o' fs, ro_seq = le_seq e + 1\<rparr>] else [])
      else orders_of e s)"
    and "le_accounts e' = book_fills o' fs (le_accounts e)"
    and "le_lastPrice e' = last_mark o' fs (le_lastPrice e)"
    and "le_tradeID e' = le_tradeID e + of_nat (length fs)" and "le_orderID e' = le_orderID e"
    and "le_seq e' = (if rests o' fs then le_seq e + 1 else le_seq e)"
proof -
  obtain b e0 where bk: "book e (no_Symbol o') = (b, e0)" by force
  then have e0: "e0 = snd (book e (no_Symbol o'))" by simp
  obtain r ts e1 where loop: "matchLoop oid o' now (no_Quantity o') [] e0 = (r, ts, e1)"
    by (metis prod_cases3)
  have "allocation o' (no_Quantity o') e0 = fs" unfolding e0 fs_def by (rule allocation_frame) simp
  then have "carries_out oid o' now fs (no_Quantity o', [], e0) (r, ts, e1)"
    using matchLoop_refines [of e0 o' oid now "no_Quantity o'" "[]"] ok loop e0 by simp
  then have c: "r = leftover o' fs" "ts = trades_of oid o' now (le_tradeID e) fs"
    "orders_of e1 (no_Symbol o') = deplete fs (orders_of e (no_Symbol o'))"
    "\<And>s. s \<noteq> no_Symbol o' \<Longrightarrow> orders_of e1 s = orders_of e s"
    "le_accounts e1 = book_fills o' fs (le_accounts e)"
    "le_lastPrice e1 = last_mark o' fs (le_lastPrice e)"
    "le_tradeID e1 = le_tradeID e + of_nat (length fs)" "le_orderID e1 = le_orderID e" "le_seq e1 = le_seq e"
    by (auto simp: carries_out_def e0 leftover_def)
  have "submitLocked oid o' now e =
      (\<lparr>ack_OrderID = oid, ack_Status = statusFor (no_Type o') (no_Quantity o') (no_Quantity o' - r) r,
         ack_FilledQuantity = no_Quantity o' - r, ack_Reason = reasonFor (no_Type o') (no_Quantity o' - r),
         ack_Trades = ts\<rparr>,
       if 0 <s r \<and> no_Type o' = OrderTypeLimit then set_orders (e1\<lparr>le_seq := le_seq e1 + 1\<rparr>) (no_Symbol o')
         (orders_of e1 (no_Symbol o') @ [\<lparr>ro_id = oid, ro_accountID = no_AccountID o', ro_side = no_Side o',
            ro_price = no_PriceTicks o', ro_remaining = r, ro_seq = le_seq e1 + 1\<rparr>]) else e1)"
    by (simp add: submitLocked_def bk loop nextSeq_def Let_def)
  moreover have "no_Quantity o' - r = (\<Sum>(m, f)\<leftarrow>fs. f)" by (simp add: c(1) leftover_def)
  ultimately have both: "(ack, e') =
      (\<lparr>ack_OrderID = oid, ack_Status = statusFor (no_Type o') (no_Quantity o') (\<Sum>(m, f)\<leftarrow>fs. f) (leftover o' fs),
         ack_FilledQuantity = (\<Sum>(m, f)\<leftarrow>fs. f), ack_Reason = reasonFor (no_Type o') (\<Sum>(m, f)\<leftarrow>fs. f),
         ack_Trades = trades_of oid o' now (le_tradeID e) fs\<rparr>,
       if rests o' fs then set_orders (e1\<lparr>le_seq := le_seq e1 + 1\<rparr>) (no_Symbol o')
         (orders_of e1 (no_Symbol o') @ [\<lparr>ro_id = oid, ro_accountID = no_AccountID o', ro_side = no_Side o',
            ro_price = no_PriceTicks o', ro_remaining = leftover o' fs, ro_seq = le_seq e1 + 1\<rparr>]) else e1)"
    unfolding result [symmetric] rests_def c(1) [symmetric] c(2) [symmetric] by simp
  from both show "ack = \<lparr>ack_OrderID = oid,
      ack_Status = statusFor (no_Type o') (no_Quantity o') (\<Sum>(m, f)\<leftarrow>fs. f) (leftover o' fs),
      ack_FilledQuantity = (\<Sum>(m, f)\<leftarrow>fs. f), ack_Reason = reasonFor (no_Type o') (\<Sum>(m, f)\<leftarrow>fs. f),
      ack_Trades = trades_of oid o' now (le_tradeID e) fs\<rparr>"
    by (rule Pair_inject)
  from both have e': "e' = (if rests o' fs then set_orders (e1\<lparr>le_seq := le_seq e1 + 1\<rparr>) (no_Symbol o')
      (orders_of e1 (no_Symbol o') @ [\<lparr>ro_id = oid, ro_accountID = no_AccountID o', ro_side = no_Side o',
         ro_price = no_PriceTicks o', ro_remaining = leftover o' fs, ro_seq = le_seq e1 + 1\<rparr>]) else e1)"
    by (rule Pair_inject)
  show "orders_of e' s = (if s = no_Symbol o' then deplete fs (orders_of e s) @
        (if rests o' fs then [\<lparr>ro_id = oid, ro_accountID = no_AccountID o', ro_side = no_Side o',
           ro_price = no_PriceTicks o', ro_remaining = leftover o' fs, ro_seq = le_seq e + 1\<rparr>] else [])
      else orders_of e s)"
    using c by (simp add: e')
  show "le_accounts e' = book_fills o' fs (le_accounts e)"
    and "le_lastPrice e' = last_mark o' fs (le_lastPrice e)"
    and "le_tradeID e' = le_tradeID e + of_nat (length fs)" and "le_orderID e' = le_orderID e"
    and "le_seq e' = (if rests o' fs then le_seq e + 1 else le_seq e)"
    using c by (simp_all add: e')
qed

text \<open>The call as its client sees it.\<close>

lemma SubmitOrder_spec:
  assumes ok: "books_ok e" and guards: "passes_guards o'"
    and fs: "fs = allocation o' (no_Quantity o') e"
    and result: "SubmitOrder e None o' now = (answer, e')"
  shows "answer = Inr (spec_ack e o' now fs)" and "orders_of e' = spec_books e o' fs"
    and "le_accounts e' = book_fills o' fs (le_accounts e)"
    and "le_lastPrice e' = last_mark o' fs (le_lastPrice e)"
    and "le_orderID e' = le_orderID e + 1" and "le_tradeID e' = le_tradeID e + of_nat (length fs)"
    and "le_seq e' = (if rests o' fs then le_seq e + 1 else le_seq e)"
proof -
  let ?e1 = "snd (nextOrderID e)" and ?oid = "fst (nextOrderID e)"
  have c: "le_orderID ?e1 = le_orderID e + 1" "le_seq ?e1 = le_seq e" "le_tradeID ?e1 = le_tradeID e"
    "le_accounts ?e1 = le_accounts e" "le_lastPrice ?e1 = le_lastPrice e" "?oid = order_id (le_orderID e + 1)"
    by (simp_all add: nextOrderID_def order_id_def)
  have bk: "book_ok (orders_of ?e1 (no_Symbol o'))" using books_ok_book [OF ok] by simp
  obtain ack where "answer = Inr ack" "submitLocked ?oid o' now ?e1 = (ack, e')"
    using result guards by (auto simp: SubmitOrder_locked prod_eq_iff)
  note r = this(1) submitLocked_refines [OF bk this(2)]
  have al: "allocation o' (no_Quantity o') ?e1 = fs" unfolding fs by (rule allocation_frame) simp
  show "answer = Inr (spec_ack e o' now fs)" by (simp only: r(1,2) al c spec_ack_def)
  show "orders_of e' = spec_books e o' fs"
    using r(3) by (auto simp: al c spec_books_def resting_part_def fun_eq_iff)
  show "le_accounts e' = book_fills o' fs (le_accounts e)"
    and "le_lastPrice e' = last_mark o' fs (le_lastPrice e)"
    and "le_orderID e' = le_orderID e + 1" and "le_tradeID e' = le_tradeID e + of_nat (length fs)"
    and "le_seq e' = (if rests o' fs then le_seq e + 1 else le_seq e)"
    using r(4-) by (simp_all add: al c)
qed

section \<open>Conservation\<close>

text \<open>Cash over the opening balances, and the net holding of a symbol, over all accounts.\<close>

definition net_cash :: "accounts \<Rightarrow> i64" where
  "net_cash m = (\<Sum>a\<in>dom m. cash_of m a - StartingCashTicks)"

definition net_holding :: "accounts \<Rightarrow> string \<Rightarrow> i64" where
  "net_holding m s = (\<Sum>a\<in>dom m. qty_of m a s)"

lemma book_fills_finite: "finite (dom m) \<Longrightarrow> finite (dom (book_fills o' fs m))"
  by (induction o' fs m rule: book_fills.induct) auto

lemma book_fills_conserves:
  assumes "valid_side (no_Side o')" and "finite (dom m)"
  shows "net_cash (book_fills o' fs m) = net_cash m"
    and "net_holding (book_fills o' fs m) s = net_holding m s"
proof -
  have "net_cash (book_fills o' fs m) = net_cash m \<and> net_holding (book_fills o' fs m) s = net_holding m s"
    using assms
  proof (induction o' fs m rule: book_fills.induct)
    case (1 o' m)
    then show ?case by simp
  next
    case (2 o' mk f fs m)
    let ?m = "applyFill (applyFill m (no_AccountID o') (no_Symbol o') (no_Side o') (ro_price mk) f)
      (ro_accountID mk) (no_Symbol o') (opposite (no_Side o')) (ro_price mk) f"
    have "finite (dom ?m)" using 2(3) by simp
    with 2 have "net_cash (book_fills o' fs ?m) = net_cash ?m \<and> net_holding (book_fills o' fs ?m) s = net_holding ?m s"
      by blast
    moreover have "net_cash ?m = net_cash m" unfolding net_cash_def
      by (rule ledger.execution_conserves_cash [OF 2(3,2) refl])
    moreover have "net_holding ?m s = net_holding m s" unfolding net_holding_def
      by (rule ledger.execution_zero_sum [OF 2(3,2) refl])
    ultimately show ?case by simp
  qed
  then show "net_cash (book_fills o' fs m) = net_cash m"
    and "net_holding (book_fills o' fs m) s = net_holding m s" by auto
qed

text \<open>
  A side that is neither documented one is booked like a buy, and so is its opposite: every unit
  filled adds two to the holdings and takes its price twice from the cash.
\<close>

definition fill_value :: "(restingOrder \<times> i64) list \<Rightarrow> i64" where
  "fill_value fs = (\<Sum>(mk, f)\<leftarrow>fs. ro_price mk * f)"

lemma book_fills_undocumented:
  assumes "\<not> valid_side (no_Side o')" and "finite (dom m)"
  shows "net_cash (book_fills o' fs m) = net_cash m - 2 * fill_value fs \<and>
    net_holding (book_fills o' fs m) s = net_holding m s + (if s = no_Symbol o' then 2 * (\<Sum>(mk, f)\<leftarrow>fs. f) else 0)"
  using assms
proof (induction o' fs m rule: book_fills.induct)
  case (1 o' m)
  then show ?case by (simp add: fill_value_def)
next
  case (2 o' mk f fs m)
  let ?m1 = "applyFill m (no_AccountID o') (no_Symbol o') (no_Side o') (ro_price mk) f"
  let ?m = "applyFill ?m1 (ro_accountID mk) (no_Symbol o') (opposite (no_Side o')) (ro_price mk) f"
  have sg: "signed_qty (no_Side o') f = f" "signed_qty (opposite (no_Side o')) f = f"
    using 2(2) by (auto simp: valid_side_def opposite_def signed_qty_def SideBuy_def SideSell_def)
  have fin: "finite (dom ?m1)" "finite (dom ?m)" using 2(3) by simp_all
  have "net_cash ?m = net_cash m - 2 * (ro_price mk * f)"
    unfolding net_cash_def ledger.net_cash_fill [OF fin(1)] ledger.net_cash_fill [OF 2(3)] sg
    by (simp add: algebra_simps)
  moreover have "net_holding ?m s = net_holding m s + (if s = no_Symbol o' then 2 * f else 0)"
    unfolding net_holding_def ledger.net_holding_fill [OF fin(1)] ledger.net_holding_fill [OF 2(3)] sg
    by (simp add: algebra_simps)
  ultimately show ?case using 2(1) [OF 2(2) fin(2)] by (simp add: fill_value_def algebra_simps)
qed

section \<open>Accounts reconcile\<close>

text \<open>
  The ledger's invariant, with a bound on every position: \<open>V\<close> is the volume traded so far. As
  long as it fits an \<open>int64\<close>, no position's size wraps and every account reconciles.
\<close>

definition ledger_ok :: "int \<Rightarrow> accounts \<Rightarrow> bool" where
  "ledger_ok V m \<longleftrightarrow> finite (dom m) \<and> (\<forall>a. finite (dom (positions_of m a))) \<and>
     (\<forall>a. account_reconciles m a) \<and> (\<forall>a s. \<bar>sint (qty_of m a s)\<bar> \<le> V)"

lemma ledger_ok_empty: "ledger_ok 0 Map.empty"
  by (simp add: ledger_ok_def account_reconciles_def cash_of_def realized_of_def positions_of_def
    qty_of_def position_of_def new_position_def)

lemma signed_qty_size:
  "0 < sint f \<Longrightarrow> \<bar>sint (signed_qty side f)\<bar> = sint f \<and> signed_qty side f \<noteq> 0" for f :: i64
  using i64_range [of f] by (auto simp: signed_qty_def sint_i64_uminus)

lemma applyFill_fits:
  assumes fin: "\<forall>a. finite (dom (positions_of m a))" and rec: "\<forall>a. account_reconciles m a"
    and f: "0 < sint f" and room: "\<bar>sint (qty_of m a s)\<bar> + sint f < 2 ^ 63"
  shows "\<forall>b. finite (dom (positions_of (applyFill m a s side p f) b))"
    and "\<forall>b. account_reconciles (applyFill m a s side p f) b"
    and "\<bar>sint (qty_of (applyFill m a s side p f) a s)\<bar> \<le> \<bar>sint (qty_of m a s)\<bar> + sint f"
    and "b \<noteq> a \<or> t \<noteq> s \<Longrightarrow> qty_of (applyFill m a s side p f) b t = qty_of m b t"
proof -
  note sz = signed_qty_size [OF f, of side]
  show "\<forall>b. finite (dom (positions_of (applyFill m a s side p f) b))"
    using fin by (simp add: positions_of_applyFill)
  have "fill_in_range (position_of m a s) (signed_qty side f)"
    using sz room by (auto simp: fill_in_range_def qty_of_def)
  then show "\<forall>b. account_reconciles (applyFill m a s side p f) b"
    using rec fin f by (blast intro: applyFill_reconciles)
  have "sint (qty_of m a s + signed_qty side f) = sint (qty_of m a s) + sint (signed_qty side f)"
    using sz room by (intro sint_i64_add) auto
  then show "\<bar>sint (qty_of (applyFill m a s side p f) a s)\<bar> \<le> \<bar>sint (qty_of m a s)\<bar> + sint f"
    using sz abs_triangle_ineq [of "sint (qty_of m a s)" "sint (signed_qty side f)"]
    by (simp add: qty_of_applyFill)
  show "b \<noteq> a \<or> t \<noteq> s \<Longrightarrow> qty_of (applyFill m a s side p f) b t = qty_of m b t"
    by (auto simp: qty_of_applyFill)
qed

lemma execution_ledger_ok:
  assumes ok: "ledger_ok V m" and f: "0 < sint f" and room: "V + sint f < 2 ^ 63" and ab: "b \<noteq> a"
  shows "ledger_ok (V + sint f) (applyFill (applyFill m a s side p f) b s side' p f)"
proof -
  let ?m1 = "applyFill m a s side p f"
  let ?m2 = "applyFill ?m1 b s side' p f"
  have pre: "\<forall>a. finite (dom (positions_of m a))" "\<forall>a. account_reconciles m a"
    and bnd: "\<bar>sint (qty_of m c t)\<bar> \<le> V" for c t
    using ok by (auto simp: ledger_ok_def)
  have "\<bar>sint (qty_of m a s)\<bar> + sint f < 2 ^ 63"
    using bnd [of a s] room by linarith
  note one = applyFill_fits [OF pre f this, where side = side and p = p]
  have b1: "qty_of ?m1 b t = qty_of m b t" for t using ab by (simp add: qty_of_applyFill)
  have "\<bar>sint (qty_of ?m1 b s)\<bar> + sint f < 2 ^ 63" unfolding b1 using bnd [of b s] room by linarith
  note two = applyFill_fits [OF one(1,2) f this, where side = side' and p = p]
  have "\<bar>sint (qty_of ?m2 c t)\<bar> \<le> V + sint f" for c t
  proof (cases "t = s \<and> (c = a \<or> c = b)")
    case True
    then show ?thesis using one(3) two(3,4) b1 bnd [of c s] ab by (smt (verit))
  next
    case False
    then have "qty_of ?m2 c t = qty_of m c t" by (auto simp: qty_of_applyFill)
    then show ?thesis using bnd [of c t] f by simp
  qed
  then show ?thesis using ok two(1,2) by (simp add: ledger_ok_def)
qed

lemma ledger_ok_mono: "ledger_ok V m \<Longrightarrow> V \<le> W \<Longrightarrow> ledger_ok W m"
  unfolding ledger_ok_def by (meson order_trans)

lemma book_fills_ledger_ok:
  assumes "ledger_ok V m" and "V + (\<Sum>(mk, f)\<leftarrow>fs. sint f) < 2 ^ 63"
    and "\<forall>(mk, f)\<in>set fs. ro_accountID mk \<noteq> no_AccountID o' \<and> 0 < sint f"
  shows "ledger_ok (V + (\<Sum>(mk, f)\<leftarrow>fs. sint f)) (book_fills o' fs m)"
  using assms
proof (induction fs arbitrary: V m)
  case Nil
  then show ?case by simp
next
  case (Cons x fs)
  obtain mk f where x: "x = (mk, f)" by force
  have nn: "0 \<le> (\<Sum>(mk, f)\<leftarrow>fs. sint f)"
    using Cons.prems(3) by (intro sum_list_nonneg) auto
  let ?m = "applyFill (applyFill m (no_AccountID o') (no_Symbol o') (no_Side o') (ro_price mk) f)
      (ro_accountID mk) (no_Symbol o') (opposite (no_Side o')) (ro_price mk) f"
  have "ledger_ok (V + sint f) ?m"
    using Cons.prems nn by (intro execution_ledger_ok) (auto simp: x)
  then have "ledger_ok (V + sint f + (\<Sum>(mk, f)\<leftarrow>fs. sint f)) (book_fills o' fs ?m)"
    using Cons.prems by (intro Cons.IH) (auto simp: x)
  then show ?case by (simp add: x add.assoc)
qed

text \<open>One call adds at most its own quantity to the volume.\<close>

definition order_volume :: "NewOrder \<Rightarrow> int" where
  "order_volume o' = (if passes_guards o' then sint (no_Quantity o') else 0)"

lemma order_volume_nonneg [simp]: "0 \<le> order_volume o'"
  by (simp add: order_volume_def passes_guards_def)

lemma SubmitOrder_accounts:
  assumes "books_ok e"
  shows "le_accounts (snd (SubmitOrder e ctxErr o' now)) =
    (if ctxErr = None \<and> passes_guards o'
     then book_fills o' (allocation o' (no_Quantity o') e) (le_accounts e) else le_accounts e)"
proof (cases rule: SubmitOrder_cases [where ctxErr = ctxErr and o' = o'])
  case (err err)
  then show ?thesis by (simp add: SubmitOrder_err)
next
  case refused
  then show ?thesis by (simp add: SubmitOrder_refused nextOrderID_def)
next
  case locked
  then show ?thesis
    using SubmitOrder_spec(3) [OF assms locked(2) refl, of now] by (metis prod.collapse)
qed

lemma allocation_fills:
  assumes "books_ok e"
  shows "\<forall>(mk, f)\<in>set (allocation o' q e). ro_accountID mk \<noteq> no_AccountID o' \<and> 0 < sint f"
  using allocation_facts [OF books_ok_book [OF assms]] by auto

lemma allocation_volume:
  assumes "books_ok e" and "0 \<le> sint q"
  shows "(\<Sum>(mk, f)\<leftarrow>allocation o' q e. sint f) \<le> sint q"
  using allocation_total(1) [OF books_ok_book [OF assms(1)] assms(2)] by simp

theorem SubmitOrder_ledger_ok:
  assumes ok: "books_ok e" and led: "ledger_ok V (le_accounts e)" and room: "V + order_volume o' < 2 ^ 63"
  shows "ledger_ok (V + order_volume o') (le_accounts (snd (SubmitOrder e ctxErr o' now)))"
proof (cases "ctxErr = None \<and> passes_guards o'")
  case True
  let ?fs = "allocation o' (no_Quantity o') e"
  have vol: "(\<Sum>(mk, f)\<leftarrow>?fs. sint f) \<le> order_volume o'"
    using True allocation_volume [OF ok] by (auto simp: order_volume_def passes_guards_def)
  then have "ledger_ok (V + (\<Sum>(mk, f)\<leftarrow>?fs. sint f)) (book_fills o' ?fs (le_accounts e))"
    using led room allocation_fills [OF ok] by (intro book_fills_ledger_ok) auto
  then have "ledger_ok (V + order_volume o') (book_fills o' ?fs (le_accounts e))"
    by (rule ledger_ok_mono) (use vol in simp)
  then show ?thesis using True by (simp add: SubmitOrder_accounts [OF ok])
next
  case False
  then have "le_accounts (snd (SubmitOrder e ctxErr o' now)) = le_accounts e"
    by (simp only: SubmitOrder_accounts [OF ok] if_False)
  then show ?thesis using ledger_ok_mono [OF led] by simp
qed

theorem SubmitOrder_conserves:
  assumes ok: "books_ok e" and side: "valid_side (no_Side o')" and fin: "finite (dom (le_accounts e))"
  shows "net_cash (le_accounts (snd (SubmitOrder e ctxErr o' now))) = net_cash (le_accounts e)"
    and "net_holding (le_accounts (snd (SubmitOrder e ctxErr o' now))) s = net_holding (le_accounts e) s"
  using book_fills_conserves [OF side fin] by (simp_all add: SubmitOrder_accounts [OF ok])

lemma CancelOrder_accounts: "le_accounts (snd (CancelOrder e ctxErr c syms)) = le_accounts e"
  using cancelScan_engine [of c e syms]
  by (auto simp: CancelOrder_def split: option.split prod.split)

lemma CancelOrder_counters:
  "le_orderID (snd (CancelOrder e ctxErr c syms)) = le_orderID e"
  "le_tradeID (snd (CancelOrder e ctxErr c syms)) = le_tradeID e"
  "le_seq (snd (CancelOrder e ctxErr c syms)) = le_seq e"
  using cancelScan_engine [of c e syms]
  by (auto simp: CancelOrder_def split: option.split prod.split)

lemma GetBook_accounts: "le_accounts (snd (GetBook e ctxErr r now bk ak)) = le_accounts e"
  by (simp add: GetBook_engine)

lemma seedPair_accounts: "le_accounts (seedPair symbol e i) = le_accounts e"
  by (simp add: seedPair_def nextOrderID_def nextSeq_def Let_def)

lemma NewLocalEngine_accounts: "le_accounts (NewLocalEngine syms) = Map.empty"
proof -
  have "le_accounts (foldl (seedPair symbol) e is) = le_accounts e" for symbol e "is"
    by (induction "is" arbitrary: e) (simp_all add: seedPair_accounts)
  then have "le_accounts (seedBook e s) = le_accounts e" for e s unfolding seedBook_def by (simp only: book_frame)
  then have "le_accounts (foldl seedBook e syms) = le_accounts e" for e
    by (induction syms arbitrary: e) simp_all
  then show ?thesis by (simp add: NewLocalEngine_def empty_engine_def)
qed

end
