(* ===== verification/CancelView.thy ===== *)
theory CancelView
  imports EngineLedger
begin

text \<open>
  The two other operations of the engine against their references. \<open>CancelOrder\<close> ranges over
  a map of books, so the order in which the runtime visits them is open: because ids are
  unique over all books its answer does not depend on that order. \<open>GetBook\<close> shows the
  aggregated levels of each side, best first, whatever the order of its map ranges.
\<close>

section \<open>Cancelling\<close>

text \<open>An id names one resting order of one book.\<close>

lemma same_order:
  assumes ok: "books_ok e" and "ro \<in> set (orders_of e s)" and "ro' \<in> set (orders_of e t)" and "ro_id ro = ro_id ro'"
  shows "s = t" and "ro = ro'"
proof -
  have disj: "s \<noteq> t \<longrightarrow> ro_id ` set (orders_of e s) \<inter> ro_id ` set (orders_of e t) = {}"
    using ok by (simp add: books_ok_def ids_ok_def)
  then show st: "s = t" using assms(2-4) by (metis IntI empty_iff image_eqI)
  have "inj_on ro_id (set (orders_of e t))"
    using book_ok_ids [OF books_ok_book [OF ok, of t]] by (simp add: distinct_map)
  then show "ro = ro'" using assms(2-4) st by (simp add: inj_on_def)
qed

lemma find_order:
  assumes "books_ok e" and "ro \<in> set (orders_of e s)"
  shows "find (\<lambda>r. ro_id r = ro_id ro) (orders_of e t) = (if t = s then Some ro else None)"
proof (cases "find (\<lambda>r. ro_id r = ro_id ro) (orders_of e t)")
  case None
  then have "\<forall>r\<in>set (orders_of e t). ro_id r \<noteq> ro_id ro" by (simp add: find_None_iff)
  then show ?thesis using None assms(2) by auto
next
  case (Some r)
  then have "r \<in> set (orders_of e t)" "ro_id r = ro_id ro" by (auto simp: find_Some_iff)
  then show ?thesis using Some same_order [OF assms(1) _ assms(2)] by auto
qed

definition cancel_answer :: "CancelOrder \<Rightarrow> OrderStatus \<Rightarrow> string \<Rightarrow> OrderAck" where
  "cancel_answer c status reason =
     ack_zero\<lparr>ack_OrderID := co_OrderID c, ack_Status := status, ack_Reason := reason\<rparr>"

text \<open>May this request cancel that order? An empty account id is not checked.\<close>

definition may_cancel :: "CancelOrder \<Rightarrow> restingOrder \<Rightarrow> bool" where
  "may_cancel c ro \<longleftrightarrow> co_AccountID c = '''' \<or> ro_accountID ro = co_AccountID c"

lemma cancelScan_found:
  assumes ok: "books_ok e" and ro: "ro \<in> set (orders_of e s)" "ro_id ro = co_OrderID c" and s: "s \<in> set ss"
  shows "cancelScan c e ss =
    (if may_cancel c ro then (cancel_answer c StatusCancelled '''', set_orders e s (remove_order (orders_of e s) (co_OrderID c)))
     else (cancel_answer c StatusRejected ''not your order'', e))"
  using s
proof (induction ss)
  case Nil
  then show ?case by simp
next
  case (Cons t ss)
  then show ?case
    using find_order [OF ok ro(1), of t] ro(2)
    by (auto simp: may_cancel_def cancel_answer_def ack_zero_def)
qed

lemma cancelScan_absent:
  assumes "\<And>s. co_OrderID c \<notin> ro_id ` set (orders_of e s)"
  shows "cancelScan c e ss = (cancel_answer c StatusRejected ''order not found'', e)"
proof (induction ss)
  case Nil
  then show ?case by (simp add: cancel_answer_def)
next
  case (Cons s ss)
  have "find (\<lambda>ro. ro_id ro = co_OrderID c) (orders_of e s) = None"
    using assms [of s] by (force simp: find_None_iff)
  with Cons show ?case by simp
qed

lemma order_in_book: "ro \<in> set (orders_of e s) \<Longrightarrow> s \<in> dom (le_books e)"
  by (cases "le_books e s") (auto simp: orders_of_def)

text \<open>The books after a cancellation: the order is gone, everything else is as it was.\<close>

lemma remove_order_books:
  assumes ok: "books_ok e" and ro: "ro \<in> set (orders_of e s)" "ro_id ro = i"
  shows "orders_of (set_orders e s (remove_order (orders_of e s) i)) t =
    filter (\<lambda>r. ro_id r \<noteq> i) (orders_of e t)"
proof (cases "t = s")
  case True
  then show ?thesis using book_ok_ids [OF books_ok_book [OF ok]] by (simp add: remove_order_filter)
next
  case False
  then have "\<forall>r\<in>set (orders_of e t). ro_id r \<noteq> i"
    using same_order(1) [OF ok _ ro(1)] ro(2) by metis
  then show ?thesis using False by (simp add: filter_id_conv)
qed

lemma CancelOrder_found:
  assumes ok: "books_ok e" and ks: "range_keys (le_books e) syms" and i: "co_OrderID c \<noteq> ''''"
    and ro: "ro \<in> set (orders_of e s)" "ro_id ro = co_OrderID c" and may: "may_cancel c ro"
  shows "fst (CancelOrder e None c syms) = Inr (cancel_answer c StatusCancelled '''')"
    and "orders_of (snd (CancelOrder e None c syms)) t = filter (\<lambda>r. ro_id r \<noteq> co_OrderID c) (orders_of e t)"
proof -
  have "s \<in> set syms" using ks order_in_book [OF ro(1)] by (simp add: range_keys_def)
  note c = cancelScan_found [OF ok ro this]
  show "fst (CancelOrder e None c syms) = Inr (cancel_answer c StatusCancelled '''')"
    using c may i by (simp add: CancelOrder_def)
  have "snd (CancelOrder e None c syms) = set_orders e s (remove_order (orders_of e s) (co_OrderID c))"
    using c may i by (simp add: CancelOrder_def)
  then show "orders_of (snd (CancelOrder e None c syms)) t = filter (\<lambda>r. ro_id r \<noteq> co_OrderID c) (orders_of e t)"
    by (simp only: remove_order_books [OF ok ro])
qed

lemma CancelOrder_refused:
  assumes ok: "books_ok e" and ks: "range_keys (le_books e) syms" and i: "co_OrderID c \<noteq> ''''"
    and ro: "ro \<in> set (orders_of e s)" "ro_id ro = co_OrderID c" and may: "\<not> may_cancel c ro"
  shows "CancelOrder e None c syms = (Inr (cancel_answer c StatusRejected ''not your order''), e)"
proof -
  have "s \<in> set syms" using ks order_in_book [OF ro(1)] by (simp add: range_keys_def)
  then show ?thesis using cancelScan_found [OF ok ro] may i by (simp add: CancelOrder_def)
qed

lemma CancelOrder_absent:
  assumes "\<And>s. co_OrderID c \<notin> ro_id ` set (orders_of e s)" and "co_OrderID c \<noteq> ''''"
  shows "CancelOrder e None c syms = (Inr (cancel_answer c StatusRejected ''order not found''), e)"
  using assms by (simp add: CancelOrder_def cancelScan_absent)

text \<open>Whatever two runs of the runtime do: the same call answers the same and leaves the same engine.\<close>

lemma CancelOrder_order_free:
  assumes ok: "books_ok e" and "range_keys (le_books e) syms" and "range_keys (le_books e) syms'"
  shows "CancelOrder e ctxErr c syms = CancelOrder e ctxErr c syms'"
proof -
  have "cancelScan c e syms = cancelScan c e syms'"
  proof (cases "\<exists>s. co_OrderID c \<in> ro_id ` set (orders_of e s)")
    case True
    then obtain s ro where ro: "ro \<in> set (orders_of e s)" "ro_id ro = co_OrderID c" by auto
    then have "s \<in> set syms" "s \<in> set syms'"
      using assms(2,3) order_in_book by (simp_all add: range_keys_def)
    then show ?thesis using cancelScan_found [OF ok ro] by simp
  next
    case False
    then show ?thesis using cancelScan_absent [of c e] by simp
  qed
  then show ?thesis by (simp only: CancelOrder_def)
qed

section \<open>The book snapshot\<close>

text \<open>The two sides of the book as \<open>GetBook\<close> splits them, and the quantity at a price.\<close>

definition on_bid :: "restingOrder \<Rightarrow> bool" where
  "on_bid ro \<longleftrightarrow> ro_side ro = SideBuy"

definition on_ask :: "restingOrder \<Rightarrow> bool" where
  "on_ask ro \<longleftrightarrow> ro_side ro \<noteq> SideBuy"

definition qty_at :: "(restingOrder \<Rightarrow> bool) \<Rightarrow> restingOrder list \<Rightarrow> i64 \<Rightarrow> i64" where
  "qty_at side os p = (\<Sum>ro\<leftarrow>filter (\<lambda>ro. side ro \<and> ro_price ro = p) os. ro_remaining ro)"

definition prices :: "(restingOrder \<Rightarrow> bool) \<Rightarrow> restingOrder list \<Rightarrow> i64 list" where
  "prices side os = remdups (map ro_price (filter side os))"

definition price_key :: "bool \<Rightarrow> i64 \<Rightarrow> int" where
  "price_key descending p = (if descending then - sint p else sint p)"

text \<open>The reference: every price of the side once, best first, with all that rests there.\<close>

definition levels :: "bool \<Rightarrow> (restingOrder \<Rightarrow> bool) \<Rightarrow> restingOrder list \<Rightarrow> PriceLevel list" where
  "levels descending side os =
     map (\<lambda>p. \<lparr>pl_PriceTicks = p, pl_Quantity = qty_at side os p\<rparr>) (sort_key (price_key descending) (prices side os))"

lemma aggregate_spec:
  "map_get (fst (aggregate os bids asks)) p = map_get bids p + qty_at on_bid os p"
  "map_get (snd (aggregate os bids asks)) p = map_get asks p + qty_at on_ask os p"
  "dom (fst (aggregate os bids asks)) = dom bids \<union> set (prices on_bid os)"
  "dom (snd (aggregate os bids asks)) = dom asks \<union> set (prices on_ask os)"
  by (induction os arbitrary: bids asks)
    (auto simp: qty_at_def prices_def on_bid_def on_ask_def add.assoc)

lemma inj_price_key: "inj_on (price_key d) A"
  by (auto simp: inj_on_def price_key_def i64_eq_iff split: if_splits)

lemma sort_prices_unique:
  assumes "distinct ks" and "distinct ps" and "set ks = set ps"
  shows "sort_key (price_key d) ks = sort_key (price_key d) ps"
  using assms by (intro sorted_key_unique) (simp_all add: inj_price_key set_eq_iff_mset_eq_distinct)

lemma topLevels_spec:
  assumes "range_keys m ks"
  shows "topLevels m ks depth descending =
    take depth (map (\<lambda>p. \<lparr>pl_PriceTicks = p, pl_Quantity = map_get m p\<rparr>) (sort_key (price_key descending) ks))"
proof -
  let ?level = "\<lambda>p. \<lparr>pl_PriceTicks = p, pl_Quantity = map_get m p\<rparr>"
  have "level_before descending a b \<longleftrightarrow> price_key descending (pl_PriceTicks a) < price_key descending (pl_PriceTicks b)" for a b
    by (simp add: level_before_def price_key_def go_signed)
  then have "sort_slice (level_before descending) (map ?level ks) =
      sort_key (\<lambda>l. price_key descending (pl_PriceTicks l)) (map ?level ks)"
    by (rule sort_slice_key)
  also have "\<dots> = map ?level (sort_key (\<lambda>p. price_key descending (pl_PriceTicks (?level p))) ks)"
    by (rule sort_key_map)
  finally show ?thesis by (simp add: topLevels_def)
qed

lemma topLevels_levels:
  assumes "range_keys m ks" and "dom m = set (prices side os)" and "\<And>p. map_get m p = qty_at side os p"
  shows "topLevels m ks depth descending = take depth (levels descending side os)"
proof -
  have "sort_key (price_key descending) ks = sort_key (price_key descending) (prices side os)"
    using assms(1,2) by (intro sort_prices_unique) (simp_all add: range_keys_def prices_def)
  then show ?thesis by (simp add: topLevels_spec [OF assms(1)] levels_def assms(3))
qed

text \<open>The depth \<open>GetBook\<close> uses: the requested one, or five.\<close>

definition book_depth :: "BookRequest \<Rightarrow> nat" where
  "book_depth r = (if br_Depth r \<le>s 0 then 5 else nat (sint (br_Depth r)))"

text \<open>
  The keys of the two maps of \<open>GetBook\<close>: which orders of keys its ranges may take.
\<close>

definition view_keys :: "restingOrder list \<Rightarrow> i64 list \<Rightarrow> i64 list \<Rightarrow> bool" where
  "view_keys os bidKeys askKeys \<longleftrightarrow>
     range_keys (fst (aggregate os Map.empty Map.empty)) bidKeys \<and>
     range_keys (snd (aggregate os Map.empty Map.empty)) askKeys"

lemma GetBook_spec:
  assumes "view_keys (orders_of e (br_Symbol r)) bidKeys askKeys"
  shows "fst (GetBook e None r now bidKeys askKeys) =
    Inr \<lparr>bs_Symbol = br_Symbol r,
         bs_Bids = take (book_depth r) (levels True on_bid (orders_of e (br_Symbol r))),
         bs_Asks = take (book_depth r) (levels False on_ask (orders_of e (br_Symbol r))),
         bs_TsMillis = now\<rparr>"
proof -
  let ?os = "orders_of e (br_Symbol r)"
  obtain b e1 where bk: "book e (br_Symbol r) = (b, e1)" by force
  then have b: "ob_orders b = ?os" using ob_orders_book [of e "br_Symbol r"] by simp
  obtain bids asks where ag: "aggregate ?os Map.empty Map.empty = (bids, asks)" by force
  have rk: "range_keys bids bidKeys" "range_keys asks askKeys" using assms by (simp_all add: view_keys_def ag)
  have "dom bids = set (prices on_bid ?os)" "dom asks = set (prices on_ask ?os)"
    "\<And>p. map_get bids p = qty_at on_bid ?os p" "\<And>p. map_get asks p = qty_at on_ask ?os p"
    using aggregate_spec [of ?os Map.empty Map.empty] by (simp_all add: ag)
  note top = topLevels_levels [OF rk(1) this(1,3)] topLevels_levels [OF rk(2) this(2,4)]
  show ?thesis by (simp add: GetBook_def bk b ag top book_depth_def Let_def)
qed

text \<open>What the levels look like.\<close>

lemma sorted_price_key:
  "sorted_wrt (\<lambda>p q. price_key d p < price_key d q) (sort_key (price_key d) (prices side os))"
proof -
  let ?ps = "sort_key (price_key d) (prices side os)"
  have "distinct (map (price_key d) ?ps)"
    by (simp add: distinct_map inj_price_key prices_def)
  then have "sorted_wrt (<) (map (price_key d) ?ps)" by (simp add: strict_sorted_iff)
  then show ?thesis by (simp add: sorted_wrt_map)
qed

lemma levels_sorted:
  "sorted_wrt (\<lambda>a b. sint (pl_PriceTicks b) < sint (pl_PriceTicks a)) (levels True side os)"
  "sorted_wrt (\<lambda>a b. sint (pl_PriceTicks a) < sint (pl_PriceTicks b)) (levels False side os)"
  using sorted_price_key [of True side os] sorted_price_key [of False side os]
  by (simp_all add: levels_def sorted_wrt_map price_key_def)

lemma levels_complete:
  "set (levels d side os) =
     (\<lambda>p. \<lparr>pl_PriceTicks = p, pl_Quantity = qty_at side os p\<rparr>) ` ro_price ` {ro \<in> set os. side ro}"
  by (auto simp: levels_def prices_def)

text \<open>A level of an uncrossed book that another level locks or crosses is one account's own.\<close>

lemma levels_uncrossed:
  assumes "uncrossed os" and "bid \<in> set (levels True on_bid os)" and "ask \<in> set (levels False (\<lambda>ro. ro_side ro = SideSell) os)"
    and "sint (pl_PriceTicks ask) \<le> sint (pl_PriceTicks bid)"
  obtains b a where "b \<in> set os" "a \<in> set os" "ro_side b = SideBuy" "ro_side a = SideSell"
    "ro_price b = pl_PriceTicks bid" "ro_price a = pl_PriceTicks ask" "ro_accountID a = ro_accountID b"
proof -
  obtain b a where ba: "b \<in> set os" "ro_side b = SideBuy" "ro_price b = pl_PriceTicks bid"
    "a \<in> set os" "ro_side a = SideSell" "ro_price a = pl_PriceTicks ask"
    using assms(2,3) by (auto simp: levels_complete on_bid_def)
  then have "ro_accountID a = ro_accountID b" using assms(1,4) by (fastforce simp: uncrossed_def)
  with ba that show ?thesis by blast
qed

text \<open>Over the integers: no level wraps while all that rests on the book fits an \<open>int64\<close>.\<close>

lemma sum_in_range:
  fixes xs :: "restingOrder list"
  assumes "\<forall>ro\<in>set xs. 0 < sint (ro_remaining ro)" and "(\<Sum>ro\<leftarrow>xs. sint (ro_remaining ro)) < 2 ^ 63"
  shows "sint (\<Sum>ro\<leftarrow>xs. ro_remaining ro) = (\<Sum>ro\<leftarrow>xs. sint (ro_remaining ro))"
  using assms
proof (induction xs)
  case Nil
  then show ?case by simp
next
  case (Cons ro xs)
  have nn: "0 \<le> (\<Sum>ro\<leftarrow>xs. sint (ro_remaining ro))"
    using Cons.prems(1) by (intro sum_list_nonneg) auto
  then have "sint (\<Sum>ro\<leftarrow>xs. ro_remaining ro) = (\<Sum>ro\<leftarrow>xs. sint (ro_remaining ro))"
    using Cons.prems by (intro Cons.IH) auto
  then show ?case using Cons.prems nn by (simp add: sint_i64_add)
qed

lemma sum_filter_le:
  fixes xs :: "restingOrder list"
  assumes "\<forall>ro\<in>set xs. 0 < sint (ro_remaining ro)"
  shows "(\<Sum>ro\<leftarrow>filter P xs. sint (ro_remaining ro)) \<le> (\<Sum>ro\<leftarrow>xs. sint (ro_remaining ro))"
  using assms by (induction xs) auto

lemma qty_at_sum:
  assumes ok: "book_ok os" and room: "(\<Sum>ro\<leftarrow>os. sint (ro_remaining ro)) < 2 ^ 63"
  shows "sint (qty_at side os p) = (\<Sum>ro\<leftarrow>filter (\<lambda>ro. side ro \<and> ro_price ro = p) os. sint (ro_remaining ro))"
proof -
  have pos: "\<forall>ro\<in>set os. 0 < sint (ro_remaining ro)" using book_ok_pos(1) [OF ok] by blast
  have "(\<Sum>ro\<leftarrow>filter (\<lambda>ro. side ro \<and> ro_price ro = p) os. sint (ro_remaining ro)) < 2 ^ 63"
    by (rule le_less_trans [OF sum_filter_le [OF pos] room])
  then show ?thesis unfolding qty_at_def using pos by (intro sum_in_range) auto
qed

end
