(* ===== verification/EngineRun.thy ===== *)
theory EngineRun
  imports CancelView
begin

text \<open>
  The engine under a sequence of calls. A call is one operation with everything its outcome
  depends on: the request, the context's error, the clock, the order of the map ranges. The
  invariants of the books and of the ledger hold after every sequence of calls on a freshly
  built engine, as long as its counters and the volume traded fit an \<open>int64\<close>.
\<close>

section \<open>Calls\<close>

datatype call =
    Submit "string option" NewOrder i64
  | Cancel "string option" CancelOrder "string list"
  | ReadBook "string option" BookRequest i64 "i64 list" "i64 list"

fun perform :: "LocalEngine \<Rightarrow> call \<Rightarrow> LocalEngine" where
  "perform e (Submit ctxErr o' now) = snd (SubmitOrder e ctxErr o' now)"
| "perform e (Cancel ctxErr c syms) = snd (CancelOrder e ctxErr c syms)"
| "perform e (ReadBook ctxErr r now bidKeys askKeys) = snd (GetBook e ctxErr r now bidKeys askKeys)"

definition run :: "LocalEngine \<Rightarrow> call list \<Rightarrow> LocalEngine" where
  "run e cs = foldl perform e cs"

text \<open>Reachability as an inductive relation: the states a gateway's engine goes through.\<close>

inductive reaches :: "LocalEngine \<Rightarrow> call list \<Rightarrow> LocalEngine \<Rightarrow> bool" where
  stay: "reaches e [] e"
| more: "reaches e cs e' \<Longrightarrow> perform e' c = e'' \<Longrightarrow> reaches e (cs @ [c]) e''"

inductive_simps reaches_Nil [simp]: "reaches e [] e'"
inductive_cases reaches_snocE: "reaches e (cs @ [c]) e''"

lemma reaches_run: "reaches e cs e' \<longleftrightarrow> e' = run e cs"
proof
  show "reaches e cs e' \<Longrightarrow> e' = run e cs"
    by (induction rule: reaches.induct) (simp_all add: run_def)
  have "reaches e cs (run e cs)"
  proof (induction cs rule: rev_induct)
    case Nil
    then show ?case by (simp add: run_def)
  next
    case (snoc c cs)
    then show ?case by (rule more) (simp add: run_def)
  qed
  then show "e' = run e cs \<Longrightarrow> reaches e cs e'" by simp
qed

section \<open>Invariants along a run\<close>

definition call_volume :: "call \<Rightarrow> int" where
  "call_volume c = (case c of Submit ctxErr o' now \<Rightarrow> order_volume o' | _ \<Rightarrow> 0)"

definition volume :: "call list \<Rightarrow> int" where
  "volume cs = (\<Sum>c\<leftarrow>cs. call_volume c)"

lemma call_volume_nonneg [simp]: "0 \<le> call_volume c"
  by (simp add: call_volume_def split: call.split)

lemma volume_nonneg [simp]: "0 \<le> volume cs"
  unfolding volume_def by (rule sum_list_nonneg) auto

definition side_ok :: "call \<Rightarrow> bool" where
  "side_ok c \<longleftrightarrow> (case c of Submit ctxErr o' now \<Rightarrow> valid_side (no_Side o') | _ \<Rightarrow> True)"

lemma perform_books:
  assumes "books_ok e" and "counter_room 1 e"
  shows "books_ok (perform e c)" and "draws 1 e (perform e c)"
proof -
  have "draws 0 e e' \<Longrightarrow> draws 1 e e'" for e' by (simp add: draws_def)
  then show "books_ok (perform e c)" and "draws 1 e (perform e c)"
    using assms SubmitOrder_books CancelOrder_books GetBook_books by (cases c; simp)+
qed

lemma perform_ledger_ok:
  assumes "books_ok e" and "ledger_ok V (le_accounts e)" and "V + call_volume c < 2 ^ 63"
  shows "ledger_ok (V + call_volume c) (le_accounts (perform e c))"
  using assms SubmitOrder_ledger_ok
  by (cases c) (auto simp: call_volume_def CancelOrder_accounts GetBook_accounts)

lemma perform_conserves:
  assumes "books_ok e" and "finite (dom (le_accounts e))" and "side_ok c"
  shows "net_cash (le_accounts (perform e c)) = net_cash (le_accounts e)"
    and "net_holding (le_accounts (perform e c)) s = net_holding (le_accounts e) s"
  using assms SubmitOrder_conserves
  by (cases c; simp add: side_ok_def CancelOrder_accounts GetBook_accounts)+

text \<open>The engine's whole invariant, with the room its counters and its ledger have left.\<close>

definition engine_inv :: "nat \<Rightarrow> int \<Rightarrow> LocalEngine \<Rightarrow> bool" where
  "engine_inv n V e \<longleftrightarrow> books_ok e \<and> counter_room n e \<and> ledger_ok V (le_accounts e)"

lemma engine_inv_perform:
  assumes "engine_inv (Suc n) V e" and "V + call_volume c < 2 ^ 63"
  shows "engine_inv n (V + call_volume c) (perform e c)"
proof -
  have ok: "books_ok e" "ledger_ok V (le_accounts e)" and room: "counter_room (1 + n) e"
    using assms(1) by (simp_all add: engine_inv_def)
  have "counter_room 1 e" using room by (rule counter_room_le) simp
  note p = perform_books [OF ok(1) this]
  show ?thesis
    using p(1) draws_room [OF p(2) room] perform_ledger_ok [OF ok assms(2)] by (simp add: engine_inv_def)
qed

lemma engine_inv_run:
  assumes "engine_inv (n + length cs) V e" and "V + volume cs < 2 ^ 63"
  shows "engine_inv n (V + volume cs) (run e cs)"
  using assms
proof (induction cs arbitrary: V e)
  case Nil
  then show ?case by (simp add: run_def volume_def)
next
  case (Cons c cs)
  have v: "volume (c # cs) = call_volume c + volume cs" by (simp add: volume_def)
  have "engine_inv (n + length cs) (V + call_volume c) (perform e c)"
    using Cons.prems by (intro engine_inv_perform) (auto simp: v intro: le_less_trans [rotated])
  then have "engine_inv n (V + call_volume c + volume cs) (run (perform e c) cs)"
    using Cons.prems by (intro Cons.IH) (auto simp: v)
  then show ?case by (simp add: run_def v add.assoc)
qed

text \<open>A fresh engine satisfies it, with room for every run that stays in range.\<close>

definition run_room :: "string list \<Rightarrow> call list \<Rightarrow> bool" where
  "run_room seeds cs \<longleftrightarrow> 10 * int (length seeds) + int (length cs) < 2 ^ 63 \<and> volume cs < 2 ^ 63"

lemma engine_inv_new:
  assumes "10 * int (length seeds) + int n < 2 ^ 63"
  shows "engine_inv n 0 (NewLocalEngine seeds)"
proof -
  have "10 * int (length seeds) < 2 ^ 63" using assms by simp
  note new = NewLocalEngine_books [OF this]
  have "counter_room (10 * length seeds + n) empty_engine"
    using assms by (simp add: counter_room_def empty_engine_def)
  then have "counter_room n (NewLocalEngine seeds)" by (rule draws_room [OF new(3)])
  then show ?thesis
    using new(1) ledger_ok_empty by (simp add: engine_inv_def NewLocalEngine_accounts)
qed

lemma run_inv:
  assumes "run_room seeds cs"
  shows "engine_inv 0 (volume cs) (run (NewLocalEngine seeds) cs)"
  using assms engine_inv_run [of 0 cs 0 "NewLocalEngine seeds"] engine_inv_new [of seeds "length cs"]
  by (simp add: run_room_def)

lemma run_books_ok: "run_room seeds cs \<Longrightarrow> books_ok (run (NewLocalEngine seeds) cs)"
  using run_inv by (simp add: engine_inv_def)

lemma run_ledger_ok: "run_room seeds cs \<Longrightarrow> ledger_ok (volume cs) (le_accounts (run (NewLocalEngine seeds) cs))"
  using run_inv by (simp add: engine_inv_def)

lemma run_room_prefix: "run_room seeds (cs @ cs') \<Longrightarrow> run_room seeds cs"
  using volume_nonneg [of cs'] by (auto simp: run_room_def volume_def)

lemma run_conserves:
  assumes "run_room seeds cs" and "\<forall>c\<in>set cs. side_ok c"
  shows "net_cash (le_accounts (run (NewLocalEngine seeds) cs)) = 0"
    and "net_holding (le_accounts (run (NewLocalEngine seeds) cs)) s = 0"
proof -
  have "net_cash (le_accounts (run (NewLocalEngine seeds) cs)) = 0 \<and>
      net_holding (le_accounts (run (NewLocalEngine seeds) cs)) s = 0"
    using assms
  proof (induction cs rule: rev_induct)
    case Nil
    then show ?case by (simp add: run_def NewLocalEngine_accounts net_cash_def net_holding_def)
  next
    case (snoc c cs)
    have room: "run_room seeds cs" using snoc.prems(1) by (rule run_room_prefix)
    have "books_ok (run (NewLocalEngine seeds) cs)" "finite (dom (le_accounts (run (NewLocalEngine seeds) cs)))"
      using run_books_ok [OF room] run_ledger_ok [OF room] by (simp_all add: ledger_ok_def)
    then show ?case
      using perform_conserves [of "run (NewLocalEngine seeds) cs" c] snoc room by (simp add: run_def)
  qed
  then show "net_cash (le_accounts (run (NewLocalEngine seeds) cs)) = 0"
    and "net_holding (le_accounts (run (NewLocalEngine seeds) cs)) s = 0" by auto
qed

section \<open>Marks\<close>

text \<open>Every symbol an account holds has a last trade price to mark it at.\<close>

definition marked :: "LocalEngine \<Rightarrow> bool" where
  "marked e \<longleftrightarrow> (\<forall>a s. s \<in> dom (positions_of (le_accounts e) a) \<longrightarrow> map_get (le_lastPrice e) s \<noteq> 0)"

lemma book_fills_positions:
  "s \<in> dom (positions_of (book_fills o' fs m) a) \<Longrightarrow>
   s \<in> dom (positions_of m a) \<or> (fs \<noteq> [] \<and> s = no_Symbol o')"
proof (induction o' fs m rule: book_fills.induct)
  case (1 o' m)
  then show ?case by simp
next
  case (2 o' mk f fs m)
  then show ?case by (auto simp: positions_of_applyFill split: if_splits)
qed

lemma SubmitOrder_lastPrice:
  assumes "books_ok e"
  shows "le_lastPrice (snd (SubmitOrder e ctxErr o' now)) =
    (if ctxErr = None \<and> passes_guards o'
     then last_mark o' (allocation o' (no_Quantity o') e) (le_lastPrice e) else le_lastPrice e)"
proof (cases rule: SubmitOrder_cases [where ctxErr = ctxErr and o' = o'])
  case (err err)
  then show ?thesis by (simp add: SubmitOrder_err)
next
  case refused
  then show ?thesis by (simp add: SubmitOrder_refused nextOrderID_def)
next
  case locked
  then show ?thesis
    using SubmitOrder_spec(4) [OF assms locked(2) refl, of now] by (metis prod.collapse)
qed

lemma last_mark_nonzero:
  assumes ok: "books_ok e" and "map_get (le_lastPrice e) s \<noteq> 0 \<or> (fs \<noteq> [] \<and> s = no_Symbol o')"
    and fs: "fs = allocation o' q e"
  shows "map_get (last_mark o' fs (le_lastPrice e)) s \<noteq> 0"
proof (cases "fs = []")
  case True
  then show ?thesis using assms(2) by (simp add: last_mark_def)
next
  case False
  obtain m f where mf: "last fs = (m, f)" by force
  then have "(m, f) \<in> set (allocation o' q e)" using False fs by (metis last_in_set)
  then have "m \<in> set (orders_of e (no_Symbol o'))" by (rule allocation_facts(1) [OF books_ok_book [OF ok]])
  then have "0 < sint (ro_price m)" using book_ok_pos(2) [OF books_ok_book [OF ok]] by blast
  then have "ro_price m \<noteq> 0" by auto
  then show ?thesis using assms(2) False mf by (auto simp: last_mark_def)
qed

lemma SubmitOrder_marked:
  assumes ok: "books_ok e" and "marked e"
  shows "marked (snd (SubmitOrder e ctxErr o' now))"
proof (cases "ctxErr = None \<and> passes_guards o'")
  case True
  have "map_get (last_mark o' (allocation o' q e) (le_lastPrice e)) s \<noteq> 0"
    if "s \<in> dom (positions_of (book_fills o' (allocation o' q e) (le_accounts e)) a)" for a s q
    using book_fills_positions [OF that] assms(2) by (intro last_mark_nonzero [OF ok _ refl]) (auto simp: marked_def)
  moreover have "le_accounts (snd (SubmitOrder e ctxErr o' now)) =
        book_fills o' (allocation o' (no_Quantity o') e) (le_accounts e)"
      "le_lastPrice (snd (SubmitOrder e ctxErr o' now)) =
        last_mark o' (allocation o' (no_Quantity o') e) (le_lastPrice e)"
    using True by (simp_all add: SubmitOrder_accounts [OF ok] SubmitOrder_lastPrice [OF ok])
  ultimately show ?thesis by (simp only: marked_def) blast
next
  case False
  then have "le_accounts (snd (SubmitOrder e ctxErr o' now)) = le_accounts e"
    "le_lastPrice (snd (SubmitOrder e ctxErr o' now)) = le_lastPrice e"
    by (simp_all only: SubmitOrder_accounts [OF ok] SubmitOrder_lastPrice [OF ok] if_False)
  then show ?thesis using assms(2) by (simp add: marked_def)
qed

lemma CancelOrder_lastPrice: "le_lastPrice (snd (CancelOrder e ctxErr c syms)) = le_lastPrice e"
  using cancelScan_engine [of c e syms]
  by (auto simp: CancelOrder_def split: option.split prod.split)

lemma perform_marked: "books_ok e \<Longrightarrow> marked e \<Longrightarrow> marked (perform e c)"
  using SubmitOrder_marked
  by (cases c) (auto simp: marked_def CancelOrder_accounts CancelOrder_lastPrice GetBook_engine)

lemma run_marked:
  assumes "run_room seeds cs"
  shows "marked (run (NewLocalEngine seeds) cs)"
  using assms
proof (induction cs rule: rev_induct)
  case Nil
  then show ?case by (simp add: run_def marked_def NewLocalEngine_accounts positions_of_def)
next
  case (snoc c cs)
  have room: "run_room seeds cs" using snoc.prems by (rule run_room_prefix)
  then show ?case
    using perform_marked [OF run_books_ok [OF room], of c] snoc by (simp add: run_def)
qed

text \<open>The account equation after a run, for every account and every order of the position range.\<close>

lemma run_account_equation:
  assumes room: "run_room seeds cs" and e: "e = run (NewLocalEngine seeds) cs"
    and ks: "range_keys (positions_of (le_accounts e) a) ks"
    and snap: "GetAccount (le_accounts e) (le_lastPrice e) None a ks = Inr snap"
  shows "as_CashTicks snap - StartingCashTicks +
      (\<Sum>s\<leftarrow>ks. market_value (le_lastPrice e) s (position_of (le_accounts e) a s)) =
    as_RealizedPnlTicks snap + as_UnrealizedPnlTicks snap"
proof (cases "le_accounts e a")
  case None
  then have "ks = []" using ks by (simp add: range_keys_def positions_of_def)
  then show ?thesis using None snap by (auto simp: GetAccount_def)
next
  case (Some acc)
  have pos: "positions_of (le_accounts e) a = la_positions acc" using Some by (simp add: positions_of_def)
  have rec: "account_reconciles (le_accounts e) a"
    using run_ledger_ok [OF room] by (simp add: e ledger_ok_def)
  have "map_get (le_lastPrice e) s \<noteq> 0" if "open_position (la_positions acc) s" for s
  proof -
    have "s \<in> dom (la_positions acc)" using that by (auto simp: open_position_def split: option.splits)
    then show ?thesis using run_marked [OF room] unfolding marked_def e [symmetric] pos [symmetric] by blast
  qed
  note eq = account_equation [OF rec Some ks [unfolded pos] this snap]
  have "(\<Sum>s\<leftarrow>ks. market_value (le_lastPrice e) s (position_of (le_accounts e) a s)) =
      (\<Sum>s\<leftarrow>ks. market_value (le_lastPrice e) s (the (la_positions acc s)))"
    using ks by (intro arg_cong [where f = sum_list] map_cong refl)
      (auto simp: position_of_def pos range_keys_def)
  then show ?thesis using eq by simp
qed

end
