(* ===== verification/TradeFacts.thy ===== *)
theory TradeFacts
  imports EngineRun
begin

text \<open>
  What the trades of one \<open>SubmitOrder\<close> look like from outside: who meets whom and at what
  price, that nobody is traded through, that the quantities add up, and that an order with
  something left over has nothing left to trade with.
\<close>

section \<open>The fills behind the trades\<close>

lemma trades_of_fill:
  assumes "t \<in> set (trades_of oid o' now tid fs)"
  obtains m f where "(m, f) \<in> set fs" "tr_PriceTicks t = ro_price m" "tr_Quantity t = f"
    "tr_Symbol t = no_Symbol o'" "tr_TsMillis t = now"
    "tr_BuyOrderID t = (if no_Side o' = SideSell then ro_id m else oid)"
    "tr_SellOrderID t = (if no_Side o' = SideSell then oid else ro_id m)"
proof -
  have "\<exists>m f. (m, f) \<in> set fs \<and> tr_PriceTicks t = ro_price m \<and> tr_Quantity t = f \<and>
      tr_Symbol t = no_Symbol o' \<and> tr_TsMillis t = now \<and>
      tr_BuyOrderID t = (if no_Side o' = SideSell then ro_id m else oid) \<and>
      tr_SellOrderID t = (if no_Side o' = SideSell then oid else ro_id m)"
    using assms
  proof (induction oid o' now tid fs rule: trades_of.induct)
    case (2 oid o' now tid m f fs)
    then show ?case by (cases "t \<in> set (trades_of oid o' now (tid + 1) fs)") force+
  qed simp
  then show ?thesis using that by blast
qed

lemma trades_of_length: "length (trades_of oid o' now tid fs) = length fs"
  by (induction oid o' now tid fs rule: trades_of.induct) auto

lemma trades_of_quantity:
  "(\<Sum>t\<leftarrow>trades_of oid o' now tid fs. sint (tr_Quantity t)) = (\<Sum>(m, f)\<leftarrow>fs. sint f)"
  by (induction oid o' now tid fs rule: trades_of.induct) auto

lemma trades_of_value:
  "(\<Sum>t\<leftarrow>trades_of oid o' now tid fs. tr_PriceTicks t * tr_Quantity t) = fill_value fs"
  by (induction oid o' now tid fs rule: trades_of.induct) (auto simp: fill_value_def)

lemma trades_of_nonempty: "trades_of oid o' now tid fs = [] \<longleftrightarrow> fs = []"
  by (metis length_0_conv trades_of_length)

section \<open>No trade-through\<close>

text \<open>Along the queue, whoever stands in front of a filled order is filled completely.\<close>

lemma allocate_exhausts:
  fixes key :: "restingOrder \<Rightarrow> 'k::linorder"
  assumes "sorted (map key q)" and "(m, f) \<in> set (allocate r q)" and "m' \<in> set q" and "key m' < key m"
  shows "(m', ro_remaining m') \<in> set (allocate r q)"
  using assms
proof (induction r q rule: allocate.induct)
  case (1 r)
  then show ?case by simp
next
  case (2 r m0 ms)
  have go: "0 <s r" using 2(3) by (simp split: if_splits)
  have m_tail: "(m, f) \<in> set (allocate (r - fill_size r m0) ms)"
    using 2(2-5) go by auto
  have "0 <s r - fill_size r m0"
    using m_tail allocate_stop by fastforce
  then have full: "fill_size r m0 = ro_remaining m0"
    using fill_size_cases [of r m0] by (auto simp: go_signed)
  show ?case
  proof (cases "m' = m0")
    case True
    then show ?thesis using go full by simp
  next
    case False
    then have "(m', ro_remaining m') \<in> set (allocate (r - fill_size r m0) ms)"
      using 2(1) [OF go _ m_tail] 2(2,4,5) by simp
    then show ?thesis using go by simp
  qed
qed

lemma sorted_takeWhile_before:
  fixes key :: "'a \<Rightarrow> 'k::linorder"
  assumes "sorted (map key q)" and "m \<in> set (takeWhile P q)" and "m' \<in> set q" and "key m' < key m"
  shows "m' \<in> set (takeWhile P q)"
proof (rule ccontr)
  assume no: "m' \<notin> set (takeWhile P q)"
  have q: "q = takeWhile P q @ dropWhile P q" by simp
  then have "m' \<in> set (dropWhile P q)" using assms(3) no by (metis Un_iff set_append)
  moreover have "sorted (map key (takeWhile P q) @ map key (dropWhile P q))"
    using assms(1) q by (metis map_append)
  ultimately have "key m \<le> key m'" using assms(2) by (auto simp: sorted_append)
  then show False using assms(4) by simp
qed

lemma map_of_fills:
  assumes "distinct (map ro_id os)" and "\<And>m f. (m, f) \<in> set fs \<Longrightarrow> m \<in> set os"
    and "distinct (map fst fs)" and "(m, f) \<in> set fs"
  shows "map_of (map (\<lambda>(m, f). (ro_id m, f)) fs) (ro_id m) = Some f"
proof -
  have "inj_on ro_id (set os)" using assms(1) by (simp add: distinct_map)
  moreover have "fst ` set fs \<subseteq> set os" using assms(2) by auto
  ultimately have "inj_on ro_id (fst ` set fs)" by (rule inj_on_subset)
  then have "distinct (map ro_id (map fst fs))" using assms(3) by (simp add: distinct_map comp_inj_on)
  then have "distinct (map fst (map (\<lambda>(m, f). (ro_id m, f)) fs))"
    by (simp add: comp_def case_prod_beta)
  then show ?thesis using assms(4) by (intro map_of_is_SomeI) force+
qed

lemma distinct_allocate: "distinct ms \<Longrightarrow> distinct (map fst (allocate r ms))"
proof (induction r ms rule: allocate.induct)
  case (2 r m ms)
  then show ?case using set_allocate by (auto simp: image_iff)
qed simp

lemma distinct_queue: "distinct os \<Longrightarrow> distinct (queue want taker os)"
  by (simp add: queue_def)

lemma distinct_allocation:
  assumes "book_ok (orders_of e (no_Symbol o'))"
  shows "distinct (map fst (allocation o' r e))"
proof -
  have "distinct (orders_of e (no_Symbol o'))" using book_ok_ids [OF assms] by (simp add: distinct_map)
  then show ?thesis
    by (simp add: allocation_def reachable_queue_def distinct_allocate distinct_queue distinct_takeWhile)
qed

text \<open>A filled order's exhausted predecessors are gone from the book.\<close>

lemma exhausted_gone:
  assumes ok: "book_ok os" and fs: "\<And>m f. (m, f) \<in> set fs \<Longrightarrow> m \<in> set os" "distinct (map fst fs)"
    and full: "(m, ro_remaining m) \<in> set fs"
  shows "ro_id m \<notin> ro_id ` set (deplete fs os)"
proof
  assume "ro_id m \<in> ro_id ` set (deplete fs os)"
  then obtain ro where ro: "ro \<in> set os" "ro_id ro = ro_id m"
    and left: "ro_remaining (case map_of (map (\<lambda>(m, f). (ro_id m, f)) fs) (ro_id ro) of
        None \<Rightarrow> ro | Some f \<Rightarrow> ro\<lparr>ro_remaining := ro_remaining ro - f\<rparr>) \<noteq> 0"
    by (auto simp: deplete_def split: option.splits)
  have "m \<in> set os" using fs(1) full by blast
  then have "ro = m" using ro book_ok_ids [OF ok] by (simp add: distinct_map inj_on_def)
  then show False
    using left map_of_fills [OF book_ok_ids [OF ok] fs full] by simp
qed

lemma reachable_sorted:
  "sorted (map (prio (wanted (no_Side o'))) (reachable_queue o' os))"
proof -
  let ?key = "prio (wanted (no_Side o'))" and ?q = "queue (wanted (no_Side o')) (no_AccountID o') os"
  have "map ?key ?q = map ?key (reachable_queue o' os) @ map ?key (dropWhile (\<lambda>m. crosses o' (ro_price m)) ?q)"
    by (simp add: reachable_queue_def flip: map_append)
  moreover have "sorted (map ?key ?q)" by (simp add: queue_def)
  ultimately show ?thesis by (metis sorted_append)
qed

lemma allocate_prefix: "\<exists>zs. ms = map fst (allocate r ms) @ zs"
  by (induction r ms rule: allocate.induct) auto

lemma allocation_sorted: "sorted (map (prio (wanted (no_Side o')) \<circ> fst) (allocation o' q e))"
proof -
  obtain zs where "reachable_queue o' (orders_of e (no_Symbol o')) = map fst (allocation o' q e) @ zs"
    using allocate_prefix by (metis allocation_def)
  then show ?thesis using reachable_sorted [of o' "orders_of e (no_Symbol o')"] by (simp add: sorted_append)
qed

text \<open>Whoever stands in front of a filled order is filled completely, in an earlier fill.\<close>

lemma better_fills_first:
  assumes ok: "books_ok e" and i: "i < length (allocation o' q e)" "fst (allocation o' q e ! i) = m"
    and better: "m' \<in> set (orders_of e (no_Symbol o'))" "eligible (wanted (no_Side o')) (no_AccountID o') m'"
      "prio (wanted (no_Side o')) m' < prio (wanted (no_Side o')) m"
  shows "\<exists>j<i. allocation o' q e ! j = (m', ro_remaining m')"
proof -
  let ?os = "orders_of e (no_Symbol o')" and ?key = "prio (wanted (no_Side o'))" and ?fs = "allocation o' q e"
  let ?q = "queue (wanted (no_Side o')) (no_AccountID o') ?os"
  obtain f where fill: "(m, f) \<in> set ?fs" using i by (metis nth_mem prod.collapse)
  have srt: "sorted (map ?key ?q)" by (simp add: queue_def)
  have m: "m \<in> set (reachable_queue o' ?os)" using fill set_allocate by (auto simp: allocation_def)
  have "m' \<in> set ?q" using better by (simp add: set_queue)
  then have "m' \<in> set (reachable_queue o' ?os)"
    using sorted_takeWhile_before [OF srt m [unfolded reachable_queue_def]] better(3)
    by (simp add: reachable_queue_def)
  then have "(m', ro_remaining m') \<in> set ?fs"
    using allocate_exhausts [OF reachable_sorted, of m f q o' ?os m'] fill better(3)
    by (simp add: allocation_def)
  then obtain j where j: "j < length ?fs" "?fs ! j = (m', ro_remaining m')" by (metis in_set_conv_nth)
  have "j < i"
  proof (rule ccontr)
    assume "\<not> j < i"
    then have "map (?key \<circ> fst) ?fs ! i \<le> map (?key \<circ> fst) ?fs ! j"
      using j(1) i(1) by (intro sorted_nth_mono [OF allocation_sorted]) simp_all
    then show False using i j better(3) by simp
  qed
  then show ?thesis using j by blast
qed

text \<open>The trades are the fills, one by one.\<close>

definition maker_id :: "NewOrder \<Rightarrow> Trade \<Rightarrow> string" where
  "maker_id o' t = (if no_Side o' = SideSell then tr_BuyOrderID t else tr_SellOrderID t)"

lemma trades_of_nth:
  "i < length fs \<Longrightarrow> maker_id o' (trades_of oid o' now tid fs ! i) = ro_id (fst (fs ! i)) \<and>
    tr_PriceTicks (trades_of oid o' now tid fs ! i) = ro_price (fst (fs ! i)) \<and>
    tr_Quantity (trades_of oid o' now tid fs ! i) = snd (fs ! i)"
proof (induction oid o' now tid fs arbitrary: i rule: trades_of.induct)
  case (2 oid o' now tid m f fs)
  then show ?case by (cases i) (simp_all add: maker_id_def)
qed simp

section \<open>The answer\<close>

text \<open>The filled quantity over the integers: what the book offers, up to what is asked.\<close>

definition offered :: "NewOrder \<Rightarrow> LocalEngine \<Rightarrow> int" where
  "offered o' e = (\<Sum>m\<leftarrow>reachable_queue o' (orders_of e (no_Symbol o')). sint (ro_remaining m))"

lemma sum_fills_sint:
  assumes "book_ok (orders_of e (no_Symbol o'))" and "0 \<le> sint q"
  shows "sint (\<Sum>(m, f)\<leftarrow>allocation o' q e. f) = (\<Sum>(m, f)\<leftarrow>allocation o' q e. sint f)"
proof -
  let ?F = "\<Sum>(m, f)\<leftarrow>allocation o' q e. f"
  have r: "sint (q - ?F) = sint q - (\<Sum>(m, f)\<leftarrow>allocation o' q e. sint f)"
    by (rule allocation_total(2) [OF assms])
  have "0 \<le> (\<Sum>(m, f)\<leftarrow>allocation o' q e. sint f)"
    using allocation_facts(5) [OF assms(1)] by (intro sum_list_nonneg) (auto intro: less_imp_le)
  moreover have "(\<Sum>(m, f)\<leftarrow>allocation o' q e. sint f) \<le> sint q"
    using allocation_total(1) [OF assms] by simp
  ultimately have "sint (q - (q - ?F)) = sint q - sint (q - ?F)"
    using r i64_range [of q] by (intro sint_i64_sub) auto
  then show ?thesis using r by simp
qed

lemma filled_quantity:
  assumes ok: "books_ok e" and guards: "passes_guards o'"
  defines "fs \<equiv> allocation o' (no_Quantity o') e"
  shows "sint (\<Sum>(m, f)\<leftarrow>fs. f) = min (sint (no_Quantity o')) (offered o' e)"
    and "sint (leftover o' fs) = sint (no_Quantity o') - min (sint (no_Quantity o')) (offered o' e)"
    and "(\<Sum>(m, f)\<leftarrow>fs. sint f) = min (sint (no_Quantity o')) (offered o' e)"
proof -
  have bk: "book_ok (orders_of e (no_Symbol o'))" by (rule books_ok_book [OF ok])
  have q: "0 \<le> sint (no_Quantity o')" using guards by (simp add: passes_guards_def)
  note t = allocation_total [OF bk q] sum_fills_sint [OF bk q]
  show "sint (\<Sum>(m, f)\<leftarrow>fs. f) = min (sint (no_Quantity o')) (offered o' e)"
    and "sint (leftover o' fs) = sint (no_Quantity o') - min (sint (no_Quantity o')) (offered o' e)"
    and "(\<Sum>(m, f)\<leftarrow>fs. sint f) = min (sint (no_Quantity o')) (offered o' e)"
    using t by (simp_all add: fs_def leftover_def offered_def)
qed

lemma submit_quantities:
  assumes "books_ok e" and "passes_guards o'" and "SubmitOrder e None o' now = (Inr ack, e')"
  shows "sint (ack_FilledQuantity ack) = min (sint (no_Quantity o')) (offered o' e) \<and>
    (\<Sum>t\<leftarrow>ack_Trades ack. sint (tr_Quantity t)) = sint (ack_FilledQuantity ack) \<and>
    sint (no_Quantity o' - ack_FilledQuantity ack) = sint (no_Quantity o') - sint (ack_FilledQuantity ack) \<and>
    0 \<le> sint (ack_FilledQuantity ack) \<and> sint (ack_FilledQuantity ack) \<le> sint (no_Quantity o')"
proof -
  have ack: "ack = spec_ack e o' now (allocation o' (no_Quantity o') e)"
    using SubmitOrder_spec(1) [OF assms(1,2) refl assms(3)] by simp
  have "0 \<le> offered o' e"
    unfolding offered_def using book_ok_pos(1) [OF books_ok_book [OF assms(1)]]
    by (intro sum_list_nonneg) (auto simp: reachable_queue_def set_queue less_imp_le dest!: set_takeWhileD)
  then show ?thesis
    using filled_quantity [OF assms(1,2)] assms(2)
    by (simp add: ack spec_ack_def trades_of_quantity leftover_def [symmetric] passes_guards_def)
qed

text \<open>The status by the outcome, in integers.\<close>

definition outcome_status :: "OrderType \<Rightarrow> int \<Rightarrow> int \<Rightarrow> OrderStatus" where
  "outcome_status t asked filled =
     (if filled = asked then StatusFilled
      else if filled \<noteq> 0 then StatusPartiallyFilled
      else if t = OrderTypeMarket then StatusRejected
      else StatusAccepted)"

lemma statusFor_outcome:
  assumes "0 < sint q" and "sint f + sint r = sint q" and "0 \<le> sint f" and "0 \<le> sint r"
  shows "statusFor t q f r = outcome_status t (sint q) (sint f)"
  using assms sint_zero_iff [of f] sint_zero_iff [of r] by (auto simp: statusFor_def outcome_status_def)

section \<open>Nothing left to trade with\<close>

lemma crosses_monotone:
  assumes "valid_side (no_Side o')" and "prio (wanted (no_Side o')) a \<le> prio (wanted (no_Side o')) b"
    and "crosses o' (ro_price b)"
  shows "crosses o' (ro_price a)"
  using assms
  by (auto simp: valid_side_def crosses_def prio_def wanted_def go_signed less_eq_prod_def split: if_splits)

lemma submitLocked_exhausts:
  assumes ok: "books_ok e" and side: "valid_side (no_Side o')"
    and left: "0 <s no_Quantity o' - ack_FilledQuantity (fst (submitLocked oid o' now e))"
    and ro: "ro \<in> set (orders_of (snd (submitLocked oid o' now e)) (no_Symbol o'))"
      "eligible (wanted (no_Side o')) (no_AccountID o') ro"
  shows "\<not> crosses o' (ro_price ro)"
proof -
  obtain b e0 where bk: "book e (no_Symbol o') = (b, e0)" by force
  then have e0: "e0 = snd (book e (no_Symbol o'))" by simp
  obtain r ts e1 where loop: "matchLoop oid o' now (no_Quantity o') [] e0 = (r, ts, e1)"
    by (metis prod_cases3)
  have "books_ok e0" using ok e0 by simp
  then have over: "loop_done o' r e1" by (rule matchLoop_books(3) [OF _ loop])
  have "no_Quantity o' - ack_FilledQuantity (fst (submitLocked oid o' now e)) = r"
    by (simp add: submitLocked_def bk loop Let_def split: prod.split)
  then have go: "0 <s r" using left by simp
  have in_e1: "ro \<in> set (orders_of e1 (no_Symbol o'))"
    using ro by (auto simp: submitLocked_def bk loop nextSeq_def Let_def eligible_def split: if_splits)
  then obtain j m where best: "best_of o' e1 = Some (j, m)"
    using ro(2) bestOpposite_None [of "orders_of e1 (no_Symbol o')" "no_Side o'" "no_AccountID o'"]
    by (force simp: best_of_def)
  have "\<not> crosses o' (ro_price m)" using over go best by (simp add: loop_done_def)
  then show ?thesis using crosses_monotone [OF side best_of_facts(5) [OF best in_e1 ro(2)]] by blast
qed

end
