(* ===== verification/EngineClient.thy ===== *)
theory EngineClient
  imports Proto TradeFacts
begin

text \<open>
  The three implementations of the \<open>EngineClient\<close> interface of
  \<open>gateway/internal/engine/engine.go\<close>: the in-process \<open>LocalEngine\<close>, the \<open>MockClient\<close>, and the
  \<open>GRPCClient\<close> of \<open>grpc_client.go\<close>, which translates to and from the wire messages of a remote
  engine. The remote engine is not part of the gateway: its stub is an argument.
\<close>

section \<open>The mock\<close>

record MockClient =
  mc_seq :: i64

definition MockSubmitOrder ::
  "MockClient \<Rightarrow> string option \<Rightarrow> NewOrder \<Rightarrow> (error + OrderAck) \<times> MockClient" where
  "MockSubmitOrder m ctxErr o' =
     (case ctxErr of
        Some err \<Rightarrow> (Inl err, m)
      | None \<Rightarrow>
          let n = mc_seq m + 1;
              m' = m\<lparr>mc_seq := n\<rparr>;
              i = ''ord-'' @ fmt_d n
          in if no_Quantity o' \<le>s 0 then
               (Inr (ack_zero\<lparr>ack_OrderID := i, ack_Status := StatusRejected,
                       ack_Reason := ''quantity must be positive''\<rparr>), m')
             else if no_Type o' = OrderTypeLimit \<and> no_PriceTicks o' \<le>s 0 then
               (Inr (ack_zero\<lparr>ack_OrderID := i, ack_Status := StatusRejected,
                       ack_Reason := ''limit order requires positive priceTicks''\<rparr>), m')
             else if no_Type o' = OrderTypeMarket then
               (Inr (ack_zero\<lparr>ack_OrderID := i, ack_Status := StatusFilled,
                       ack_FilledQuantity := no_Quantity o'\<rparr>), m')
             else
               (Inr (ack_zero\<lparr>ack_OrderID := i, ack_Status := StatusAccepted,
                       ack_FilledQuantity := 0\<rparr>), m'))"

definition MockCancelOrder ::
  "MockClient \<Rightarrow> string option \<Rightarrow> CancelOrder \<Rightarrow> (error + OrderAck) \<times> MockClient" where
  "MockCancelOrder m ctxErr c =
     (case ctxErr of
        Some err \<Rightarrow> (Inl err, m)
      | None \<Rightarrow>
          if co_OrderID c = '''' then
            (Inr (ack_zero\<lparr>ack_Status := StatusRejected, ack_Reason := ''order_id required''\<rparr>), m)
          else (Inr (ack_zero\<lparr>ack_OrderID := co_OrderID c, ack_Status := StatusCancelled\<rparr>), m))"

definition MockGetBook ::
  "MockClient \<Rightarrow> string option \<Rightarrow> BookRequest \<Rightarrow> i64 \<Rightarrow> (error + BookSnapshot) \<times> MockClient" where
  "MockGetBook m ctxErr r now =
     (case ctxErr of
        Some err \<Rightarrow> (Inl err, m)
      | None \<Rightarrow>
          let depth = (if br_Depth r \<le>s 0 \<or> 10 <s br_Depth r then 5 else nat (sint (br_Depth r)))
          in (Inr \<lparr>bs_Symbol = br_Symbol r,
                   bs_Bids = map (\<lambda>i. \<lparr>pl_PriceTicks = 10000 - of_nat i, pl_Quantity = of_nat (i * 10)\<rparr>) [1..<depth + 1],
                   bs_Asks = map (\<lambda>i. \<lparr>pl_PriceTicks = 10000 + of_nat i, pl_Quantity = of_nat (i * 10)\<rparr>) [1..<depth + 1],
                   bs_TsMillis = now\<rparr>, m))"

section \<open>The gRPC client\<close>

definition toProtoSide :: "Side \<Rightarrow> PbSide" where
  "toProtoSide s = (if s = SideSell then Side_SELL else Side_BUY)"

definition toProtoType :: "OrderType \<Rightarrow> PbOrderType" where
  "toProtoType t = (if t = OrderTypeMarket then OrderType_MARKET else OrderType_LIMIT)"

definition fromProtoStatus :: "PbOrderStatus \<Rightarrow> OrderStatus" where
  "fromProtoStatus s =
     (if s = OrderStatus_ACCEPTED then StatusAccepted
      else if s = OrderStatus_PARTIALLY_FILLED then StatusPartiallyFilled
      else if s = OrderStatus_FILLED then StatusFilled
      else if s = OrderStatus_CANCELLED then StatusCancelled
      else StatusRejected)"

definition fromProtoAck :: "PbOrderAck option \<Rightarrow> OrderAck" where
  "fromProtoAck a = (let p = deref pb_ack_zero a in
     ack_zero\<lparr>ack_OrderID := pack_OrderId p, ack_Status := fromProtoStatus (pack_Status p),
       ack_FilledQuantity := pack_FilledQuantity p, ack_Reason := pack_Reason p\<rparr>)"

definition fromProtoLevels :: "PbPriceLevel option list \<Rightarrow> PriceLevel list" where
  "fromProtoLevels ls = map (\<lambda>l. \<lparr>pl_PriceTicks = ppl_PriceTicks (deref pb_level_zero l),
     pl_Quantity = ppl_Quantity (deref pb_level_zero l)\<rparr>) ls"

text \<open>
  The stub of the remote engine: each call takes the context's error, the message and the remote
  state, and answers an error or a message pointer.
\<close>

record 's EngineStub =
  st_SubmitOrder :: "string option \<Rightarrow> PbNewOrder \<Rightarrow> 's \<Rightarrow> (error + PbOrderAck option) \<times> 's"
  st_CancelOrder :: "string option \<Rightarrow> PbCancelOrderRequest \<Rightarrow> 's \<Rightarrow> (error + PbOrderAck option) \<times> 's"
  st_GetBook :: "string option \<Rightarrow> PbBookRequest \<Rightarrow> 's \<Rightarrow> (error + PbBookSnapshot option) \<times> 's"

definition wireOrder :: "NewOrder \<Rightarrow> PbNewOrder" where
  "wireOrder o' = \<lparr>pno_ClientOrderId = no_ClientOrderID o', pno_AccountId = no_AccountID o',
     pno_Symbol = no_Symbol o', pno_Side = toProtoSide (no_Side o'), pno_Type = toProtoType (no_Type o'),
     pno_PriceTicks = no_PriceTicks o', pno_Quantity = no_Quantity o'\<rparr>"

definition GRPCSubmitOrder ::
  "'s EngineStub \<Rightarrow> 's \<Rightarrow> string option \<Rightarrow> NewOrder \<Rightarrow> (error + OrderAck) \<times> 's" where
  "GRPCSubmitOrder stub s ctxErr o' =
     (case st_SubmitOrder stub ctxErr (wireOrder o') s of
        (Inl err, s') \<Rightarrow> (Inl err, s')
      | (Inr resp, s') \<Rightarrow> (Inr (fromProtoAck resp), s'))"

definition GRPCCancelOrder ::
  "'s EngineStub \<Rightarrow> 's \<Rightarrow> string option \<Rightarrow> CancelOrder \<Rightarrow> (error + OrderAck) \<times> 's" where
  "GRPCCancelOrder stub s ctxErr c =
     (case st_CancelOrder stub ctxErr \<lparr>pco_OrderId = co_OrderID c, pco_Symbol = co_Symbol c,
             pco_AccountId = co_AccountID c\<rparr> s of
        (Inl err, s') \<Rightarrow> (Inl err, s')
      | (Inr resp, s') \<Rightarrow> (Inr (fromProtoAck resp), s'))"

definition GRPCGetBook ::
  "'s EngineStub \<Rightarrow> 's \<Rightarrow> string option \<Rightarrow> BookRequest \<Rightarrow> (error + BookSnapshot) \<times> 's" where
  "GRPCGetBook stub s ctxErr r =
     (case st_GetBook stub ctxErr \<lparr>pbr_Symbol = br_Symbol r, pbr_Depth = br_Depth r\<rparr> s of
        (Inl err, s') \<Rightarrow> (Inl err, s')
      | (Inr resp, s') \<Rightarrow>
          (let p = deref pb_book_zero resp
           in (Inr \<lparr>bs_Symbol = pbs_Symbol p, bs_Bids = fromProtoLevels (pbs_Bids p),
                    bs_Asks = fromProtoLevels (pbs_Asks p), bs_TsMillis = pbs_TsMillis p\<rparr>, s')))"

section \<open>The contract of an engine client\<close>

text \<open>What an acknowledgement of an in-process engine may say about an order.\<close>

definition good_ack :: "NewOrder \<Rightarrow> OrderAck \<Rightarrow> bool" where
  "good_ack o' ack \<longleftrightarrow>
     ack_Status ack \<in> {StatusAccepted, StatusPartiallyFilled, StatusFilled, StatusRejected} \<and>
     ack_OrderID ack \<noteq> '''' \<and>
     (ack_Status ack = StatusRejected \<longrightarrow> ack_FilledQuantity ack = 0) \<and>
     (ack_FilledQuantity ack = 0 \<longrightarrow> ack_Trades ack = []) \<and>
     (ack_Trades ack \<noteq> [] \<longrightarrow> (\<Sum>t\<leftarrow>ack_Trades ack. sint (tr_Quantity t)) = sint (ack_FilledQuantity ack)) \<and>
     0 \<le> sint (ack_FilledQuantity ack) \<and> sint (ack_FilledQuantity ack) \<le> max 0 (sint (no_Quantity o')) \<and>
     (\<forall>t\<in>set (ack_Trades ack). tr_Symbol t = no_Symbol o' \<and> 0 < sint (tr_Quantity t))"

text \<open>
  The laws the handlers and the simulator rely on. \<open>ok n s\<close> says the engine's state is sound with
  room for \<open>n\<close> more submits; the last argument of \<open>cancel\<close> and \<open>snapshot\<close> stands for the choices
  of the runtime (map ranges, the clock). A context that is over yields its error and changes
  nothing; a live one is always answered, and answered truthfully.
\<close>

locale engine_client =
  fixes submit :: "'s \<Rightarrow> string option \<Rightarrow> NewOrder \<Rightarrow> i64 \<Rightarrow> (error + OrderAck) \<times> 's"
    and cancel :: "'s \<Rightarrow> string option \<Rightarrow> CancelOrder \<Rightarrow> 'k \<Rightarrow> (error + OrderAck) \<times> 's"
    and snapshot :: "'s \<Rightarrow> string option \<Rightarrow> BookRequest \<Rightarrow> 'q \<Rightarrow> (error + BookSnapshot) \<times> 's"
    and ok :: "nat \<Rightarrow> 's \<Rightarrow> bool"
  assumes submit_err: "submit s (Some err) o' now = (Inl err, s)"
    and cancel_err: "cancel s (Some err) c k = (Inl err, s)"
    and snapshot_err: "snapshot s (Some err) r q = (Inl err, s)"
    and submit_ok: "ok (Suc n) s \<Longrightarrow> ok n (snd (submit s ctxErr o' now))"
    and cancel_ok: "ok n s \<Longrightarrow> ok n (snd (cancel s ctxErr c k))"
    and snapshot_ok: "ok n s \<Longrightarrow> ok n (snd (snapshot s ctxErr r q))"
    and submit_answers: "ok (Suc n) s \<Longrightarrow> \<exists>ack. fst (submit s None o' now) = Inr ack \<and> good_ack o' ack"
    and cancel_answers: "ok n s \<Longrightarrow> \<exists>ack. fst (cancel s None c k) = Inr ack"
    and snapshot_answers: "ok n s \<Longrightarrow> \<exists>b. fst (snapshot s None r q) = Inr b \<and> bs_Symbol b = br_Symbol r"
    and weaken: "ok n s \<Longrightarrow> k' \<le> n \<Longrightarrow> ok k' s"
begin

text \<open>A burst of submits: the states and the answers, one after the other.\<close>

primrec submits :: "'s \<Rightarrow> (NewOrder \<times> i64) list \<Rightarrow> (error + OrderAck) list \<times> 's" where
  "submits s [] = ([], s)"
| "submits s (x # xs) =
     (let (r, s') = submit s None (fst x) (snd x); (rs, s'') = submits s' xs in (r # rs, s''))"

lemma submits_ok: "ok (length xs + n) s \<Longrightarrow> ok n (snd (submits s xs))"
proof (induction xs arbitrary: s)
  case (Cons x xs)
  have "ok (length xs + n) (snd (submit s None (fst x) (snd x)))"
    using Cons.prems by (intro submit_ok) simp
  then show ?case using Cons.IH by (auto simp: split: prod.splits) (metis snd_conv)
qed simp

lemma submits_answers:
  "ok (length xs) s \<Longrightarrow> list_all2 (\<lambda>r x. \<exists>ack. r = Inr ack \<and> good_ack (fst x) ack) (fst (submits s xs)) xs"
proof (induction xs arbitrary: s)
  case (Cons x xs)
  obtain r s' where step: "submit s None (fst x) (snd x) = (r, s')" by force
  have "ok (length xs) s'" using submit_ok [of "length xs" s None "fst x" "snd x"] Cons.prems step by simp
  then have "list_all2 (\<lambda>r x. \<exists>ack. r = Inr ack \<and> good_ack (fst x) ack) (fst (submits s' xs)) xs" by (rule Cons.IH)
  moreover have "\<exists>ack. r = Inr ack \<and> good_ack (fst x) ack"
    using submit_answers [of "length xs" s "fst x" "snd x"] Cons.prems step by simp
  ultimately show ?case by (simp add: step case_prod_beta Let_def)
qed simp

end

text \<open>The in-process engine satisfies the contract as long as its counters have room.\<close>

definition local_ok :: "nat \<Rightarrow> LocalEngine \<Rightarrow> bool" where
  "local_ok n e \<longleftrightarrow> books_ok e \<and> counter_room n e"

lemma order_id_nonempty [simp]: "order_id n \<noteq> ''''"
  by (simp add: order_id_def)

lemma statusFor_range:
  "statusFor t q f r \<in> {StatusAccepted, StatusPartiallyFilled, StatusFilled, StatusRejected}"
  by (simp add: statusFor_def)

lemma local_good_ack:
  assumes ok: "books_ok e"
  shows "\<exists>ack. fst (SubmitOrder e None o' now) = Inr ack \<and> good_ack o' ack"
proof (cases "passes_guards o'")
  case False
  then show ?thesis
    by (simp add: SubmitOrder_refused good_ack_def nextOrderID_def order_id_def [symmetric] ack_zero_def)
next
  case True
  let ?fs = "allocation o' (no_Quantity o') e"
  obtain ack e' where r: "SubmitOrder e None o' now = (Inr ack, e')"
    using SubmitOrder_locked [OF True] by blast
  have ack: "ack = spec_ack e o' now ?fs" using SubmitOrder_spec(1) [OF ok True refl r] by simp
  note q = submit_quantities [OF ok True r]
  have pos: "\<forall>(m, f)\<in>set ?fs. 0 < sint f" using allocation_fills [OF ok] by fastforce
  have nil: "?fs = []" if "ack_FilledQuantity ack = 0"
  proof (rule ccontr)
    assume "?fs \<noteq> []"
    then obtain m f fs where fs: "?fs = (m, f) # fs" by (metis list.exhaust prod.exhaust)
    have "0 \<le> (\<Sum>(m, f)\<leftarrow>fs. sint f)" using pos fs by (intro sum_list_nonneg) auto
    then have "0 < (\<Sum>(m, f)\<leftarrow>?fs. sint f)" using pos fs by simp
    then show False using q that by (simp add: ack spec_ack_def trades_of_quantity)
  qed
  have tr: "\<forall>t\<in>set (ack_Trades ack). tr_Symbol t = no_Symbol o' \<and> 0 < sint (tr_Quantity t)"
  proof
    fix t assume "t \<in> set (ack_Trades ack)"
    then show "tr_Symbol t = no_Symbol o' \<and> 0 < sint (tr_Quantity t)"
      unfolding ack spec_ack_def OrderAck.select_convs using pos
      by (elim trades_of_fill) auto
  qed
  have st: "ack_Status ack = StatusRejected \<longrightarrow> ack_FilledQuantity ack = 0"
    by (simp add: ack spec_ack_def statusFor_def)
  have rng: "ack_Status ack \<in> {StatusAccepted, StatusPartiallyFilled, StatusFilled, StatusRejected}"
    unfolding ack spec_ack_def OrderAck.select_convs by (rule statusFor_range)
  have "ack_OrderID ack \<noteq> ''''" by (simp add: ack spec_ack_def)
  moreover have "ack_FilledQuantity ack = 0 \<longrightarrow> ack_Trades ack = []"
    using nil by (auto simp: ack spec_ack_def)
  moreover have "0 \<le> offered o' e" using q by linarith
  ultimately have "good_ack o' ack" using q tr st rng by (simp add: good_ack_def)
  then show ?thesis using r by simp
qed

lemma local_ok_submit: "local_ok (Suc n) e \<Longrightarrow> local_ok n (snd (SubmitOrder e ctxErr o' now))"
proof -
  assume ok: "local_ok (Suc n) e"
  then have "books_ok e" and room: "counter_room (1 + n) e" by (simp_all add: local_ok_def)
  then have s: "books_ok e" "counter_room 1 e" using counter_room_le [OF room, of 1] by simp_all
  show ?thesis
    using SubmitOrder_books(1) [OF s] draws_room [OF SubmitOrder_books(2) [OF s] room] by (simp add: local_ok_def)
qed

lemma draws_none_room: "draws 0 e e' \<Longrightarrow> counter_room n e \<Longrightarrow> counter_room n e'"
  using draws_room [of 0 e e' n] by simp

lemma local_ok_cancel: "local_ok n e \<Longrightarrow> local_ok n (snd (CancelOrder e ctxErr c syms))"
  using CancelOrder_books [of e] draws_none_room [OF CancelOrder_books(2)] by (simp add: local_ok_def)

lemma local_ok_snapshot: "local_ok n e \<Longrightarrow> local_ok n (snd (GetBook e ctxErr r now bidKeys askKeys))"
  using GetBook_books [of e] draws_none_room [OF GetBook_books(2)] by (simp add: local_ok_def)

interpretation local_client: engine_client
  "\<lambda>e ctxErr o' now. SubmitOrder e ctxErr o' now"
  "\<lambda>e ctxErr c syms. CancelOrder e ctxErr c syms"
  "\<lambda>e ctxErr r (now, bidKeys, askKeys). GetBook e ctxErr r now bidKeys askKeys"
  local_ok
proof
  fix e :: LocalEngine and n k' :: nat and ctxErr :: "string option" and o' now c k r and err :: string
    and q :: "i64 \<times> i64 list \<times> i64 list"
  show "SubmitOrder e (Some err) o' now = (Inl err, e)" by (rule SubmitOrder_err)
  show "CancelOrder e (Some err) c k = (Inl err, e)" by (simp add: CancelOrder_def)
  show "(case q of (now, bidKeys, askKeys) \<Rightarrow> GetBook e (Some err) r now bidKeys askKeys) = (Inl err, e)"
    by (simp add: GetBook_def split: prod.split)
  show "local_ok (Suc n) e \<Longrightarrow> local_ok n (snd (SubmitOrder e ctxErr o' now))"
    by (rule local_ok_submit)
  show "local_ok n e \<Longrightarrow> local_ok n (snd (CancelOrder e ctxErr c k))"
    by (rule local_ok_cancel)
  show "local_ok n e \<Longrightarrow> local_ok n (snd (case q of (now, bidKeys, askKeys) \<Rightarrow> GetBook e ctxErr r now bidKeys askKeys))"
    by (cases q) (simp add: local_ok_snapshot)
  show "local_ok (Suc n) e \<Longrightarrow> \<exists>ack. fst (SubmitOrder e None o' now) = Inr ack \<and> good_ack o' ack"
    using local_good_ack by (simp add: local_ok_def)
  show "local_ok n e \<Longrightarrow> \<exists>ack. fst (CancelOrder e None c k) = Inr ack"
    by (simp add: CancelOrder_def case_prod_beta Let_def)
  show "local_ok n e \<Longrightarrow> \<exists>b. fst (case q of (now, bidKeys, askKeys) \<Rightarrow> GetBook e None r now bidKeys askKeys) = Inr b \<and>
      bs_Symbol b = br_Symbol r"
    by (simp add: GetBook_def case_prod_beta Let_def)
  show "local_ok n e \<Longrightarrow> k' \<le> n \<Longrightarrow> local_ok k' e"
    using counter_room_le by (auto simp: local_ok_def)
qed

text \<open>So does the mock, in every state: it never trades, it only answers.\<close>

lemma mock_good_ack: "\<exists>ack. fst (MockSubmitOrder m None o') = Inr ack \<and> good_ack o' ack"
  by (auto simp: MockSubmitOrder_def good_ack_def ack_zero_def go_signed Let_def)

interpretation mock_client: engine_client
  "\<lambda>m ctxErr o' (now :: i64). MockSubmitOrder m ctxErr o'"
  "\<lambda>m ctxErr c (_ :: unit). MockCancelOrder m ctxErr c"
  "\<lambda>m ctxErr r now. MockGetBook m ctxErr r now"
  "\<lambda>n m. True"
  by unfold_locales
    (simp_all add: MockSubmitOrder_def [of _ "Some _"] MockCancelOrder_def MockGetBook_def mock_good_ack Let_def)

section \<open>What the translation to the wire keeps\<close>

text \<open>The documented sides, types and statuses survive; everything else becomes a buy limit order.\<close>

lemma toProtoSide_documented:
  "valid_side s \<Longrightarrow> valid_side s' \<Longrightarrow> toProtoSide s = toProtoSide s' \<longleftrightarrow> s = s'"
  by (auto simp: valid_side_def toProtoSide_def pb_side_defs)

lemma undocumented_side_is_a_buy: "\<not> valid_side s \<Longrightarrow> toProtoSide s = Side_BUY"
  by (simp add: valid_side_def toProtoSide_def)

lemma undocumented_type_is_a_limit: "\<not> valid_type t \<Longrightarrow> toProtoType t = OrderType_LIMIT"
  by (simp add: valid_type_def toProtoType_def)

end
