(* ===== verification/OrderFeed.thy ===== *)
theory OrderFeed
  imports EngineClient "HOL-Library.Sublist"
begin

text \<open>
  The order feed, \<open>gateway/internal/orderfeed/orderfeed.go\<close>: every order attempt the engine
  acknowledged becomes an \<open>OrderEvent\<close> keyed by its account. The Kafka writer is asynchronous and
  belongs to a library: the state of the publisher is the sequence of \<open>WriteMessages\<close> calls it
  has made. The protobuf encoder is an argument, \<open>marshal\<close>.
\<close>

section \<open>Building events\<close>

definition protoSide :: "Side \<Rightarrow> PbSide" where
  "protoSide s = (if s = SideBuy then Side_BUY else if s = SideSell then Side_SELL else Side_SIDE_UNSPECIFIED)"

definition protoType :: "OrderType \<Rightarrow> PbOrderType" where
  "protoType t = (if t = OrderTypeLimit then OrderType_LIMIT
     else if t = OrderTypeMarket then OrderType_MARKET else OrderType_ORDER_TYPE_UNSPECIFIED)"

definition protoStatus :: "OrderStatus \<Rightarrow> PbOrderStatus" where
  "protoStatus s =
     (if s = StatusAccepted then OrderStatus_ACCEPTED
      else if s = StatusPartiallyFilled then OrderStatus_PARTIALLY_FILLED
      else if s = StatusFilled then OrderStatus_FILLED
      else if s = StatusCancelled then OrderStatus_CANCELLED
      else if s = StatusRejected then OrderStatus_REJECTED
      else OrderStatus_ORDER_STATUS_UNSPECIFIED)"

definition buildSubmitEvent :: "NewOrder \<Rightarrow> OrderAck \<Rightarrow> i64 \<Rightarrow> PbOrderEvent" where
  "buildSubmitEvent o' ack tsMillis =
     \<lparr>pev_ClientOrderId = no_ClientOrderID o', pev_AccountId = no_AccountID o', pev_Symbol = no_Symbol o',
      pev_Side = protoSide (no_Side o'), pev_Type = protoType (no_Type o'),
      pev_PriceTicks = no_PriceTicks o', pev_Quantity = no_Quantity o', pev_IsCancel = False,
      pev_OrderId = ack_OrderID ack, pev_Status = protoStatus (ack_Status ack), pev_TsMillis = tsMillis\<rparr>"

definition buildCancelEvent :: "CancelOrder \<Rightarrow> OrderAck \<Rightarrow> i64 \<Rightarrow> PbOrderEvent" where
  "buildCancelEvent c ack tsMillis =
     pb_event_zero\<lparr>pev_AccountId := co_AccountID c, pev_Symbol := co_Symbol c, pev_IsCancel := True,
       pev_OrderId := co_OrderID c, pev_Status := protoStatus (ack_Status ack), pev_TsMillis := tsMillis\<rparr>"

section \<open>Publishers\<close>

record kafkaMessage =
  km_Key :: string
  km_Value :: string

definition kafkaPublish ::
  "(PbOrderEvent \<Rightarrow> error + string) \<Rightarrow> PbOrderEvent \<Rightarrow> kafkaMessage list \<Rightarrow> kafkaMessage list" where
  "kafkaPublish marshal ev written =
     (case marshal ev of
        Inl err \<Rightarrow> written
      | Inr value \<Rightarrow> written @ [\<lparr>km_Key = pev_AccountId ev, km_Value = value\<rparr>])"

definition KafkaPublishSubmit ::
  "(PbOrderEvent \<Rightarrow> error + string) \<Rightarrow> kafkaMessage list \<Rightarrow> NewOrder \<Rightarrow> OrderAck \<Rightarrow> i64 \<Rightarrow> kafkaMessage list" where
  "KafkaPublishSubmit marshal written o' ack now = kafkaPublish marshal (buildSubmitEvent o' ack now) written"

definition KafkaPublishCancel ::
  "(PbOrderEvent \<Rightarrow> error + string) \<Rightarrow> kafkaMessage list \<Rightarrow> CancelOrder \<Rightarrow> OrderAck \<Rightarrow> i64 \<Rightarrow> kafkaMessage list" where
  "KafkaPublishCancel marshal written c ack now = kafkaPublish marshal (buildCancelEvent c ack now) written"

definition NoopPublishSubmit :: "unit \<Rightarrow> NewOrder \<Rightarrow> OrderAck \<Rightarrow> i64 \<Rightarrow> unit" where
  "NoopPublishSubmit u o' ack now = u"

definition NoopPublishCancel :: "unit \<Rightarrow> CancelOrder \<Rightarrow> OrderAck \<Rightarrow> i64 \<Rightarrow> unit" where
  "NoopPublishCancel u c ack now = u"

section \<open>The contract of a publisher\<close>

text \<open>
  What the handlers rely on: publishing writes at most one message, after all earlier ones, under
  the key of the account the attempt is attributed to.
\<close>

locale publisher =
  fixes publish_submit :: "'w \<Rightarrow> NewOrder \<Rightarrow> OrderAck \<Rightarrow> i64 \<Rightarrow> 'w"
    and publish_cancel :: "'w \<Rightarrow> CancelOrder \<Rightarrow> OrderAck \<Rightarrow> i64 \<Rightarrow> 'w"
    and written :: "'w \<Rightarrow> kafkaMessage list"
  assumes submit_written: "\<exists>ms. written (publish_submit w o' ack now) = written w @ ms \<and> length ms \<le> 1 \<and>
      (\<forall>k\<in>set ms. km_Key k = no_AccountID o')"
    and cancel_written: "\<exists>ms. written (publish_cancel w c ack now) = written w @ ms \<and> length ms \<le> 1 \<and>
      (\<forall>k\<in>set ms. km_Key k = co_AccountID c)"
begin

text \<open>A history of attempts, each a submit or a cancel with its answer.\<close>

primrec publish_all :: "'w \<Rightarrow> (NewOrder \<times> OrderAck \<times> i64 + CancelOrder \<times> OrderAck \<times> i64) list \<Rightarrow> 'w" where
  "publish_all w [] = w"
| "publish_all w (x # xs) =
     publish_all (case x of Inl (o', ack, now) \<Rightarrow> publish_submit w o' ack now
                  | Inr (c, ack, now) \<Rightarrow> publish_cancel w c ack now) xs"

primrec accounts_of :: "(NewOrder \<times> OrderAck \<times> i64 + CancelOrder \<times> OrderAck \<times> i64) list \<Rightarrow> string list" where
  "accounts_of [] = []"
| "accounts_of (x # xs) =
     (case x of Inl (o', ack, now) \<Rightarrow> no_AccountID o' | Inr (c, ack, now) \<Rightarrow> co_AccountID c) # accounts_of xs"

lemma subseq_short: "length ms \<le> 1 \<Longrightarrow> \<forall>k\<in>set ms. km_Key k = a \<Longrightarrow> subseq (map km_Key ms) [a]"
  by (cases ms) auto

text \<open>The keys written are a subsequence of the accounts that acted: order is kept, nothing is
  written twice, nothing under another account.\<close>

lemma keys_in_order:
  "\<exists>ms. written (publish_all w xs) = written w @ ms \<and> subseq (map km_Key ms) (accounts_of xs)"
proof (induction xs arbitrary: w)
  case Nil
  then show ?case by simp
next
  case (Cons x xs)
  let ?w = "case x of Inl (o', ack, now) \<Rightarrow> publish_submit w o' ack now
    | Inr (c, ack, now) \<Rightarrow> publish_cancel w c ack now"
  let ?a = "case x of Inl (o', ack, now) \<Rightarrow> no_AccountID o' | Inr (c, ack, now) \<Rightarrow> co_AccountID c"
  obtain ms where ms: "written (publish_all ?w xs) = written ?w @ ms" "subseq (map km_Key ms) (accounts_of xs)"
    using Cons.IH by blast
  obtain ns where ns: "written ?w = written w @ ns" "length ns \<le> 1" "\<forall>k\<in>set ns. km_Key k = ?a"
  proof (cases x)
    case (Inl y)
    then show ?thesis using submit_written [of w "fst y" "fst (snd y)" "snd (snd y)"] that
      by (auto simp: case_prod_beta)
  next
    case (Inr y)
    then show ?thesis using cancel_written [of w "fst y" "fst (snd y)" "snd (snd y)"] that
      by (auto simp: case_prod_beta)
  qed
  have "subseq (map km_Key ns @ map km_Key ms) ([?a] @ accounts_of xs)"
    using subseq_short [OF ns(2,3)] ms(2) by (rule list_emb_append_mono)
  then show ?case using ms(1) ns(1) by (intro exI [of _ "ns @ ms"]) simp
qed

end

lemma kafkaPublish_written:
  "\<exists>ms. kafkaPublish marshal ev written = written @ ms \<and> length ms \<le> 1 \<and> (\<forall>k\<in>set ms. km_Key k = pev_AccountId ev)"
  by (auto simp: kafkaPublish_def split: sum.split)

interpretation kafka_feed: publisher "KafkaPublishSubmit marshal" "KafkaPublishCancel marshal" "\<lambda>w. w"
  for marshal
proof
  fix w o' c ack now
  show "\<exists>ms. KafkaPublishSubmit marshal w o' ack now = w @ ms \<and> length ms \<le> 1 \<and> (\<forall>k\<in>set ms. km_Key k = no_AccountID o')"
    using kafkaPublish_written [of marshal "buildSubmitEvent o' ack now" w]
    by (simp add: KafkaPublishSubmit_def buildSubmitEvent_def)
  show "\<exists>ms. KafkaPublishCancel marshal w c ack now = w @ ms \<and> length ms \<le> 1 \<and> (\<forall>k\<in>set ms. km_Key k = co_AccountID c)"
    using kafkaPublish_written [of marshal "buildCancelEvent c ack now" w]
    by (simp add: KafkaPublishCancel_def buildCancelEvent_def)
qed

interpretation noop_feed: publisher NoopPublishSubmit NoopPublishCancel "\<lambda>_. []"
  by unfold_locales auto

section \<open>The two translations of the enums\<close>

lemma status_roundtrip:
  "s \<in> {StatusAccepted, StatusPartiallyFilled, StatusFilled, StatusCancelled, StatusRejected} \<Longrightarrow>
   fromProtoStatus (protoStatus s) = s"
  by (auto simp: protoStatus_def fromProtoStatus_def pb_status_defs)

text \<open>The feed and the gRPC client agree on documented values, and on nothing else.\<close>

lemma feeds_agree_iff:
  "protoSide s = toProtoSide s \<longleftrightarrow> valid_side s"
  "protoType t = toProtoType t \<longleftrightarrow> valid_type t"
  by (auto simp: protoSide_def toProtoSide_def valid_side_def pb_side_defs
    protoType_def toProtoType_def valid_type_def pb_type_defs)

end
