(* ===== verification/Consumers.thy ===== *)
theory Consumers
  imports OrderFeed
begin

text \<open>
  The two Kafka consumers of the gateway: the risk-signal consumer with its gate
  (\<open>gateway/internal/risksignal/risksignal.go\<close>) and the trade tape (\<open>gateway/internal/tape/tape.go\<close>).
  A run of a consumer is driven by what \<open>ReadMessage\<close> returns, one event after the other; the
  protobuf decoder is an argument, \<open>unmarshal\<close>.
\<close>

section \<open>Reading\<close>

text \<open>
  What one \<open>ReadMessage\<close> returns: a message, or an error together with the error of the context
  at that moment, if it is over.
\<close>

datatype readEvent =
    Message string
  | ReadError error "string option"

text \<open>
  The shape both loops share, as a contract: undecodable messages and read errors are skipped, a
  context that is over stops the loop, everything else is handled in order.
\<close>

primrec decoded :: "(string \<Rightarrow> error + 'm) \<Rightarrow> readEvent list \<Rightarrow> 'm list" where
  "decoded decode [] = []"
| "decoded decode (ev # evs) =
     (case ev of
        Message v \<Rightarrow> (case decode v of Inl _ \<Rightarrow> decoded decode evs | Inr m \<Rightarrow> m # decoded decode evs)
      | ReadError _ None \<Rightarrow> decoded decode evs
      | ReadError _ (Some _) \<Rightarrow> [])"

locale consumer_loop =
  fixes decode :: "string \<Rightarrow> error + 'm"
    and handle :: "'m \<Rightarrow> 's \<Rightarrow> 's"
    and loop :: "readEvent list \<Rightarrow> 's \<Rightarrow> 's"
  assumes loop_end: "loop [] s = s"
    and loop_message: "loop (Message v # evs) s =
      (case decode v of Inl _ \<Rightarrow> loop evs s | Inr m \<Rightarrow> loop evs (handle m s))"
    and loop_retry: "loop (ReadError err None # evs) s = loop evs s"
    and loop_stop: "loop (ReadError err (Some c) # evs) s = s"
begin

lemma loop_fold: "loop evs s = fold handle (decoded decode evs) s"
proof (induction evs arbitrary: s)
  case Nil
  then show ?case by (simp add: loop_end)
next
  case (Cons ev evs)
  show ?case
  proof (cases ev)
    case (Message v)
    then show ?thesis by (simp add: loop_message Cons.IH split: sum.split)
  next
    case (ReadError err c)
    then show ?thesis by (cases c) (simp_all add: loop_retry loop_stop Cons.IH)
  qed
qed

text \<open>A malformed record, or a broker error, leaves no trace.\<close>

lemma loop_skips:
  assumes "decode v = Inl err"
  shows "loop (evs @ Message v # evs') s = loop (evs @ evs') s"
    and "loop (evs @ ReadError err' None # evs') s = loop (evs @ evs') s"
proof -
  have "decoded decode (evs @ Message v # evs') = decoded decode (evs @ evs')"
    using assms by (induction evs) (simp_all split: readEvent.split option.split sum.split)
  moreover have "decoded decode (evs @ ReadError err' None # evs') = decoded decode (evs @ evs')"
    by (induction evs) (simp_all split: readEvent.split option.split sum.split)
  ultimately show "loop (evs @ Message v # evs') s = loop (evs @ evs') s"
    and "loop (evs @ ReadError err' None # evs') s = loop (evs @ evs') s"
    by (simp_all add: loop_fold)
qed

end

section \<open>The risk gate\<close>

record blockInfo =
  bi_reason :: string
  bi_score :: float64
  bi_tsMillis :: i64

type_synonym Gate = "string \<rightharpoonup> blockInfo"

definition NewGate :: Gate where
  "NewGate = Map.empty"

definition GateBlocked :: "Gate \<Rightarrow> string \<Rightarrow> bool \<times> string" where
  "GateBlocked g accountID = (case g accountID of None \<Rightarrow> (False, '''') | Some info \<Rightarrow> (True, bi_reason info))"

definition GateApply :: "PbRiskSignal \<Rightarrow> Gate \<Rightarrow> Gate" where
  "GateApply sig g =
     (let acct = prs_AccountId sig
      in if acct = '''' then g
         else if prs_Action sig = SignalAction_REJECT then
           g(acct \<mapsto> \<lparr>bi_reason = prs_Reason sig, bi_score = prs_Score sig, bi_tsMillis = prs_TsMillis sig\<rparr>)
         else if g acct \<noteq> None then g(acct := None)
         else g)"

definition AllowAllBlocked :: "string \<Rightarrow> bool \<times> string" where
  "AllowAllBlocked accountID = (False, '''')"

section \<open>The risk-signal consumer\<close>

record riskWsFields =
  rw_AccountID :: string
  rw_Symbol :: string
  rw_Kind :: string
  rw_Score :: float64
  rw_Action :: string
  rw_Reason :: string
  rw_TsMillis :: i64

record riskWsEnvelope =
  rwe_Type :: string
  rwe_Data :: riskWsFields

definition riskEnvelope :: "(i32 \<Rightarrow> string) \<Rightarrow> PbRiskSignal \<Rightarrow> riskWsEnvelope" where
  "riskEnvelope numText s = \<lparr>rwe_Type = ''risk'', rwe_Data =
     \<lparr>rw_AccountID = prs_AccountId s, rw_Symbol = prs_Symbol s, rw_Kind = SignalKind_String numText (prs_Kind s),
      rw_Score = prs_Score s, rw_Action = SignalAction_String numText (prs_Action s),
      rw_Reason = prs_Reason s, rw_TsMillis = prs_TsMillis s\<rparr>\<rparr>"

text \<open>The state the loop drives: the gate, what it broadcast, and the metric it counted.\<close>

record riskState =
  rs_gate :: Gate
  rs_broadcast :: "riskWsEnvelope list"
  rs_counted :: "string list"

definition riskHandle :: "(i32 \<Rightarrow> string) \<Rightarrow> bool \<Rightarrow> PbRiskSignal \<Rightarrow> riskState \<Rightarrow> riskState" where
  "riskHandle numText hasHub sig st =
     (let st1 = st\<lparr>rs_gate := GateApply sig (rs_gate st),
                   rs_counted := rs_counted st @ [SignalAction_String numText (prs_Action sig)]\<rparr>
      in if hasHub then st1\<lparr>rs_broadcast := rs_broadcast st1 @ [riskEnvelope numText sig]\<rparr> else st1)"

fun riskRun ::
  "(string \<Rightarrow> error + PbRiskSignal) \<Rightarrow> (i32 \<Rightarrow> string) \<Rightarrow> bool \<Rightarrow> readEvent list \<Rightarrow> riskState \<Rightarrow> riskState" where
  "riskRun unmarshal numText hasHub [] st = st"
| "riskRun unmarshal numText hasHub (ReadError err ctxErr # evs) st =
     (if ctxErr \<noteq> None then st else riskRun unmarshal numText hasHub evs st)"
| "riskRun unmarshal numText hasHub (Message value # evs) st =
     (case unmarshal value of
        Inl derr \<Rightarrow> riskRun unmarshal numText hasHub evs st
      | Inr sig \<Rightarrow> riskRun unmarshal numText hasHub evs (riskHandle numText hasHub sig st))"

interpretation risk_loop: consumer_loop unmarshal "riskHandle numText hasHub" "riskRun unmarshal numText hasHub"
  for unmarshal numText hasHub
  by unfold_locales (simp_all split: sum.split)

text \<open>The latest signal of an account.\<close>

definition last_signal :: "string \<Rightarrow> PbRiskSignal list \<Rightarrow> PbRiskSignal option" where
  "last_signal a sigs = find (\<lambda>s. prs_AccountId s = a) (rev sigs)"

lemma find_append: "find P (xs @ ys) = (case find P xs of None \<Rightarrow> find P ys | Some x \<Rightarrow> Some x)"
  by (induction xs) auto

lemma last_signal_snoc:
  "last_signal a (sigs @ [s]) = (if prs_AccountId s = a then Some s else last_signal a sigs)"
  by (simp add: last_signal_def)

definition verdict :: "PbRiskSignal option \<Rightarrow> bool \<times> string" where
  "verdict s = (case s of
     Some sig \<Rightarrow> if prs_Action sig = SignalAction_REJECT then (True, prs_Reason sig) else (False, '''')
   | None \<Rightarrow> (False, ''''))"

lemma GateApply_blocked:
  "GateBlocked (GateApply sig g) a =
     (if a \<noteq> '''' \<and> prs_AccountId sig = a then verdict (Some sig) else GateBlocked g a)"
  by (auto simp: GateBlocked_def GateApply_def verdict_def Let_def)

lemma gate_fold:
  "a \<noteq> '''' \<Longrightarrow> GateBlocked (fold GateApply sigs NewGate) a = verdict (last_signal a sigs)"
proof (induction sigs rule: rev_induct)
  case Nil
  then show ?case by (simp add: GateBlocked_def NewGate_def last_signal_def verdict_def)
next
  case (snoc s sigs)
  then show ?case by (simp add: GateApply_blocked last_signal_snoc)
qed

lemma gate_fold_anonymous: "GateBlocked (fold GateApply sigs NewGate) '''' = (False, '''')"
proof (induction sigs rule: rev_induct)
  case Nil
  then show ?case by (simp add: GateBlocked_def NewGate_def)
next
  case (snoc s sigs)
  then show ?case by (simp add: GateApply_blocked)
qed

lemma riskHandle_fold:
  "rs_gate (fold (riskHandle numText hasHub) sigs st) = fold GateApply sigs (rs_gate st)"
  "rs_broadcast (fold (riskHandle numText hasHub) sigs st) =
     rs_broadcast st @ (if hasHub then map (riskEnvelope numText) sigs else [])"
  "rs_counted (fold (riskHandle numText hasHub) sigs st) =
     rs_counted st @ map (\<lambda>s. SignalAction_String numText (prs_Action s)) sigs"
  by (induction sigs arbitrary: st) (simp_all add: riskHandle_def Let_def)

section \<open>The trade tape\<close>

record tradeFields =
  tf_TradeID :: string
  tf_Symbol :: string
  tf_PriceTicks :: i64
  tf_Quantity :: i64
  tf_BuyOrderId :: string
  tf_SellOrderId :: string
  tf_TsMillis :: i64

record tradeEnvelope =
  te_Type :: string
  te_Data :: tradeFields

definition decodeTrade :: "(string \<Rightarrow> error + PbTrade) \<Rightarrow> string \<Rightarrow> error + tradeEnvelope" where
  "decodeTrade unmarshal value =
     (case unmarshal value of
        Inl err \<Rightarrow> Inl err
      | Inr t \<Rightarrow> Inr \<lparr>te_Type = ''trade'', te_Data =
          \<lparr>tf_TradeID = ptr_TradeId t, tf_Symbol = ptr_Symbol t, tf_PriceTicks = ptr_PriceTicks t,
           tf_Quantity = ptr_Quantity t, tf_BuyOrderId = ptr_BuyAccountId t,
           tf_SellOrderId = ptr_SellAccountId t, tf_TsMillis = ptr_TsMillis t\<rparr>\<rparr>)"

record tapeState =
  ts_broadcast :: "tradeEnvelope list"
  ts_counted :: nat

definition tapeHandle :: "tradeEnvelope \<Rightarrow> tapeState \<Rightarrow> tapeState" where
  "tapeHandle envelope st = st\<lparr>ts_broadcast := ts_broadcast st @ [envelope], ts_counted := ts_counted st + 1\<rparr>"

fun tapeRun :: "(string \<Rightarrow> error + PbTrade) \<Rightarrow> readEvent list \<Rightarrow> tapeState \<Rightarrow> tapeState" where
  "tapeRun unmarshal [] st = st"
| "tapeRun unmarshal (ReadError err ctxErr # evs) st =
     (if ctxErr \<noteq> None then st else tapeRun unmarshal evs st)"
| "tapeRun unmarshal (Message value # evs) st =
     (case decodeTrade unmarshal value of
        Inl derr \<Rightarrow> tapeRun unmarshal evs st
      | Inr envelope \<Rightarrow> tapeRun unmarshal evs (tapeHandle envelope st))"

interpretation tape_loop: consumer_loop "decodeTrade unmarshal" tapeHandle "tapeRun unmarshal"
  for unmarshal
  by unfold_locales (simp_all split: sum.split)

lemma tapeHandle_fold:
  "ts_broadcast (fold tapeHandle es st) = ts_broadcast st @ es"
  "ts_counted (fold tapeHandle es st) = ts_counted st + length es"
  by (induction es arbitrary: st) (simp_all add: tapeHandle_def)

section \<open>Properties\<close>

text \<open>C13: functional, the risk gate. Starting empty, after any sequence of reads the gate blocks
  exactly the accounts whose latest decodable signal (before the context ended) is a REJECT, with
  that signal's reason; any other latest signal, or none, lets the account trade, and undecodable
  messages and broker errors change nothing. The dashboard got every signal, in order.\<close>

theorem gate_follows_the_latest_signal:
  assumes "a \<noteq> ''''"
  shows "GateBlocked (rs_gate (riskRun unmarshal numText True evs
           \<lparr>rs_gate = NewGate, rs_broadcast = [], rs_counted = []\<rparr>)) a =
         verdict (last_signal a (decoded unmarshal evs)) \<and>
    rs_broadcast (riskRun unmarshal numText True evs \<lparr>rs_gate = NewGate, rs_broadcast = [], rs_counted = []\<rparr>) =
         map (riskEnvelope numText) (decoded unmarshal evs)"
  by (simp add: risk_loop.loop_fold riskHandle_fold gate_fold [OF assms])

definition sample_unmarshal :: "string \<Rightarrow> error + PbRiskSignal" where
  "sample_unmarshal v =
     (if v = ''bad'' then Inl ''bad wire data''
      else Inr \<lparr>prs_Kind = 2, prs_AccountId = ''alice'', prs_Symbol = '''', prs_Score = 0,
        prs_Action = (if v = ''reject'' then SignalAction_REJECT else SignalAction_ALLOW),
        prs_Reason = v, prs_TsMillis = 0\<rparr>)"

theorem gate_follows_the_latest_signal_witness:
  "GateBlocked (rs_gate (riskRun sample_unmarshal (\<lambda>_. '''') True
     [Message ''allow'', Message ''reject'', ReadError ''broker'' None, Message ''bad'']
     \<lparr>rs_gate = NewGate, rs_broadcast = [], rs_counted = []\<rparr>)) ''alice'' = (True, ''reject'')"
  using gate_follows_the_latest_signal [of "''alice''" sample_unmarshal "\<lambda>_. ''''"
      "[Message ''allow'', Message ''reject'', ReadError ''broker'' None, Message ''bad'']"]
  by (simp add: sample_unmarshal_def verdict_def last_signal_def)

text \<open>Functional, the tape. The tape broadcasts exactly the decodable trades read before its
  context ended, each once and in order, and counts them; a malformed record or a broker error
  never stalls it.\<close>

theorem tape_broadcasts_every_trade:
  "ts_broadcast (tapeRun unmarshal evs st) = ts_broadcast st @ decoded (decodeTrade unmarshal) evs \<and>
   ts_counted (tapeRun unmarshal evs st) = ts_counted st + length (decoded (decodeTrade unmarshal) evs)"
  by (simp add: tape_loop.loop_fold tapeHandle_fold)

text \<open>The order feed and the gRPC client translate a side, or a type, to the same
  number of the wire exactly when it is documented: an order with any other side goes to the remote
  engine as a BUY while the risk service is told it has none.\<close>

theorem wire_translations_agree_on_documented_values:
  "(protoSide s = toProtoSide s \<longleftrightarrow> valid_side s) \<and> (protoType t = toProtoType t \<longleftrightarrow> valid_type t) \<and>
   (\<not> valid_side s \<longrightarrow> toProtoSide s = Side_BUY \<and> protoSide s = Side_SIDE_UNSPECIFIED)"
  by (auto simp: feeds_agree_iff undocumented_side_is_a_buy) (auto simp: protoSide_def valid_side_def)

theorem wire_translations_agree_on_documented_values_witness:
  "toProtoSide ''HOLD'' = Side_BUY \<and> protoSide ''HOLD'' = Side_SIDE_UNSPECIFIED"
  using wire_translations_agree_on_documented_values [of "''HOLD''"]
  by (simp add: valid_side_def SideBuy_def SideSell_def)

end
