(* ===== verification/Hub.thy ===== *)
theory Hub
  imports Prelude "HOL-Library.Sublist"
begin

text \<open>
  The WebSocket fan-out hub, \<open>gateway/internal/ws/hub.go\<close>. One goroutine owns the set of clients
  and handles one channel operation at a time; each client has a bounded \<open>send\<close> channel its write
  pump drains. Sending on a closed channel and closing a channel twice panic in Go: every operation
  returns \<open>Inl\<close> with the panic or the new state. Client objects are numbered; the set of clients is
  a list of distinct numbers, and the order in which the loop ranges over it is an argument.
\<close>

section \<open>State\<close>

definition sendBuffer :: nat where "sendBuffer = 64"

definition broadcastBuffer :: nat where "broadcastBuffer = 256"

record Client =
  cl_send :: "string list"
  cl_closed :: bool
  cl_written :: "string list"
  cl_done :: bool

record Hub =
  hb_clients :: "nat list"
  hb_broadcast :: "string list"
  hb_objects :: "nat \<rightharpoonup> Client"
  hb_gauge :: nat

definition NewHub :: Hub where
  "NewHub = \<lparr>hb_clients = [], hb_broadcast = [], hb_objects = Map.empty, hb_gauge = 0\<rparr>"

definition new_client :: Client where
  "new_client = \<lparr>cl_send = [], cl_closed = False, cl_written = [], cl_done = False\<rparr>"

section \<open>Channel operations of one client\<close>

text \<open>\<open>close(c.send)\<close>.\<close>

definition closeSend :: "nat \<Rightarrow> Hub \<Rightarrow> error + Hub" where
  "closeSend c h =
     (case hb_objects h c of
        None \<Rightarrow> Inl ''close of nil channel''
      | Some cl \<Rightarrow>
          if cl_closed cl then Inl ''close of closed channel''
          else Inr (h\<lparr>hb_objects := (hb_objects h)(c \<mapsto> cl\<lparr>cl_closed := True\<rparr>)\<rparr>))"

section \<open>The hub loop\<close>

definition hubRegister :: "nat \<Rightarrow> Hub \<Rightarrow> Hub" where
  "hubRegister c h =
     (let cs = (if c \<in> set (hb_clients h) then hb_clients h else hb_clients h @ [c])
      in h\<lparr>hb_clients := cs, hb_gauge := length cs\<rparr>)"

definition hubUnregister :: "nat \<Rightarrow> Hub \<Rightarrow> error + Hub" where
  "hubUnregister c h =
     (if c \<in> set (hb_clients h) then
        (case closeSend c (h\<lparr>hb_clients := removeAll c (hb_clients h)\<rparr>) of
           Inl p \<Rightarrow> Inl p
         | Inr h' \<Rightarrow> Inr (h'\<lparr>hb_gauge := length (hb_clients h')\<rparr>))
      else Inr h)"

text \<open>One client's turn in the fan-out: a non-blocking send, or the client is dropped.\<close>

definition hubOffer :: "string \<Rightarrow> nat \<Rightarrow> Hub \<Rightarrow> error + Hub" where
  "hubOffer msg c h =
     (case hb_objects h c of
        None \<Rightarrow> Inl ''nil client''
      | Some cl \<Rightarrow>
          if cl_closed cl then Inl ''send on closed channel''
          else if length (cl_send cl) < sendBuffer then
            Inr (h\<lparr>hb_objects := (hb_objects h)(c \<mapsto> cl\<lparr>cl_send := cl_send cl @ [msg]\<rparr>)\<rparr>)
          else closeSend c (h\<lparr>hb_clients := removeAll c (hb_clients h)\<rparr>))"

fun hubFan :: "string \<Rightarrow> nat list \<Rightarrow> Hub \<Rightarrow> error + Hub" where
  "hubFan msg [] h = Inr h"
| "hubFan msg (c # cs) h = (case hubOffer msg c h of Inl p \<Rightarrow> Inl p | Inr h' \<Rightarrow> hubFan msg cs h')"

text \<open>The loop takes one message off the broadcast channel and fans it out.\<close>

definition hubDeliver :: "nat list \<Rightarrow> Hub \<Rightarrow> error + Hub" where
  "hubDeliver ks h =
     (case hb_broadcast h of
        [] \<Rightarrow> Inr h
      | msg # rest \<Rightarrow> hubFan msg ks (h\<lparr>hb_broadcast := rest\<rparr>))"

definition ClientCount :: "Hub \<Rightarrow> nat" where
  "ClientCount h = length (hb_clients h)"

section \<open>The other goroutines\<close>

text \<open>\<open>Broadcast\<close>: the JSON encoder is an argument; a full channel drops the message.\<close>

definition Broadcast :: "('v \<Rightarrow> error + string) \<Rightarrow> 'v \<Rightarrow> Hub \<Rightarrow> Hub" where
  "Broadcast marshal v h =
     (case marshal v of
        Inl err \<Rightarrow> h
      | Inr msg \<Rightarrow>
          if length (hb_broadcast h) < broadcastBuffer then h\<lparr>hb_broadcast := hb_broadcast h @ [msg]\<rparr> else h)"

text \<open>\<open>ServeWS\<close> after the upgrade: a new client object, handed to the hub.\<close>

definition serveWS :: "nat \<Rightarrow> Hub \<Rightarrow> Hub" where
  "serveWS c h = hubRegister c (h\<lparr>hb_objects := (hb_objects h)(c \<mapsto> new_client)\<rparr>)"

text \<open>
  One turn of \<open>writePump\<close> on its \<open>send\<close> channel: write the next message, stop on a write error
  (\<open>writeOk\<close> is false), stop when the channel is closed and drained, else wait.
\<close>

definition writePump :: "bool \<Rightarrow> nat \<Rightarrow> Hub \<Rightarrow> Hub" where
  "writePump writeOk c h =
     (case hb_objects h c of
        None \<Rightarrow> h
      | Some cl \<Rightarrow>
          if cl_done cl then h
          else (case cl_send cl of
             msg # rest \<Rightarrow>
               h\<lparr>hb_objects := (hb_objects h)(c \<mapsto>
                   (if writeOk then cl\<lparr>cl_send := rest, cl_written := cl_written cl @ [msg]\<rparr>
                    else cl\<lparr>cl_send := rest, cl_done := True\<rparr>))\<rparr>
           | [] \<Rightarrow>
               if cl_closed cl then h\<lparr>hb_objects := (hb_objects h)(c \<mapsto> cl\<lparr>cl_done := True\<rparr>)\<rparr> else h))"

text \<open>The ticker case: a ping that cannot be written stops the pump.\<close>

definition pingPump :: "bool \<Rightarrow> nat \<Rightarrow> Hub \<Rightarrow> Hub" where
  "pingPump writeOk c h =
     (case hb_objects h c of
        None \<Rightarrow> h
      | Some cl \<Rightarrow>
          if cl_done cl \<or> writeOk then h
          else h\<lparr>hb_objects := (hb_objects h)(c \<mapsto> cl\<lparr>cl_done := True\<rparr>)\<rparr>)"

text \<open>One read of \<open>readPump\<close>: control frames only; a failed read hands the client to the hub to drop.\<close>

definition readPump :: "bool \<Rightarrow> nat \<Rightarrow> Hub \<Rightarrow> error + Hub" where
  "readPump readOk c h = (if readOk then Inr h else hubUnregister c h)"

section \<open>Runs\<close>

text \<open>
  The states the hub goes through, with two observations of the run: all messages fanned out so
  far, and for each client how many there had been when it registered.
\<close>

inductive hub_reach :: "Hub \<Rightarrow> string list \<Rightarrow> (nat \<rightharpoonup> nat) \<Rightarrow> bool" where
  start: "hub_reach NewHub [] Map.empty"
| connect: "hub_reach h sent since \<Longrightarrow> hb_objects h c = None \<Longrightarrow>
    hub_reach (serveWS c h) sent (since(c \<mapsto> length sent))"
| leave: "hub_reach h sent since \<Longrightarrow> hb_objects h c \<noteq> None \<Longrightarrow> hubUnregister c h = Inr h' \<Longrightarrow>
    hub_reach h' sent since"
| queue: "hub_reach h sent since \<Longrightarrow> hub_reach (Broadcast (\<lambda>m. m) marshalled h) sent since"
| deliver: "hub_reach h sent since \<Longrightarrow> hb_broadcast h = msg # rest \<Longrightarrow> mset ks = mset (hb_clients h) \<Longrightarrow>
    hubDeliver ks h = Inr h' \<Longrightarrow> hub_reach h' (sent @ [msg]) since"
| pump: "hub_reach h sent since \<Longrightarrow> hub_reach (writePump ok c h) sent since"
| ping: "hub_reach h sent since \<Longrightarrow> hub_reach (pingPump ok c h) sent since"

text \<open>
  The invariant: the clients are distinct live objects with open channels, whoever has left is
  closed, buffers keep to their bounds, and what a client has been sent is what was fanned out
  since it registered: all of it while it is connected (unless its connection failed), an initial
  part of it in any case.
\<close>

definition received :: "Client \<Rightarrow> string list" where
  "received cl = cl_written cl @ cl_send cl"

definition client_ok :: "Hub \<Rightarrow> string list \<Rightarrow> (nat \<rightharpoonup> nat) \<Rightarrow> nat \<Rightarrow> Client \<Rightarrow> bool" where
  "client_ok h sent since c cl \<longleftrightarrow>
     (c \<in> set (hb_clients h) \<longleftrightarrow> \<not> cl_closed cl) \<and> length (cl_send cl) \<le> sendBuffer \<and>
     (\<exists>n. since c = Some n \<and> n \<le> length sent \<and>
        (\<not> cl_done cl \<longrightarrow> prefix (received cl) (drop n sent)) \<and>
        (\<not> cl_done cl \<longrightarrow> \<not> cl_closed cl \<longrightarrow> received cl = drop n sent) \<and>
        subseq (cl_written cl) (drop n sent))"

definition hub_ok :: "Hub \<Rightarrow> string list \<Rightarrow> (nat \<rightharpoonup> nat) \<Rightarrow> bool" where
  "hub_ok h sent since \<longleftrightarrow> distinct (hb_clients h) \<and> length (hb_broadcast h) \<le> broadcastBuffer \<and>
     (\<forall>c\<in>set (hb_clients h). hb_objects h c \<noteq> None) \<and>
     (\<forall>c cl. hb_objects h c = Some cl \<longrightarrow> client_ok h sent since c cl)"

lemma hub_ok_start: "hub_ok NewHub [] Map.empty"
  by (simp add: hub_ok_def NewHub_def broadcastBuffer_def)

section \<open>The fan-out, client by client\<close>

definition has_room :: "Client \<Rightarrow> bool" where
  "has_room cl \<longleftrightarrow> length (cl_send cl) < sendBuffer"

definition offered_to :: "string \<Rightarrow> Client \<Rightarrow> Client" where
  "offered_to msg cl = (if has_room cl then cl\<lparr>cl_send := cl_send cl @ [msg]\<rparr> else cl\<lparr>cl_closed := True\<rparr>)"

definition live :: "Hub \<Rightarrow> nat \<Rightarrow> bool" where
  "live h c \<longleftrightarrow> (\<exists>cl. hb_objects h c = Some cl \<and> \<not> cl_closed cl)"

definition keeps :: "Hub \<Rightarrow> nat \<Rightarrow> bool" where
  "keeps h c \<longleftrightarrow> (\<forall>cl. hb_objects h c = Some cl \<longrightarrow> has_room cl)"

lemma hubOffer_result:
  assumes "live h c"
  obtains h' where "hubOffer msg c h = Inr h'" "hb_objects h' = (hb_objects h)(c := map_option (offered_to msg) (hb_objects h c))"
    "hb_clients h' = (if keeps h c then hb_clients h else removeAll c (hb_clients h))"
    "hb_broadcast h' = hb_broadcast h" "hb_gauge h' = hb_gauge h"
proof -
  obtain cl where cl: "hb_objects h c = Some cl" "\<not> cl_closed cl" using assms by (auto simp: live_def)
  have k: "keeps h c \<longleftrightarrow> has_room cl" using cl by (simp add: keeps_def)
  show ?thesis
  proof (cases "has_room cl")
    case True
    then show ?thesis
      using cl k that [of "h\<lparr>hb_objects := (hb_objects h)(c \<mapsto> cl\<lparr>cl_send := cl_send cl @ [msg]\<rparr>)\<rparr>"]
      by (simp add: hubOffer_def has_room_def [symmetric] offered_to_def)
  next
    case False
    then show ?thesis
      using cl k that [of "h\<lparr>hb_clients := removeAll c (hb_clients h), hb_objects := (hb_objects h)(c \<mapsto> cl\<lparr>cl_closed := True\<rparr>)\<rparr>"]
      by (simp add: hubOffer_def has_room_def [symmetric] offered_to_def closeSend_def)
  qed
qed

lemma hubFan_result:
  assumes "distinct ks" and "\<forall>c\<in>set ks. live h c"
  shows "\<exists>h'. hubFan msg ks h = Inr h' \<and>
    hb_objects h' = (\<lambda>c. if c \<in> set ks then map_option (offered_to msg) (hb_objects h c) else hb_objects h c) \<and>
    hb_clients h' = filter (\<lambda>c. c \<notin> set ks \<or> keeps h c) (hb_clients h) \<and>
    hb_broadcast h' = hb_broadcast h \<and> hb_gauge h' = hb_gauge h"
  using assms
proof (induction ks arbitrary: h)
  case Nil
  then show ?case by simp
next
  case (Cons c ks)
  have "live h c" using Cons.prems by simp
  then obtain h1 where h1: "hubOffer msg c h = Inr h1"
    "hb_objects h1 = (hb_objects h)(c := map_option (offered_to msg) (hb_objects h c))"
    "hb_clients h1 = (if keeps h c then hb_clients h else removeAll c (hb_clients h))"
    "hb_broadcast h1 = hb_broadcast h" "hb_gauge h1 = hb_gauge h"
    by (rule hubOffer_result)
  have others: "live h1 d \<longleftrightarrow> live h d" "keeps h1 d \<longleftrightarrow> keeps h d" if "d \<in> set ks" for d
    using that Cons.prems(1) by (auto simp: live_def keeps_def h1(2))
  have "distinct ks" "\<forall>d\<in>set ks. live h1 d" using Cons.prems others by auto
  then obtain h' where h': "hubFan msg ks h1 = Inr h'"
    "hb_objects h' = (\<lambda>d. if d \<in> set ks then map_option (offered_to msg) (hb_objects h1 d) else hb_objects h1 d)"
    "hb_clients h' = filter (\<lambda>d. d \<notin> set ks \<or> keeps h1 d) (hb_clients h1)"
    "hb_broadcast h' = hb_broadcast h1" "hb_gauge h' = hb_gauge h1"
    using Cons.IH by blast
  have "hb_objects h' = (\<lambda>d. if d \<in> set (c # ks) then map_option (offered_to msg) (hb_objects h d) else hb_objects h d)"
    using Cons.prems(1) by (auto simp: h'(2) h1(2) fun_eq_iff)
  moreover have "hb_clients h' = filter (\<lambda>d. d \<notin> set (c # ks) \<or> keeps h d) (hb_clients h)"
  proof -
    have "filter (\<lambda>d. d \<notin> set ks \<or> keeps h1 d) (hb_clients h1) = filter (\<lambda>d. d \<notin> set ks \<or> keeps h d) (hb_clients h1)"
      using others(2) by (intro filter_cong) auto
    also have "\<dots> = filter (\<lambda>d. d \<notin> set (c # ks) \<or> keeps h d) (hb_clients h)"
      using Cons.prems(1) by (auto simp: h1(3) removeAll_filter_not_eq intro!: filter_cong)
    finally show ?thesis by (simp add: h'(3))
  qed
  ultimately show ?case using h1 h' by simp
qed

section \<open>Every step keeps the invariant\<close>

lemma hub_okD:
  assumes "hub_ok h sent since"
  shows "distinct (hb_clients h)" "length (hb_broadcast h) \<le> broadcastBuffer"
    "\<And>c. c \<in> set (hb_clients h) \<Longrightarrow> live h c"
    "\<And>c cl. hb_objects h c = Some cl \<Longrightarrow> client_ok h sent since c cl"
proof -
  show "distinct (hb_clients h)" "length (hb_broadcast h) \<le> broadcastBuffer"
    and ok: "\<And>c cl. hb_objects h c = Some cl \<Longrightarrow> client_ok h sent since c cl"
    using assms by (auto simp: hub_ok_def)
  fix c assume c: "c \<in> set (hb_clients h)"
  then obtain cl where cl: "hb_objects h c = Some cl" using assms by (auto simp: hub_ok_def)
  then show "live h c" using ok [OF cl] c by (simp add: live_def client_ok_def)
qed

lemma hub_ok_connect:
  assumes ok: "hub_ok h sent since" and fresh: "hb_objects h c = None"
  shows "hub_ok (serveWS c h) sent (since(c \<mapsto> length sent))"
proof -
  have c: "c \<notin> set (hb_clients h)" using hub_okD(3) [OF ok, of c] fresh by (auto simp: live_def)
  have "client_ok (serveWS c h) sent (since(c \<mapsto> length sent)) d cl"
    if "hb_objects (serveWS c h) d = Some cl" for d cl
  proof (cases "d = c")
    case True
    then show ?thesis using that c
      by (auto simp: client_ok_def serveWS_def hubRegister_def Let_def new_client_def received_def sendBuffer_def)
  next
    case False
    then have "hb_objects h d = Some cl" using that by (simp add: serveWS_def hubRegister_def Let_def)
    then show ?thesis using hub_okD(4) [OF ok] False c
      by (simp add: client_ok_def serveWS_def hubRegister_def Let_def)
  qed
  then show ?thesis using ok c
    by (auto simp: hub_ok_def) (auto simp: serveWS_def hubRegister_def Let_def)
qed

text \<open>Unregistering never panics: a registered client is open.\<close>

lemma hubUnregister_result:
  assumes ok: "hub_ok h sent since"
  shows "\<exists>h'. hubUnregister c h = Inr h' \<and> hub_ok h' sent since"
proof (cases "c \<in> set (hb_clients h)")
  case False
  then show ?thesis using ok by (simp add: hubUnregister_def)
next
  case True
  then obtain cl where cl: "hb_objects h c = Some cl" "\<not> cl_closed cl"
    using hub_okD(3) [OF ok] by (auto simp: live_def)
  let ?h = "h\<lparr>hb_clients := removeAll c (hb_clients h), hb_objects := (hb_objects h)(c \<mapsto> cl\<lparr>cl_closed := True\<rparr>),
    hb_gauge := length (removeAll c (hb_clients h))\<rparr>"
  have "hubUnregister c h = Inr ?h" using True cl by (simp add: hubUnregister_def closeSend_def)
  moreover have "client_ok ?h sent since d k" if "hb_objects ?h d = Some k" for d k
    using that hub_okD(4) [OF ok cl(1)] hub_okD(4) [OF ok, of d k] cl
    by (cases "d = c") (auto simp: client_ok_def received_def)
  then have "hub_ok ?h sent since" using ok by (auto simp: hub_ok_def distinct_removeAll)
  ultimately show ?thesis by blast
qed

lemma hub_ok_queue: "hub_ok h sent since \<Longrightarrow> hub_ok (Broadcast marshal v h) sent since"
  by (auto simp: hub_ok_def Broadcast_def client_ok_def split: sum.split)

lemma client_ok_replace:
  assumes ok: "hub_ok h sent since" and c: "hb_objects h c = Some cl"
    and new: "client_ok h sent since c cl \<Longrightarrow> client_ok (h\<lparr>hb_objects := (hb_objects h)(c \<mapsto> cl')\<rparr>) sent since c cl'"
  shows "hub_ok (h\<lparr>hb_objects := (hb_objects h)(c \<mapsto> cl')\<rparr>) sent since"
proof -
  have "client_ok (h\<lparr>hb_objects := (hb_objects h)(c \<mapsto> cl')\<rparr>) sent since d k"
    if "hb_objects (h\<lparr>hb_objects := (hb_objects h)(c \<mapsto> cl')\<rparr>) d = Some k" for d k
    using that new hub_okD(4) [OF ok c] hub_okD(4) [OF ok, of d k]
    by (cases "d = c") (simp_all add: client_ok_def)
  then show ?thesis using ok by (auto simp: hub_ok_def)
qed

lemma prefix_subseq: "prefix (xs @ ys) zs \<Longrightarrow> subseq xs zs"
  by (metis append_prefixD prefix_imp_subseq)

lemma hub_ok_pump:
  assumes ok: "hub_ok h sent since"
  shows "hub_ok (writePump writeOk c h) sent since"
proof (cases "hb_objects h c")
  case None
  then show ?thesis using ok by (simp add: writePump_def)
next
  case (Some cl)
  note replace = client_ok_replace [OF ok Some]
  have done_ok: "client_ok (h\<lparr>hb_objects := (hb_objects h)(c \<mapsto> cl'\<lparr>cl_done := True\<rparr>)\<rparr>) sent since c (cl'\<lparr>cl_done := True\<rparr>)"
    if "client_ok h sent since c cl" "cl_closed cl' = cl_closed cl" "length (cl_send cl') \<le> length (cl_send cl)"
      "cl_written cl' = cl_written cl" for cl'
    using that by (auto simp: client_ok_def)
  show ?thesis
  proof (cases "cl_send cl")
    case Nil
    then show ?thesis using Some ok replace [of "cl\<lparr>cl_done := True\<rparr>"] done_ok [of cl]
      by (auto simp: writePump_def)
  next
    case (Cons msg rest)
    have "client_ok (h\<lparr>hb_objects := (hb_objects h)(c \<mapsto> cl\<lparr>cl_send := rest, cl_written := cl_written cl @ [msg]\<rparr>)\<rparr>)
        sent since c (cl\<lparr>cl_send := rest, cl_written := cl_written cl @ [msg]\<rparr>)"
      if "client_ok h sent since c cl" "\<not> cl_done cl"
      using that Cons prefix_subseq [of "cl_written cl @ [msg]" rest]
      by (auto simp: client_ok_def received_def)
    then show ?thesis
      using Some Cons ok replace [of "cl\<lparr>cl_send := rest, cl_written := cl_written cl @ [msg]\<rparr>"]
        replace [of "cl\<lparr>cl_send := rest, cl_done := True\<rparr>"] done_ok [of "cl\<lparr>cl_send := rest\<rparr>"]
      by (auto simp: writePump_def)
  qed
qed

lemma hub_ok_ping:
  assumes ok: "hub_ok h sent since"
  shows "hub_ok (pingPump writeOk c h) sent since"
proof (cases "hb_objects h c")
  case None
  then show ?thesis using ok by (simp add: pingPump_def)
next
  case (Some cl)
  then show ?thesis using ok client_ok_replace [OF ok Some, of "cl\<lparr>cl_done := True\<rparr>"]
    by (auto simp: pingPump_def client_ok_def)
qed

lemma client_ok_deliver:
  assumes ok: "client_ok h sent since c cl"
    and new: "cl' = (if c \<in> set (hb_clients h) then offered_to msg cl else cl)"
    and cs: "c \<in> set (hb_clients h') \<longleftrightarrow> c \<in> set (hb_clients h) \<and> has_room cl"
  shows "client_ok h' (sent @ [msg]) since c cl'"
proof -
  obtain n where n: "since c = Some n" "n \<le> length sent" "\<not> cl_done cl \<Longrightarrow> prefix (received cl) (drop n sent)"
    "\<not> cl_done cl \<Longrightarrow> \<not> cl_closed cl \<Longrightarrow> received cl = drop n sent" "subseq (cl_written cl) (drop n sent)"
    using ok by (auto simp: client_ok_def)
  have reg: "c \<in> set (hb_clients h) \<longleftrightarrow> \<not> cl_closed cl" and len: "length (cl_send cl) \<le> sendBuffer"
    using ok by (auto simp: client_ok_def)
  have sub: "subseq (cl_written cl) (drop n (sent @ [msg]))" using n(2,5) by (simp add: list_emb_prefix)
  have pre: "\<not> cl_done cl \<Longrightarrow> prefix (received cl) (drop n (sent @ [msg]))" using n(2,3) by (simp add: prefix_prefix)
  show ?thesis
  proof (cases "c \<in> set (hb_clients h) \<and> has_room cl")
    case True
    then have "cl' = cl\<lparr>cl_send := cl_send cl @ [msg]\<rparr>" by (simp add: new offered_to_def)
    then show ?thesis using True n reg sub cs
      by (auto simp: client_ok_def received_def has_room_def)
  next
    case False
    then have "cl_closed cl'" "received cl' = received cl" "cl_written cl' = cl_written cl" "cl_done cl' = cl_done cl"
      "cl_send cl' = cl_send cl"
      using reg by (auto simp: new offered_to_def received_def)
    then show ?thesis using False n(1,2) sub pre len cs by (auto simp: client_ok_def)
  qed
qed

lemma hubDeliver_result:
  assumes ok: "hub_ok h sent since" and msg: "hb_broadcast h = msg # rest" and ks: "mset ks = mset (hb_clients h)"
  shows "\<exists>h'. hubDeliver ks h = Inr h' \<and> hub_ok h' (sent @ [msg]) since \<and> hb_gauge h' = hb_gauge h \<and>
    hb_clients h' = filter (keeps h) (hb_clients h)"
proof -
  let ?h = "h\<lparr>hb_broadcast := rest\<rparr>"
  have set_ks: "set ks = set (hb_clients h)" using ks by (metis set_mset_mset)
  have "distinct ks" using ks hub_okD(1) [OF ok] by (metis mset_eq_imp_distinct_iff)
  moreover have "\<forall>c\<in>set ks. live ?h c" using hub_okD(3) [OF ok] set_ks by (simp add: live_def)
  ultimately obtain h' where h': "hubFan msg ks ?h = Inr h'"
    "hb_objects h' = (\<lambda>c. if c \<in> set ks then map_option (offered_to msg) (hb_objects ?h c) else hb_objects ?h c)"
    "hb_clients h' = filter (\<lambda>c. c \<notin> set ks \<or> keeps ?h c) (hb_clients ?h)"
    "hb_broadcast h' = hb_broadcast ?h" "hb_gauge h' = hb_gauge ?h"
    using hubFan_result by blast
  have "keeps ?h = keeps h" by (simp add: keeps_def fun_eq_iff)
  then have cs: "hb_clients h' = filter (keeps h) (hb_clients h)"
    using h'(3) set_ks by (auto intro!: filter_cong)
  have "client_ok h' (sent @ [msg]) since c k" if k: "hb_objects h' c = Some k" for c k
  proof -
    obtain cl where cl: "hb_objects h c = Some cl" "k = (if c \<in> set (hb_clients h) then offered_to msg cl else cl)"
      using k h'(2) set_ks by (auto split: if_splits)
    show ?thesis
      using cl by (intro client_ok_deliver [OF hub_okD(4) [OF ok cl(1)] cl(2)]) (simp add: cs keeps_def)
  qed
  moreover have "\<forall>c\<in>set (hb_clients h'). hb_objects h' c \<noteq> None"
    using hub_okD(3) [OF ok] by (force simp: cs h'(2) live_def)
  moreover have "length (hb_broadcast h') \<le> broadcastBuffer"
    using hub_okD(2) [OF ok] h'(4) msg by simp
  ultimately have "hub_ok h' (sent @ [msg]) since" using hub_okD(1) [OF ok] by (simp add: hub_ok_def cs)
  then show ?thesis using h'(1,5) cs msg by (simp add: hubDeliver_def)
qed

lemma hubDeliver_objects:
  assumes ok: "hub_ok h sent since" and msg: "hb_broadcast h = msg # rest" and ks: "mset ks = mset (hb_clients h)"
    and h': "hubDeliver ks h = Inr h'"
  shows "(hb_objects h' c = None) = (hb_objects h c = None)"
proof -
  let ?h = "h\<lparr>hb_broadcast := rest\<rparr>"
  have set_ks: "set ks = set (hb_clients h)" using ks by (metis set_mset_mset)
  have "distinct ks" using ks hub_okD(1) [OF ok] by (metis mset_eq_imp_distinct_iff)
  moreover have "\<forall>c\<in>set ks. live ?h c" using hub_okD(3) [OF ok] set_ks by (simp add: live_def)
  ultimately show ?thesis using hubFan_result [of ks ?h msg] h' msg by (auto simp: hubDeliver_def)
qed

theorem hub_reach_ok: "hub_reach h sent since \<Longrightarrow> hub_ok h sent since"
proof (induction rule: hub_reach.induct)
  case start
  show ?case by (rule hub_ok_start)
next
  case (connect h sent since c)
  show ?case by (rule hub_ok_connect [OF connect(3,2)])
next
  case (leave h sent since c h')
  then show ?case using hubUnregister_result [of h sent since c] by auto
next
  case (queue h sent since marshalled)
  then show ?case by (simp add: hub_ok_queue)
next
  case (deliver h sent since msg rest ks h')
  then show ?case using hubDeliver_result [of h sent since msg rest ks] by auto
next
  case (pump h sent since ok c)
  then show ?case by (simp add: hub_ok_pump)
next
  case (ping h sent since ok c)
  then show ?case by (simp add: hub_ok_ping)
qed

section \<open>Properties\<close>

text \<open>Safety. The hub never panics: in every state it reaches, unregistering any client and
  fanning out the next message, in whatever order the clients are ranged over, close no channel
  twice and send on no closed channel; and afterwards no slow client is left registered with a full
  buffer's message missing: it is dropped, the others keep their place.\<close>

theorem hub_never_panics:
  assumes "hub_reach h sent since" and "hb_broadcast h = msg # rest" and "mset ks = mset (hb_clients h)"
  shows "(\<exists>h'. hubUnregister c h = Inr h') \<and>
    (\<exists>h'. hubDeliver ks h = Inr h' \<and> hb_clients h' = filter (keeps h) (hb_clients h))"
  using hubUnregister_result [OF hub_reach_ok [OF assms(1)]] hubDeliver_result [OF hub_reach_ok [OF assms(1)] assms(2,3)]
  by blast

text \<open>Safety. A connected dashboard whose connection works has, written or still buffered,
  exactly the messages fanned out since it registered, all of them, once each and in order; one that
  was dropped has an initial part of them; and no client's buffer ever exceeds its bound.\<close>

theorem connected_clients_miss_nothing:
  assumes "hub_reach h sent since" and "hb_objects h c = Some cl" and "\<not> cl_done cl"
  shows "\<exists>n\<le>length sent. since c = Some n \<and> prefix (cl_written cl @ cl_send cl) (drop n sent) \<and>
    (c \<in> set (hb_clients h) \<longrightarrow> cl_written cl @ cl_send cl = drop n sent) \<and> length (cl_send cl) \<le> sendBuffer"
  using hub_okD(4) [OF hub_reach_ok [OF assms(1)] assms(2)] assms(3)
  by (auto simp: client_ok_def received_def)

definition sample_hub :: Hub where
  "sample_hub = Broadcast (\<lambda>m. m) (Inr ''trade'') (serveWS 7 NewHub)"

lemma sample_hub_reach: "hub_reach sample_hub [] [7 \<mapsto> 0]"
  using connect [OF start, of 7] queue [of "serveWS 7 NewHub" "[]" "[7 \<mapsto> 0]" "Inr ''trade''"]
  by (simp add: sample_hub_def NewHub_def)

lemma sample_hub_state:
  "hb_broadcast sample_hub = [''trade'']" "hb_clients sample_hub = [7]"
  by (simp_all add: sample_hub_def Broadcast_def serveWS_def hubRegister_def NewHub_def broadcastBuffer_def)

theorem hub_never_panics_witness: "\<exists>h'. hubDeliver [7] sample_hub = Inr h'"
  using hub_never_panics [OF sample_hub_reach sample_hub_state(1), of "[7]"] by (auto simp: sample_hub_state(2))

definition sample_delivered :: Hub where
  "sample_delivered = projr (hubDeliver [7] sample_hub)"

lemma sample_delivered_eq:
  "hubDeliver [7] sample_hub = Inr sample_delivered"
  "hb_objects sample_delivered 7 = Some \<lparr>cl_send = [''trade''], cl_closed = False, cl_written = [], cl_done = False\<rparr>"
  by (simp_all add: sample_delivered_def sample_hub_def hubDeliver_def hubOffer_def Broadcast_def serveWS_def
    hubRegister_def NewHub_def broadcastBuffer_def sendBuffer_def new_client_def)

theorem connected_clients_miss_nothing_witness:
  "prefix [''trade''] (drop (the ([7 \<mapsto> 0] (7 :: nat))) [''trade''])"
proof -
  have "hub_reach sample_delivered ([] @ [''trade'']) [7 \<mapsto> 0]"
    by (rule deliver [OF sample_hub_reach sample_hub_state(1) _ sample_delivered_eq(1)]) (simp add: sample_hub_state(2))
  from connected_clients_miss_nothing [OF this sample_delivered_eq(2)] show ?thesis by auto
qed

end
