(* ===== verification/Api.thy ===== *)
theory Api
  imports Cache Http Consumers Hub
begin

text \<open>
  The HTTP handlers of \<open>gateway/internal/api/handlers.go\<close>. A handler takes the server's
  dependencies (the \<open>Server\<close> record, as in the code), what the runtime chooses while it runs
  (\<open>choices\<close>), the headers set so far and the request, and answers with a response and the new
  state of the world. Goroutines it starts are kept as pending tasks and run as steps of their own.
\<close>

section \<open>The server and the world\<close>

text \<open>The method table behind an \<open>EngineClient\<close>; \<open>eo_Account\<close> is \<open>None\<close> for a client that is no
  \<open>AccountProvider\<close>.\<close>

type_synonym bookChoices = "i64 \<times> i64 list \<times> i64 list"

record 's EngineOps =
  eo_Submit :: "'s \<Rightarrow> error option \<Rightarrow> NewOrder \<Rightarrow> i64 \<Rightarrow> (error + OrderAck) \<times> 's"
  eo_Cancel :: "'s \<Rightarrow> error option \<Rightarrow> CancelOrder \<Rightarrow> string list \<Rightarrow> (error + OrderAck) \<times> 's"
  eo_Book :: "'s \<Rightarrow> error option \<Rightarrow> BookRequest \<Rightarrow> bookChoices \<Rightarrow> (error + BookSnapshot) \<times> 's"
  eo_Account :: "('s \<Rightarrow> error option \<Rightarrow> string \<Rightarrow> string list \<Rightarrow> error + AccountSnapshot) option"

definition localOps :: "LocalEngine EngineOps" where
  "localOps = \<lparr>eo_Submit = SubmitOrder, eo_Cancel = CancelOrder,
     eo_Book = (\<lambda>e ctxErr r (now, bidKeys, askKeys). GetBook e ctxErr r now bidKeys askKeys),
     eo_Account = Some (\<lambda>e. GetAccount (le_accounts e) (le_lastPrice e))\<rparr>"

definition grpcOps :: "'s EngineStub \<Rightarrow> 's EngineOps" where
  "grpcOps stub = \<lparr>eo_Submit = (\<lambda>s ctxErr o' now. GRPCSubmitOrder stub s ctxErr o'),
     eo_Cancel = (\<lambda>s ctxErr c syms. GRPCCancelOrder stub s ctxErr c),
     eo_Book = (\<lambda>s ctxErr r ch. GRPCGetBook stub s ctxErr r), eo_Account = None\<rparr>"

record 'w PublisherOps =
  po_Submit :: "'w \<Rightarrow> NewOrder \<Rightarrow> OrderAck \<Rightarrow> i64 \<Rightarrow> 'w"
  po_Cancel :: "'w \<Rightarrow> CancelOrder \<Rightarrow> OrderAck \<Rightarrow> i64 \<Rightarrow> 'w"

text \<open>What \<open>accountFromDB\<close> gets from Postgres: a row, no row, or an error.\<close>

datatype 'a queryRow = NoRows | QueryError error | Row 'a

record LedgerDB =
  db_seedCash :: "string \<Rightarrow> i64 queryRow"
  db_tradeCash :: "string \<Rightarrow> i64 queryRow"
  db_positions :: "string \<Rightarrow> error + (error + string \<times> i64) list"

datatype wsMessage = TradeMsg Trade | BookMsg BookSnapshot

datatype metric = RiskGateReject | OrderSubmitted string | OrderLatency | TradeBroadcast | SignalCounted string

record ('s, 'r, 'w) Server =
  srv_eng :: "'s EngineOps"
  srv_cache :: "'r Cache option"
  srv_orders :: "'w PublisherOps"
  srv_risk :: "string \<Rightarrow> bool \<times> string"
  srv_db :: "LedgerDB option"
  srv_codec :: snapCodec
  srv_decodeOrder :: "string \<Rightarrow> error + NewOrder"
  srv_marshal :: "wsMessage \<Rightarrow> error + string"

record ('s, 'r, 'w) World =
  wd_engine :: 's
  wd_redis :: 'r
  wd_feed :: 'w
  wd_hub :: Hub
  wd_metrics :: "metric list"
  wd_tasks :: "(Trade list \<times> string) list"

text \<open>
  The choices of the runtime during one handler: the error of the timeout context when the engine
  is asked, the clocks, the orders of the engine's map ranges.
\<close>

record choices =
  ch_ctxErr :: "error option"
  ch_now :: i64
  ch_published :: i64
  ch_syms :: "string list"
  ch_book :: bookChoices

definition count_metrics :: "metric list \<Rightarrow> ('s, 'r, 'w) World \<Rightarrow> ('s, 'r, 'w) World" where
  "count_metrics ms w = w\<lparr>wd_metrics := wd_metrics w @ ms\<rparr>"

section \<open>POST /orders\<close>

text \<open>The order as the rest of the handler sees it: attributed to the token's account.\<close>

definition attributed :: "HttpRequest \<Rightarrow> NewOrder \<Rightarrow> NewOrder" where
  "attributed rq o' = (if rq_account rq \<noteq> '''' then o'\<lparr>no_AccountID := rq_account rq\<rparr> else o')"

definition handleSubmit ::
  "('s, 'r, 'w) Server \<Rightarrow> choices \<Rightarrow> ('s, 'r, 'w) World handler" where
  "handleSubmit s ch h rq w =
     (case srv_decodeOrder s (rq_body rq) of
        Inl err \<Rightarrow> (writeErr h 400 ''invalid JSON body'', w)
      | Inr o0 \<Rightarrow>
          let o' = attributed rq o0
          in if no_Symbol o' = '''' then (writeErr h 400 ''symbol required'', w)
             else
               (let (blocked, reason) = srv_risk s (no_AccountID o')
                in if blocked then
                     let w1 = count_metrics [RiskGateReject, OrderSubmitted ''risk_blocked'', OrderLatency] w;
                         rejAck = ack_zero\<lparr>ack_Status := StatusRejected, ack_Reason := ''risk: '' @ reason\<rparr>;
                         w2 = w1\<lparr>wd_feed := po_Submit (srv_orders s) (wd_feed w1) o' rejAck (ch_published ch)\<rparr>
                     in (writeJSON h 422 (AckBody rejAck), w2)
                   else
                     (case eo_Submit (srv_eng s) (wd_engine w) (ch_ctxErr ch) o' (ch_now ch) of
                        (Inl err, e) \<Rightarrow>
                          (writeErr h 502 (''engine unavailable: '' @ err),
                           count_metrics [OrderLatency, OrderSubmitted ''gateway_error''] (w\<lparr>wd_engine := e\<rparr>))
                      | (Inr ack, e) \<Rightarrow>
                          let w1 = count_metrics [OrderLatency, OrderSubmitted (ack_Status ack)] (w\<lparr>wd_engine := e\<rparr>);
                              w2 = w1\<lparr>wd_feed := po_Submit (srv_orders s) (wd_feed w1) o' ack (ch_published ch)\<rparr>;
                              w3 = w2\<lparr>wd_tasks := wd_tasks w2 @ [(ack_Trades ack, no_Symbol o')]\<rparr>;
                              status = (if ack_Status ack = StatusRejected then 422 else 201)
                          in (writeJSON h status (AckBody ack), w3))))"

section \<open>DELETE /orders/{id}\<close>

definition cancelRequest :: "HttpRequest \<Rightarrow> CancelOrder" where
  "cancelRequest rq = \<lparr>co_OrderID = rq_path rq ''id'', co_Symbol = rq_query rq ''symbol'', co_AccountID = rq_account rq\<rparr>"

definition handleCancel ::
  "('s, 'r, 'w) Server \<Rightarrow> choices \<Rightarrow> ('s, 'r, 'w) World handler" where
  "handleCancel s ch h rq w =
     (if rq_path rq ''id'' = '''' then (writeErr h 400 ''order id required'', w)
      else
        let cancelReq = cancelRequest rq
        in (case eo_Cancel (srv_eng s) (wd_engine w) (ch_ctxErr ch) cancelReq (ch_syms ch) of
              (Inl err, e) \<Rightarrow> (writeErr h 502 (''engine unavailable: '' @ err), w\<lparr>wd_engine := e\<rparr>)
            | (Inr ack, e) \<Rightarrow>
                (writeJSON h 200 (AckBody ack),
                 w\<lparr>wd_engine := e, wd_feed := po_Cancel (srv_orders s) (wd_feed w) cancelReq ack (ch_published ch)\<rparr>)))"

section \<open>GET /book/{symbol}\<close>

definition depthParam :: "string \<Rightarrow> i32" where
  "depthParam d =
     (if d \<noteq> '''' then
        (case atoi d of None \<Rightarrow> 5 | Some n \<Rightarrow> if 0 <s n then ucast n else 5)
      else 5)"

definition handleBook ::
  "('s, 'r, 'w) Server \<Rightarrow> choices \<Rightarrow> ('s, 'r, 'w) World handler" where
  "handleBook s ch h rq w =
     (let symbol = rq_path rq ''symbol''
      in if symbol = '''' then (writeErr h 400 ''symbol required'', w)
         else
           let depth = depthParam (rq_query rq ''depth'')
           in (case CacheGetBook (srv_codec s) (srv_cache s) (wd_redis w) symbol depth of
                 Some snap \<Rightarrow> (writeJSON (header_set h ''X-Cache'' ''HIT'') 200 (BookBody snap), w)
               | None \<Rightarrow>
                   (case eo_Book (srv_eng s) (wd_engine w) (ch_ctxErr ch) \<lparr>br_Symbol = symbol, br_Depth = depth\<rparr> (ch_book ch) of
                      (Inl err, e) \<Rightarrow> (writeErr h 502 (''engine unavailable: '' @ err), w\<lparr>wd_engine := e\<rparr>)
                    | (Inr snap, e) \<Rightarrow>
                        (writeJSON (header_set h ''X-Cache'' ''MISS'') 200 (BookBody snap),
                         w\<lparr>wd_engine := e, wd_redis := CacheSetBook (srv_codec s) (srv_cache s) (wd_redis w) depth snap\<rparr>))))"

section \<open>Fan-out to the dashboards\<close>

definition broadcast :: "('s, 'r, 'w) Server \<Rightarrow> wsMessage \<Rightarrow> ('s, 'r, 'w) World \<Rightarrow> ('s, 'r, 'w) World" where
  "broadcast s m w = w\<lparr>wd_hub := Broadcast (srv_marshal s) m (wd_hub w)\<rparr>"

fun broadcastTrades :: "('s, 'r, 'w) Server \<Rightarrow> Trade list \<Rightarrow> ('s, 'r, 'w) World \<Rightarrow> ('s, 'r, 'w) World" where
  "broadcastTrades s [] w = w"
| "broadcastTrades s (t # ts) w = broadcastTrades s ts (count_metrics [TradeBroadcast] (broadcast s (TradeMsg t) w))"

definition broadcastDepth :: i32 where "broadcastDepth = 20"

definition broadcastBook ::
  "('s, 'r, 'w) Server \<Rightarrow> choices \<Rightarrow> string \<Rightarrow> ('s, 'r, 'w) World \<Rightarrow> ('s, 'r, 'w) World" where
  "broadcastBook s ch symbol w =
     (case CacheGetBook (srv_codec s) (srv_cache s) (wd_redis w) symbol broadcastDepth of
        Some snap \<Rightarrow> broadcast s (BookMsg snap) w
      | None \<Rightarrow>
          (case eo_Book (srv_eng s) (wd_engine w) (ch_ctxErr ch) \<lparr>br_Symbol = symbol, br_Depth = broadcastDepth\<rparr> (ch_book ch) of
             (Inl err, e) \<Rightarrow> w\<lparr>wd_engine := e\<rparr>
           | (Inr snap, e) \<Rightarrow>
               broadcast s (BookMsg snap)
                 (w\<lparr>wd_engine := e, wd_redis := CacheSetBook (srv_codec s) (srv_cache s) (wd_redis w) broadcastDepth snap\<rparr>)))"

definition broadcastFills ::
  "('s, 'r, 'w) Server \<Rightarrow> choices \<Rightarrow> Trade list \<Rightarrow> string \<Rightarrow> ('s, 'r, 'w) World \<Rightarrow> ('s, 'r, 'w) World" where
  "broadcastFills s ch trades symbol w = broadcastBook s ch symbol (broadcastTrades s trades w)"

section \<open>GET /account\<close>

primrec scanPositions :: "(error + string \<times> i64) list \<Rightarrow> PositionView list \<Rightarrow> PositionView list" where
  "scanPositions [] ps = ps"
| "scanPositions (r # rs) ps =
     (case r of
        Inl err \<Rightarrow> scanPositions rs ps
      | Inr (sym', qty) \<Rightarrow>
          scanPositions rs (ps @ [\<lparr>pv_Symbol = sym', pv_Quantity = qty, pv_AvgPriceTicks = 0\<rparr>]))"

definition accountFromDB :: "LedgerDB \<Rightarrow> string \<Rightarrow> error + AccountSnapshot" where
  "accountFromDB db accountID =
     (case db_seedCash db accountID of
        QueryError err \<Rightarrow> Inl err
      | seed \<Rightarrow>
          let seedCash = (case seed of Row v \<Rightarrow> v | _ \<Rightarrow> 0);
              tradeCash = (case db_tradeCash db accountID of Row v \<Rightarrow> v | _ \<Rightarrow> 0)
          in (case db_positions db accountID of
                Inl err \<Rightarrow> Inl err
              | Inr rows \<Rightarrow>
                  Inr \<lparr>as_AccountID = accountID, as_CashTicks = seedCash + tradeCash, as_RealizedPnlTicks = 0,
                       as_UnrealizedPnlTicks = 0, as_Positions = scanPositions rows []\<rparr>))"

definition handleAccount ::
  "('s, 'r, 'w) Server \<Rightarrow> choices \<Rightarrow> ('s, 'r, 'w) World handler" where
  "handleAccount s ch h rq w =
     (let acct = rq_account rq
      in (case eo_Account (srv_eng s) of
            Some ap \<Rightarrow>
              (case ap (wd_engine w) (ch_ctxErr ch) acct (ch_syms ch) of
                 Inl err \<Rightarrow> (writeErr h 502 (''account unavailable: '' @ err), w)
               | Inr snap \<Rightarrow> (writeJSON h 200 (AccountBody snap), w))
          | None \<Rightarrow>
              (case srv_db s of
                 None \<Rightarrow> (writeJSON h 200 (AccountBody \<lparr>as_AccountID = acct, as_CashTicks = 0, as_RealizedPnlTicks = 0,
                            as_UnrealizedPnlTicks = 0, as_Positions = []\<rparr>), w)
               | Some db \<Rightarrow>
                   (case accountFromDB db acct of
                      Inl err \<Rightarrow> (writeErr h 502 (''account unavailable: '' @ err), w)
                    | Inr snap \<Rightarrow> (writeJSON h 200 (AccountBody snap), w)))))"

definition handleHealth :: "('s, 'r, 'w) Server \<Rightarrow> ('s, 'r, 'w) World handler" where
  "handleHealth s h rq w = (writeJSON h 200 (HealthBody (CachePing (srv_cache s) (wd_redis w))), w)"

section \<open>The gateway as a sequence of steps\<close>

text \<open>
  One step: a request to one of the four endpoints, or a pending fan-out that gets to run. The
  world after it.
\<close>

datatype gatewayStep =
    PostOrder choices HttpRequest
  | DeleteOrder choices HttpRequest
  | ReadBookOf choices HttpRequest
  | ReadAccount choices HttpRequest
  | RunFanOut choices nat

definition runTask :: "('s, 'r, 'w) Server \<Rightarrow> choices \<Rightarrow> nat \<Rightarrow> ('s, 'r, 'w) World \<Rightarrow> ('s, 'r, 'w) World" where
  "runTask s ch k w =
     (if k < length (wd_tasks w) then
        let (trades, symbol) = wd_tasks w ! k
        in broadcastFills s ch trades symbol (w\<lparr>wd_tasks := take k (wd_tasks w) @ drop (Suc k) (wd_tasks w)\<rparr>)
      else w)"

fun serve :: "('s, 'r, 'w) Server \<Rightarrow> gatewayStep \<Rightarrow> ('s, 'r, 'w) World \<Rightarrow> ('s, 'r, 'w) World" where
  "serve s (PostOrder ch rq) w = snd (handleSubmit s ch Map.empty rq w)"
| "serve s (DeleteOrder ch rq) w = snd (handleCancel s ch Map.empty rq w)"
| "serve s (ReadBookOf ch rq) w = snd (handleBook s ch Map.empty rq w)"
| "serve s (ReadAccount ch rq) w = snd (handleAccount s ch Map.empty rq w)"
| "serve s (RunFanOut ch k) w = runTask s ch k w"

end
