(* ===== verification/EngineProps.thy ===== *)
theory EngineProps
  imports TradeFacts
begin

text \<open>
  The properties of the in-process engine as its clients see it, each on the operations of
  \<open>LocalEngine\<close> themselves and each with a witness on a concrete engine.
\<close>

section \<open>Sample values for the witnesses\<close>

text \<open>The equations that run the engine on concrete values by rewriting.\<close>

lemmas engine_eval = go_signed orders_of_def set_orders_def book_def nextOrderID_def nextSeq_def
  nextTradeID_def Let_def bestOpposite_def wanted_def betterPrice_def crosses_def fmt_d_def
  digit_char_def show_nat.simps applyFill_def account_def new_account_def settle_def new_position_def
  StartingCashTicks_def opposite_def SubmitOrder_def submitLocked_def matchLoop.simps matchFill_def
  statusFor_def reasonFor_def sameSign_def abs64_def min64_def div64_def empty_engine_def

lemmas seed_eval = NewLocalEngine_def seedBook_def seedPair_def engine_eval

definition sample_buy :: NewOrder where
  "sample_buy = \<lparr>no_ClientOrderID = ''c1'', no_AccountID = ''alice'', no_Symbol = ''AAPL'',
     no_Side = SideBuy, no_Type = OrderTypeLimit, no_PriceTicks = 10002, no_Quantity = 35\<rparr>"

definition sample_sell :: NewOrder where
  "sample_sell = \<lparr>no_ClientOrderID = ''c2'', no_AccountID = ''bob'', no_Symbol = ''AAPL'',
     no_Side = SideSell, no_Type = OrderTypeMarket, no_PriceTicks = 0, no_Quantity = 200\<rparr>"

definition sample_calls :: "call list" where
  "sample_calls = [Submit None sample_buy 1, Submit None sample_sell 2]"

abbreviation seeded :: LocalEngine where
  "seeded \<equiv> NewLocalEngine [''AAPL'']"


definition seeded_orders :: "restingOrder list" where
  "seeded_orders =
    [\<lparr>ro_id = ''ord-1'', ro_accountID = ''market-maker'', ro_side = SideBuy, ro_price = 9999,
        ro_remaining = 10, ro_seq = 1\<rparr>,
     \<lparr>ro_id = ''ord-2'', ro_accountID = ''market-maker'', ro_side = SideSell, ro_price = 10001,
        ro_remaining = 10, ro_seq = 2\<rparr>,
     \<lparr>ro_id = ''ord-3'', ro_accountID = ''market-maker'', ro_side = SideBuy, ro_price = 9998,
        ro_remaining = 20, ro_seq = 3\<rparr>,
     \<lparr>ro_id = ''ord-4'', ro_accountID = ''market-maker'', ro_side = SideSell, ro_price = 10002,
        ro_remaining = 20, ro_seq = 4\<rparr>,
     \<lparr>ro_id = ''ord-5'', ro_accountID = ''market-maker'', ro_side = SideBuy, ro_price = 9997,
        ro_remaining = 30, ro_seq = 5\<rparr>,
     \<lparr>ro_id = ''ord-6'', ro_accountID = ''market-maker'', ro_side = SideSell, ro_price = 10003,
        ro_remaining = 30, ro_seq = 6\<rparr>,
     \<lparr>ro_id = ''ord-7'', ro_accountID = ''market-maker'', ro_side = SideBuy, ro_price = 9996,
        ro_remaining = 40, ro_seq = 7\<rparr>,
     \<lparr>ro_id = ''ord-8'', ro_accountID = ''market-maker'', ro_side = SideSell, ro_price = 10004,
        ro_remaining = 40, ro_seq = 8\<rparr>,
     \<lparr>ro_id = ''ord-9'', ro_accountID = ''market-maker'', ro_side = SideBuy, ro_price = 9995,
        ro_remaining = 50, ro_seq = 9\<rparr>,
     \<lparr>ro_id = ''ord-10'', ro_accountID = ''market-maker'', ro_side = SideSell, ro_price = 10005,
        ro_remaining = 50, ro_seq = 10\<rparr>]"

lemma seeded_eq:
  "seeded = \<lparr>le_books = [''AAPL'' \<mapsto> \<lparr>ob_symbol = ''AAPL'', ob_orders = seeded_orders\<rparr>],
     le_accounts = Map.empty, le_lastPrice = Map.empty, le_orderID = 10, le_tradeID = 0, le_seq = 10\<rparr>"
  by (simp add: seed_eval seeded_orders_def)

lemma seeded_aapl: "orders_of seeded ''AAPL'' = seeded_orders"
  by (simp add: seeded_eq orders_of_def)

lemma seeded_ok: "books_ok seeded"
  by (rule NewLocalEngine_books) simp

lemma sample_guards: "passes_guards sample_buy" "passes_guards sample_sell"
  by (simp_all add: passes_guards_def sample_buy_def sample_sell_def)

lemma sample_sides: "valid_side (no_Side sample_buy)" "valid_side (no_Side sample_sell)"
  by (simp_all add: sample_buy_def sample_sell_def valid_side_def)

lemma sample_room: "run_room [''AAPL''] sample_calls"
  by (simp add: run_room_def sample_calls_def volume_def call_volume_def order_volume_def sample_guards)
    (simp add: sample_buy_def sample_sell_def)

lemma sample_side_ok: "\<forall>c\<in>set sample_calls. side_ok c"
  by (simp add: sample_calls_def side_ok_def sample_sides)

definition sample_limit :: NewOrder where
  "sample_limit = \<lparr>no_ClientOrderID = ''c3'', no_AccountID = ''carol'', no_Symbol = ''AAPL'',
     no_Side = SideBuy, no_Type = OrderTypeLimit, no_PriceTicks = 9990, no_Quantity = 7\<rparr>"

abbreviation sample_ack :: OrderAck where
  "sample_ack \<equiv> projr (fst (SubmitOrder seeded None sample_buy 1))"

definition sample_trade :: Trade where
  "sample_trade = \<lparr>tr_TradeID = ''trd-2'', tr_Symbol = ''AAPL'', tr_PriceTicks = 10002, tr_Quantity = 20,
     tr_BuyOrderID = ''ord-11'', tr_SellOrderID = ''ord-4'', tr_TsMillis = 1\<rparr>"

lemma sample_result:
  "SubmitOrder seeded None sample_buy 1 = (Inr sample_ack, snd (SubmitOrder seeded None sample_buy 1))"
  by (simp add: SubmitOrder_locked sample_guards)

lemma sample_ack_eq:
  "sample_ack = \<lparr>ack_OrderID = ''ord-11'', ack_Status = StatusPartiallyFilled, ack_FilledQuantity = 30,
     ack_Reason = '''', ack_Trades =
       [\<lparr>tr_TradeID = ''trd-1'', tr_Symbol = ''AAPL'', tr_PriceTicks = 10001, tr_Quantity = 10,
         tr_BuyOrderID = ''ord-11'', tr_SellOrderID = ''ord-2'', tr_TsMillis = 1\<rparr>, sample_trade]\<rparr>"
  by (simp add: seeded_eq seeded_orders_def sample_buy_def sample_trade_def engine_eval)

lemma sample_trade_in: "sample_trade \<in> set (ack_Trades sample_ack)"
  by (simp only: sample_ack_eq OrderAck.select_convs list.set insert_iff simp_thms)

section \<open>Matching\<close>

text \<open>C1: refinement. A submitted order that passes the guards gets exactly the greedy
  allocation along the price-time queue in front of it: the answer (id, status, filled quantity,
  trades), every book, the ledger, the mark price and the counters are those of the
  reference, and nothing else changes.\<close>

theorem submit_refines_allocation:
  assumes "books_ok e" and "passes_guards o'" and "SubmitOrder e None o' now = (answer, e')"
  shows "answer = Inr (spec_ack e o' now (allocation o' (no_Quantity o') e)) \<and>
    orders_of e' = spec_books e o' (allocation o' (no_Quantity o') e) \<and>
    le_accounts e' = book_fills o' (allocation o' (no_Quantity o') e) (le_accounts e) \<and>
    le_lastPrice e' = last_mark o' (allocation o' (no_Quantity o') e) (le_lastPrice e) \<and>
    le_orderID e' = le_orderID e + 1 \<and>
    le_tradeID e' = le_tradeID e + of_nat (length (allocation o' (no_Quantity o') e)) \<and>
    le_seq e' = (if rests o' (allocation o' (no_Quantity o') e) then le_seq e + 1 else le_seq e)"
  using SubmitOrder_spec [OF assms(1,2) refl assms(3)] by blast

theorem submit_refines_allocation_witness:
  "orders_of (snd (SubmitOrder seeded None sample_buy 1)) =
     spec_books seeded sample_buy (allocation sample_buy (no_Quantity sample_buy) seeded)"
  using submit_refines_allocation [OF seeded_ok sample_guards(1) prod.collapse [symmetric], of 1] by blast

text \<open>C3: safety. Every trade of an answer is with a resting order of the opposite side, of
  another account, at that order's price, which the incoming order's limit admits; its quantity is
  positive and no larger than what the resting order had left.\<close>

theorem trades_are_fair:
  assumes "books_ok e" and "passes_guards o'" and "SubmitOrder e None o' now = (Inr ack, e')"
    and "t \<in> set (ack_Trades ack)"
  shows "\<exists>m\<in>set (orders_of e (no_Symbol o')). ro_side m = wanted (no_Side o') \<and>
    ro_accountID m \<noteq> no_AccountID o' \<and> tr_PriceTicks t = ro_price m \<and> crosses o' (ro_price m) \<and>
    0 < sint (tr_Quantity t) \<and> sint (tr_Quantity t) \<le> sint (ro_remaining m) \<and>
    tr_BuyOrderID t = (if no_Side o' = SideSell then ro_id m else ack_OrderID ack) \<and>
    tr_SellOrderID t = (if no_Side o' = SideSell then ack_OrderID ack else ro_id m)"
proof -
  have ack: "ack = spec_ack e o' now (allocation o' (no_Quantity o') e)"
    using SubmitOrder_spec(1) [OF assms(1,2) refl assms(3)] by simp
  then obtain m f where mf: "(m, f) \<in> set (allocation o' (no_Quantity o') e)" "tr_PriceTicks t = ro_price m"
    "tr_Quantity t = f" "tr_BuyOrderID t = (if no_Side o' = SideSell then ro_id m else ack_OrderID ack)"
    "tr_SellOrderID t = (if no_Side o' = SideSell then ack_OrderID ack else ro_id m)"
    using assms(4) by (auto simp: spec_ack_def elim: trades_of_fill)
  show ?thesis
    using allocation_facts [OF books_ok_book [OF assms(1)] mf(1)] mf by (intro bexI [of _ m]) auto
qed

theorem trades_are_fair_witness:
  "\<exists>m\<in>set (orders_of seeded ''AAPL''). ro_side m = SideSell \<and> ro_accountID m \<noteq> ''alice'' \<and>
     tr_PriceTicks sample_trade = ro_price m \<and> sint (tr_Quantity sample_trade) \<le> sint (ro_remaining m)"
  using trades_are_fair [OF seeded_ok sample_guards(1) sample_result sample_trade_in]
  by (auto simp: sample_buy_def wanted_def)

text \<open>C2: safety, price-time priority. When a trade of the answer is with resting order \<open>m\<close>, every
  order \<open>m'\<close> that may trade with the incoming one (opposite side, another account) and stands in
  front of \<open>m\<close>, by price and then by arrival, has been traded in full, at its own price, by an
  earlier trade of the same answer, and has left the book: no order is traded through. The order id
  counter is assumed not to wrap on this call.\<close>

theorem no_order_is_traded_through:
  assumes "books_ok e" and "passes_guards o'" and "sint (le_orderID e) + 1 < 2 ^ 63"
    and "SubmitOrder e None o' now = (Inr ack, e')"
    and "i < length (ack_Trades ack)" and "m \<in> set (orders_of e (no_Symbol o'))"
    and "maker_id o' (ack_Trades ack ! i) = ro_id m"
    and "m' \<in> set (orders_of e (no_Symbol o'))" and "eligible (wanted (no_Side o')) (no_AccountID o') m'"
    and "prio (wanted (no_Side o')) m' < prio (wanted (no_Side o')) m"
  shows "(\<exists>j<i. maker_id o' (ack_Trades ack ! j) = ro_id m' \<and> tr_Quantity (ack_Trades ack ! j) = ro_remaining m' \<and>
      tr_PriceTicks (ack_Trades ack ! j) = ro_price m') \<and>
    ro_id m' \<notin> ro_id ` set (orders_of e' (no_Symbol o'))"
proof -
  let ?fs = "allocation o' (no_Quantity o') e" and ?os = "orders_of e (no_Symbol o')"
  note bk = books_ok_book [OF assms(1)] and spec = SubmitOrder_spec [OF assms(1,2) refl assms(4)]
  have tr: "ack_Trades ack = trades_of (order_id (le_orderID e + 1)) o' now (le_tradeID e) ?fs"
    using spec(1) by (simp add: spec_ack_def)
  have i: "i < length ?fs" using assms(5) by (simp add: tr trades_of_length)
  have "fst (?fs ! i) \<in> set ?os" using allocation_facts(1) [OF bk] i by (metis nth_mem prod.collapse)
  moreover have "ro_id (fst (?fs ! i)) = ro_id m" using assms(7) trades_of_nth [OF i] by (simp add: tr)
  ultimately have "fst (?fs ! i) = m" using assms(6) book_ok_ids [OF bk] by (auto simp: distinct_map dest: inj_onD)
  then obtain j where j: "j < i" "?fs ! j = (m', ro_remaining m')"
    using better_fills_first [OF assms(1) i _ assms(8-10)] by blast
  have "(m', ro_remaining m') \<in> set ?fs" using j i by (metis nth_mem order.strict_trans)
  then have "ro_id m' \<notin> ro_id ` set (deplete ?fs ?os)"
    using allocation_facts(1) [OF bk] distinct_allocation [OF bk] by (intro exhausted_gone [OF bk])
  moreover have "ro_id m' \<noteq> order_id (le_orderID e + 1)"
    using nextOrderID_fresh(2,3) [OF assms(1,3)] assms(8) by (metis image_eqI)
  ultimately have "ro_id m' \<notin> ro_id ` set (orders_of e' (no_Symbol o'))"
    using spec(2) by (auto simp: spec_books_def resting_part_def split: if_splits)
  then show ?thesis using j trades_of_nth [of j ?fs] i by (auto simp: tr intro!: exI [of _ j])
qed

theorem no_order_is_traded_through_witness:
  "\<exists>j<1. tr_SellOrderID (ack_Trades sample_ack ! j) = ''ord-2'' \<and> tr_Quantity (ack_Trades sample_ack ! j) = 10 \<and>
     tr_PriceTicks (ack_Trades sample_ack ! j) = 10001"
proof -
  let ?ask = "\<lambda>i p q n. \<lparr>ro_id = i, ro_accountID = ''market-maker'', ro_side = SideSell,
    ro_price = p, ro_remaining = q, ro_seq = n\<rparr>"
  have room: "sint (le_orderID seeded) + 1 < 2 ^ 63" by (simp add: seeded_eq)
  have len: "1 < length (ack_Trades sample_ack)" by (simp only: sample_ack_eq) simp
  have maker: "maker_id sample_buy (ack_Trades sample_ack ! 1) = ro_id (?ask ''ord-4'' 10002 20 4)"
    by (simp only: sample_ack_eq) (simp add: maker_id_def sample_buy_def sample_trade_def)
  have both: "?ask ''ord-4'' 10002 20 4 \<in> set (orders_of seeded (no_Symbol sample_buy))"
    "?ask ''ord-2'' 10001 10 2 \<in> set (orders_of seeded (no_Symbol sample_buy))"
    by (simp_all add: sample_buy_def seeded_aapl seeded_orders_def)
  have el: "eligible (wanted (no_Side sample_buy)) (no_AccountID sample_buy) (?ask ''ord-2'' 10001 10 2)"
    by (simp add: eligible_def wanted_def sample_buy_def)
  have pr: "prio (wanted (no_Side sample_buy)) (?ask ''ord-2'' 10001 10 2) <
      prio (wanted (no_Side sample_buy)) (?ask ''ord-4'' 10002 20 4)"
    by (simp add: prio_def wanted_def sample_buy_def)
  from no_order_is_traded_through [OF seeded_ok sample_guards(1) room sample_result len both(1) maker both(2) el pr]
  show ?thesis by (simp add: maker_id_def sample_buy_def)
qed

text \<open>C8: functional, over the integers. The filled quantity is what the book offers within the
  limit, up to what was asked; the trades add up to it; the rest is what was asked less what was
  filled. No wrap-around occurs, whatever the 64-bit quantities.\<close>

theorem filled_quantity_is_exact:
  assumes "books_ok e" and "passes_guards o'" and "SubmitOrder e None o' now = (Inr ack, e')"
  shows "sint (ack_FilledQuantity ack) = min (sint (no_Quantity o')) (offered o' e) \<and>
    (\<Sum>t\<leftarrow>ack_Trades ack. sint (tr_Quantity t)) = sint (ack_FilledQuantity ack) \<and>
    sint (no_Quantity o' - ack_FilledQuantity ack) = sint (no_Quantity o') - sint (ack_FilledQuantity ack) \<and>
    0 \<le> sint (ack_FilledQuantity ack) \<and> sint (ack_FilledQuantity ack) \<le> sint (no_Quantity o')"
  by (rule submit_quantities [OF assms])

theorem filled_quantity_is_exact_witness:
  "(\<Sum>t\<leftarrow>ack_Trades sample_ack. sint (tr_Quantity t)) = sint (ack_FilledQuantity sample_ack)"
  using filled_quantity_is_exact [OF seeded_ok sample_guards(1) sample_result] by blast

text \<open>Functional. The status tells the outcome: FILLED exactly when all was filled,
  PARTIALLY_FILLED when some was, REJECTED for a market order that found nothing (and then only),
  ACCEPTED otherwise; the reason is set exactly on that rejection.\<close>

theorem status_tells_the_outcome:
  assumes "books_ok e" and "passes_guards o'" and "SubmitOrder e None o' now = (Inr ack, e')"
  shows "ack_Status ack =
      outcome_status (no_Type o') (sint (no_Quantity o')) (sint (ack_FilledQuantity ack)) \<and>
    (ack_Status ack = StatusRejected \<longleftrightarrow> no_Type o' = OrderTypeMarket \<and> ack_FilledQuantity ack = 0) \<and>
    (ack_Reason ack \<noteq> '''' \<longleftrightarrow> ack_Status ack = StatusRejected)"
proof -
  let ?fs = "allocation o' (no_Quantity o') e"
  have ack: "ack = spec_ack e o' now ?fs"
    using SubmitOrder_spec(1) [OF assms(1,2) refl assms(3)] by simp
  note q = submit_quantities [OF assms]
  have left: "no_Quantity o' - ack_FilledQuantity ack = leftover o' ?fs"
    by (simp add: ack spec_ack_def leftover_def)
  have pos: "0 < sint (no_Quantity o')" using assms(2) by (simp add: passes_guards_def)
  have "statusFor (no_Type o') (no_Quantity o') (ack_FilledQuantity ack) (leftover o' ?fs) =
      outcome_status (no_Type o') (sint (no_Quantity o')) (sint (ack_FilledQuantity ack))"
    using q pos unfolding left [symmetric] by (intro statusFor_outcome) auto
  moreover have "ack_Status ack = statusFor (no_Type o') (no_Quantity o') (ack_FilledQuantity ack) (leftover o' ?fs)"
    and "ack_Reason ack = reasonFor (no_Type o') (ack_FilledQuantity ack)"
    by (simp_all add: ack spec_ack_def)
  ultimately show ?thesis
    using pos by (auto simp: outcome_status_def reasonFor_def sint_zero_iff)
qed

theorem status_tells_the_outcome_witness:
  "ack_Status sample_ack = outcome_status OrderTypeLimit 35 (sint (ack_FilledQuantity sample_ack))"
  using status_tells_the_outcome [OF seeded_ok sample_guards(1) sample_result] by (simp add: sample_buy_def)

text \<open>Liveness. When a submit answers with less than was asked, the book it leaves holds no
  order the incoming one could still trade with; after a market order, no order of another account
  on the opposite side at all.\<close>

theorem leftover_means_nothing_to_trade:
  assumes "books_ok e" and "sint (le_orderID e) + 1 < 2 ^ 63" and "passes_guards o'" and "valid_side (no_Side o')"
    and "SubmitOrder e None o' now = (Inr ack, e')" and "0 <s no_Quantity o' - ack_FilledQuantity ack"
    and "ro \<in> set (orders_of e' (no_Symbol o'))" and "ro_side ro = wanted (no_Side o')"
    and "ro_accountID ro \<noteq> no_AccountID o'"
  shows "no_Type o' \<noteq> OrderTypeMarket \<and> \<not> crosses o' (ro_price ro)"
proof -
  have r: "ack = fst (submitLocked (fst (nextOrderID e)) o' now (snd (nextOrderID e)))"
    "e' = snd (submitLocked (fst (nextOrderID e)) o' now (snd (nextOrderID e)))"
    using assms(5) by (simp_all add: SubmitOrder_locked [OF assms(3)])
  have "\<not> crosses o' (ro_price ro)"
    using submitLocked_exhausts [OF nextOrderID_fresh(1) [OF assms(1,2)] assms(4)] assms(6-9)
    unfolding r by (simp add: eligible_def)
  then show ?thesis by (auto simp: crosses_def)
qed

theorem leftover_means_nothing_to_trade_witness:
  "\<not> crosses sample_limit 10001 \<and> no_Type sample_limit \<noteq> OrderTypeMarket"
proof -
  let ?ask = "\<lparr>ro_id = ''ord-2'', ro_accountID = ''market-maker'', ro_side = SideSell,
    ro_price = 10001, ro_remaining = 10, ro_seq = 2\<rparr>"
  let ?result = "SubmitOrder seeded None sample_limit 1"
  have room: "sint (le_orderID seeded) + 1 < 2 ^ 63" by (simp add: seeded_eq)
  have g: "passes_guards sample_limit" "valid_side (no_Side sample_limit)"
    by (simp_all add: passes_guards_def sample_limit_def valid_side_def)
  have res: "?result = (Inr (projr (fst ?result)), snd ?result)"
    by (simp add: SubmitOrder_locked g)
  have left: "0 <s no_Quantity sample_limit - ack_FilledQuantity (projr (fst ?result))"
    by (simp add: seeded_eq seeded_orders_def sample_limit_def engine_eval)
  have ask: "?ask \<in> set (orders_of (snd ?result) (no_Symbol sample_limit))"
    by (simp add: seeded_eq seeded_orders_def sample_limit_def engine_eval)
  show ?thesis
    using leftover_means_nothing_to_trade [OF seeded_ok room g res left ask]
    by (simp add: sample_limit_def wanted_def)
qed

section \<open>Termination\<close>

lemma deplete_length: "length (deplete fs os) \<le> length os"
  unfolding deplete_def by (rule order.trans [OF length_filter_le]) simp

text \<open>C26: termination. The matching loop always ends, and soon: a submit returns, with no more
  executions than there are orders of other accounts it may trade with in the book, nor than units
  it asks for, and it leaves the book at most one order longer.\<close>

theorem matching_ends_within_the_book:
  assumes "books_ok e" and "passes_guards o'"
  defines "os \<equiv> orders_of e (no_Symbol o')"
  shows "\<exists>ack e'. SubmitOrder e None o' now = (Inr ack, e') \<and>
    length (ack_Trades ack) \<le> length (filter (\<lambda>m. ro_side m = wanted (no_Side o') \<and>
      ro_accountID m \<noteq> no_AccountID o' \<and> crosses o' (ro_price m)) os) \<and>
    int (length (ack_Trades ack)) \<le> sint (no_Quantity o') \<and>
    length (orders_of e' (no_Symbol o')) \<le> length os + 1"
proof -
  let ?fs = "allocation o' (no_Quantity o') e"
  let ?may = "\<lambda>m. ro_side m = wanted (no_Side o') \<and> ro_accountID m \<noteq> no_AccountID o' \<and> crosses o' (ro_price m)"
  have bk: "book_ok os" using books_ok_book [OF assms(1)] by (simp add: os_def)
  obtain ack e' where r: "SubmitOrder e None o' now = (Inr ack, e')"
    by (simp add: SubmitOrder_locked [OF assms(2)])
  note spec = SubmitOrder_spec(1,2) [OF assms(1,2) refl r]
  have n: "length (ack_Trades ack) = length ?fs" using spec(1) by (simp add: spec_ack_def trades_of_length)
  note facts = allocation_facts [OF bk [unfolded os_def]]
  have "length ?fs = card (set (map fst ?fs))"
    using distinct_allocation [OF bk [unfolded os_def], of "no_Quantity o'"] by (metis distinct_card length_map)
  also have "\<dots> \<le> card (set (filter ?may os))" using facts(1-4) by (intro card_mono) (auto simp: os_def)
  also have "\<dots> \<le> length (filter ?may os)" by (rule card_length)
  finally have book: "length ?fs \<le> length (filter ?may os)" .
  have "int (length ?fs) = (\<Sum>p\<leftarrow>?fs. 1)" by (simp add: sum_list_triv)
  also have "\<dots> \<le> (\<Sum>(m, f)\<leftarrow>?fs. sint f)" using facts(5) by (intro sum_list_mono) (force split: prod.split)
  also have "\<dots> \<le> sint (no_Quantity o')" by (rule allocation_volume [OF assms(1)]) (use assms(2) in \<open>simp add: passes_guards_def\<close>)
  finally have units: "int (length ?fs) \<le> sint (no_Quantity o')" .
  have "length (orders_of e' (no_Symbol o')) \<le> length os + 1"
    using deplete_length [of ?fs os] by (simp add: spec(2) spec_books_def resting_part_def os_def)
  then show ?thesis using r n book units by auto
qed

theorem matching_ends_within_the_book_witness:
  "length (ack_Trades sample_ack) \<le> 5"
proof -
  have "length (filter (\<lambda>m. ro_side m = wanted (no_Side sample_buy) \<and> ro_accountID m \<noteq> no_AccountID sample_buy \<and>
      crosses sample_buy (ro_price m)) (orders_of seeded (no_Symbol sample_buy))) \<le> 5"
    by (simp add: sample_buy_def seeded_aapl seeded_orders_def wanted_def crosses_def go_signed)
  then show ?thesis
    using matching_ends_within_the_book [OF seeded_ok sample_guards(1), of 1] sample_result by fastforce
qed

end
