(* ===== verification/LedgerProps.thy ===== *)
theory LedgerProps
  imports EngineProps
begin

text \<open>
  The properties of the engine over time: its invariants after every sequence of calls, the
  ledger's conservation laws, cancelling, the book view, and two behaviours of unvalidated input.
\<close>

section \<open>Calls that are refused\<close>

text \<open>Error paths of submitting. A call whose context is over returns the context's error and
  changes nothing; an order with no positive quantity, or a limit order with no positive price, is
  answered REJECTED with the reason, fills nothing, and only uses up an order id.\<close>

theorem submit_refuses_bad_orders:
  "SubmitOrder e (Some err) o' now = (Inl err, e) \<and>
   (\<not> passes_guards o' \<longrightarrow>
     (\<exists>ack. SubmitOrder e None o' now = (Inr ack, e\<lparr>le_orderID := le_orderID e + 1\<rparr>) \<and>
        ack_Status ack = StatusRejected \<and> ack_Trades ack = [] \<and> ack_FilledQuantity ack = 0 \<and>
        ack_OrderID ack = order_id (le_orderID e + 1) \<and>
        ack_Reason ack = (if no_Quantity o' \<le>s 0 then ''quantity must be positive''
                          else ''limit order requires positive priceTicks'')))"
  by (auto simp: SubmitOrder_err SubmitOrder_refused nextOrderID_def order_id_def ack_zero_def)

theorem submit_refuses_bad_orders_witness:
  "\<exists>ack. SubmitOrder seeded None (sample_buy\<lparr>no_Quantity := 0\<rparr>) 1 =
     (Inr ack, seeded\<lparr>le_orderID := le_orderID seeded + 1\<rparr>) \<and> ack_Reason ack = ''quantity must be positive''"
proof -
  have "\<not> passes_guards (sample_buy\<lparr>no_Quantity := 0\<rparr>)" by (simp add: passes_guards_def)
  then show ?thesis
    using submit_refuses_bad_orders [of seeded err "sample_buy\<lparr>no_Quantity := 0\<rparr>" 1] by (auto simp: go_signed)
qed

section \<open>Invariants of the books\<close>

text \<open>C6: type. After every sequence of submits, cancels and reads on a freshly seeded
  engine, every book is well formed (distinct ids, ascending arrival numbers, positive prices and
  quantities), ids are unique over all books and stay behind the counter, and no book is crossed between
  different accounts: every buy is priced below every sell of another account. (One account's own
  orders may rest crossed, since they never trade with each other.)\<close>

theorem books_stay_ok:
  assumes "run_room seeds cs"
  shows "books_ok (run (NewLocalEngine seeds) cs)"
  by (rule run_books_ok [OF assms])

theorem books_stay_ok_witness: "books_ok (run seeded sample_calls)"
  by (rule books_stay_ok [OF sample_room])

text \<open>Safety. The book never stays crossed or locked between two accounts: in every state an
  engine reaches, a resting buy of one account is priced strictly below every resting sell of
  another account in the same symbol.\<close>

theorem book_is_never_crossed:
  assumes "run_room seeds cs" and "reaches (NewLocalEngine seeds) cs e"
    and "b \<in> set (orders_of e s)" and "a \<in> set (orders_of e s)"
    and "ro_side b = SideBuy" and "ro_side a = SideSell" and "ro_accountID a \<noteq> ro_accountID b"
  shows "sint (ro_price b) < sint (ro_price a)"
proof -
  have "books_ok e" using assms(2) run_books_ok [OF assms(1)] by (simp add: reaches_run)
  then have "uncrossed (orders_of e s)" by (simp add: books_ok_def)
  then show ?thesis using assms(3-7) by (simp add: uncrossed_def)
qed

lemma sample_rest_orders:
  "orders_of (run seeded [Submit None sample_limit 1]) ''AAPL'' = seeded_orders @
     [\<lparr>ro_id = ''ord-11'', ro_accountID = ''carol'', ro_side = SideBuy, ro_price = 9990, ro_remaining = 7, ro_seq = 11\<rparr>]"
  by (simp add: run_def seeded_eq seeded_orders_def sample_limit_def engine_eval)

lemma sample_limit_room: "run_room [''AAPL''] [Submit None sample_limit 1]"
  by (simp add: run_room_def volume_def call_volume_def order_volume_def sample_limit_def)

theorem book_is_never_crossed_witness:
  "sint (ro_price (last (orders_of (run seeded [Submit None sample_limit 1]) ''AAPL''))) < 10001"
proof -
  let ?bid = "\<lparr>ro_id = ''ord-11'', ro_accountID = ''carol'', ro_side = SideBuy, ro_price = 9990, ro_remaining = 7, ro_seq = 11\<rparr>"
  let ?ask = "\<lparr>ro_id = ''ord-2'', ro_accountID = ''market-maker'', ro_side = SideSell, ro_price = 10001, ro_remaining = 10, ro_seq = 2\<rparr>"
  let ?e = "run seeded [Submit None sample_limit 1]"
  have r: "reaches seeded [Submit None sample_limit 1] ?e" by (simp add: reaches_run)
  have ba: "?bid \<in> set (orders_of ?e ''AAPL'')" "?ask \<in> set (orders_of ?e ''AAPL'')"
    by (simp_all add: sample_rest_orders seeded_orders_def)
  show ?thesis using book_is_never_crossed [OF sample_limit_room r ba] by (simp add: sample_rest_orders)
qed

text \<open>Safety. Every order id the engine hands out is fresh: no order resting anywhere at
  that moment has it.\<close>

theorem order_ids_are_fresh:
  assumes "books_ok e" and "sint (le_orderID e) + 1 < 2 ^ 63" and "SubmitOrder e None o' now = (Inr ack, e')"
  shows "ack_OrderID ack \<notin> ro_id ` set (orders_of e s)"
proof -
  note fresh = nextOrderID_fresh(2,3) [OF assms(1,2)]
  have "ack_OrderID ack = order_id (le_orderID e + 1)"
  proof (cases "passes_guards o'")
    case True
    then show ?thesis using SubmitOrder_spec(1) [OF assms(1) True refl assms(3)] by (simp add: spec_ack_def)
  next
    case False
    then show ?thesis using assms(3) fresh(1) by (auto simp: SubmitOrder_refused)
  qed
  then show ?thesis using fresh by simp
qed

theorem order_ids_are_fresh_witness: "ack_OrderID sample_ack \<notin> ro_id ` set (orders_of seeded ''AAPL'')"
  by (rule order_ids_are_fresh [OF seeded_ok _ sample_result]) (simp add: seeded_eq)

section \<open>The ledger\<close>

text \<open>C5: invariant, conservation of cash. After every sequence of calls whose submits carry a
  documented side, the cash of all accounts together stands at their opening balances: trading
  moves cash, it never makes or loses any.\<close>

theorem cash_is_conserved:
  assumes "run_room seeds cs" and "\<forall>c\<in>set cs. side_ok c"
  shows "net_cash (le_accounts (run (NewLocalEngine seeds) cs)) = 0"
  by (rule run_conserves [OF assms])

theorem cash_is_conserved_witness: "net_cash (le_accounts (run seeded sample_calls)) = 0"
  by (rule cash_is_conserved [OF sample_room sample_side_ok])

text \<open>C7: invariant. Positions are zero-sum: for every symbol the signed holdings of all accounts
  cancel, after every such sequence of calls.\<close>

theorem positions_are_zero_sum:
  assumes "run_room seeds cs" and "\<forall>c\<in>set cs. side_ok c"
  shows "net_holding (le_accounts (run (NewLocalEngine seeds) cs)) s = 0"
  by (rule run_conserves [OF assms])

theorem positions_are_zero_sum_witness: "net_holding (le_accounts (run seeded sample_calls)) ''AAPL'' = 0"
  by (rule positions_are_zero_sum [OF sample_room sample_side_ok])

text \<open>C4: invariant. Every account reconciles to the tick after every sequence of calls: its cash
  less the opening balance is its realized profit less the exact signed cost of what it holds,
  through opening, adding, partial and full closing and flipping, and no position exceeds the
  volume submitted.\<close>

theorem accounts_reconcile:
  assumes "run_room seeds cs"
  shows "account_reconciles (le_accounts (run (NewLocalEngine seeds) cs)) a \<and>
    \<bar>sint (qty_of (le_accounts (run (NewLocalEngine seeds) cs)) a s)\<bar> \<le> volume cs"
  using run_ledger_ok [OF assms] by (simp add: ledger_ok_def)

theorem accounts_reconcile_witness:
  "account_reconciles (le_accounts (run seeded sample_calls)) ''alice''"
  using accounts_reconcile [OF sample_room] by blast

text \<open>An account that holds nothing any more has exactly its opening balance plus
  its realized profit in cash.\<close>

theorem flat_account_is_all_cash:
  assumes "run_room seeds cs" and "\<And>s. qty_of (le_accounts (run (NewLocalEngine seeds) cs)) a s = 0"
  shows "cash_of (le_accounts (run (NewLocalEngine seeds) cs)) a - StartingCashTicks =
    realized_of (le_accounts (run (NewLocalEngine seeds) cs)) a"
  using run_ledger_ok [OF assms(1)] assms(2) by (intro flat_account_reconciles) (simp_all add: ledger_ok_def)

definition round_trip :: "call list" where
  "round_trip = [Submit None (sample_buy\<lparr>no_Quantity := 10\<rparr>) 1,
     Submit None (sample_buy\<lparr>no_Side := SideSell, no_PriceTicks := 9999, no_Quantity := 10\<rparr>) 2]"

lemma round_trip_room: "run_room [''AAPL''] round_trip"
  by (simp add: run_room_def round_trip_def volume_def call_volume_def order_volume_def passes_guards_def sample_buy_def)

lemma round_trip_alice:
  "qty_of (le_accounts (run seeded round_trip)) ''alice'' s = 0"
  "realized_of (le_accounts (run seeded round_trip)) ''alice'' = - 20"
  by (simp_all add: run_def round_trip_def seeded_eq seeded_orders_def sample_buy_def engine_eval
    qty_of_def position_of_def positions_of_def realized_of_def)

theorem flat_account_is_all_cash_witness:
  "cash_of (le_accounts (run seeded round_trip)) ''alice'' = 1000000 - 20"
  using flat_account_is_all_cash [OF round_trip_room round_trip_alice(1)] round_trip_alice(2)
  by (simp add: StartingCashTicks_def algebra_simps)

text \<open>Functional, the account view. For every account in every state an engine reaches, what
  \<open>GetAccount\<close> shows satisfies the account equation: cash gained plus the value of the
  positions at their last trade prices equals realized plus unrealized profit. Every position has
  such a price, and the order of the range over the positions does not matter.\<close>

theorem account_view_balances:
  assumes "run_room seeds cs" and "e = run (NewLocalEngine seeds) cs"
    and "range_keys (positions_of (le_accounts e) a) ks"
    and "GetAccount (le_accounts e) (le_lastPrice e) None a ks = Inr snap"
  shows "as_CashTicks snap - StartingCashTicks +
      (\<Sum>s\<leftarrow>ks. market_value (le_lastPrice e) s (position_of (le_accounts e) a s)) =
    as_RealizedPnlTicks snap + as_UnrealizedPnlTicks snap"
  by (rule run_account_equation [OF assms])

lemma GetAccount_answers: "\<exists>snap. GetAccount m lp None a ks = Inr snap"
  by (cases "m a") (auto simp: GetAccount_def split: prod.split)

lemma sample_alice:
  "positions_of (le_accounts (run seeded sample_calls)) ''alice'' = [''AAPL'' \<mapsto> \<lparr>pos_qty = 35, pos_costBasis = 350060\<rparr>]"
  by (simp add: run_def sample_calls_def seeded_eq seeded_orders_def sample_buy_def sample_sell_def engine_eval
    positions_of_def)

theorem account_view_balances_witness:
  "\<exists>snap. GetAccount (le_accounts (run seeded sample_calls)) (le_lastPrice (run seeded sample_calls)) None
       ''alice'' [''AAPL''] = Inr snap \<and>
     as_CashTicks snap - 1000000 + market_value (le_lastPrice (run seeded sample_calls)) ''AAPL''
       (position_of (le_accounts (run seeded sample_calls)) ''alice'' ''AAPL'') =
     as_RealizedPnlTicks snap + as_UnrealizedPnlTicks snap"
proof -
  let ?e = "run seeded sample_calls"
  have ks: "range_keys (positions_of (le_accounts ?e) ''alice'') [''AAPL'']"
    by (simp add: sample_alice range_keys_def)
  obtain snap where snap: "GetAccount (le_accounts ?e) (le_lastPrice ?e) None ''alice'' [''AAPL''] = Inr snap"
    using GetAccount_answers by blast
  then show ?thesis
    using account_view_balances [OF sample_room refl ks snap] by (simp add: StartingCashTicks_def)
qed

text \<open>C11: bounds. A fill at a price within the band an account has traded at keeps the exact
  cost of the position within that band times its size, through partial closes with their
  truncated division and through flips; so the average price shown for it never leaves the band.
  The products have to fit an \<open>int64\<close> (\<open>fill_room\<close>).\<close>

theorem average_price_stays_in_band:
  assumes "fill_room lo hi (position_of m a s) (signed_qty side qty) price qty"
    and "in_band lo hi (position_of m a s)"
  shows "in_band lo hi (position_of (applyFill m a s side price qty) a s) \<and>
    (pos_qty (position_of (applyFill m a s side price qty) a s) \<noteq> 0 \<longrightarrow>
      lo \<le> sint (pv_AvgPriceTicks (position_view s (position_of (applyFill m a s side price qty) a s))) \<and>
      sint (pv_AvgPriceTicks (position_view s (position_of (applyFill m a s side price qty) a s))) \<le> hi)"
proof -
  let ?p = "position_of (applyFill m a s side price qty) a s"
  have p: "?p = fst (settle (position_of m a s) (signed_qty side qty) price qty (realized_of m a))"
    by (simp add: position_of_def [of "applyFill m a s side price qty"] positions_of_applyFill)
  have band: "in_band lo hi ?p" unfolding p by (rule settle_band [OF assms])
  have q: "pos_qty ?p = pos_qty (position_of m a s) + signed_qty side qty" by (simp add: p settle_qty)
  have "\<bar>sint (pos_qty ?p)\<bar> < 2 ^ 63"
    using fill_room_delta(2,5) [OF assms(1)] fill_room_size(1) [OF assms(1)] unfolding q by linarith
  moreover have "0 \<le> lo" using assms(1) by (simp add: fill_room_def)
  ultimately show ?thesis using band position_view_band [OF band] by auto
qed

theorem average_price_stays_in_band_witness:
  "in_band 90 110 (position_of (applyFill (applyFill Map.empty ''alice'' ''AAPL'' SideBuy 110 3)
     ''alice'' ''AAPL'' SideSell 90 2) ''alice'' ''AAPL'')"
proof -
  have p: "position_of (applyFill Map.empty ''alice'' ''AAPL'' SideBuy 110 3) ''alice'' ''AAPL'' =
      \<lparr>pos_qty = 3, pos_costBasis = 330\<rparr>"
    by (simp add: position_of_def positions_of_def applyFill_def account_def new_account_def new_position_def
      settle_def Let_def)
  show ?thesis
    using average_price_stays_in_band [of 90 110 "applyFill Map.empty ''alice'' ''AAPL'' SideBuy 110 3"
        "''alice''" "''AAPL''" SideSell 2 90]
    by (simp add: p fill_room_def in_band_def signed_qty_def)
qed

section \<open>Cancelling\<close>

text \<open>C9: functional. Cancelling a resting order by its id, on the account that placed it (or on no
  account), answers CANCELLED, takes that order out of its book, and changes no other order, no
  account, no last price and none of the three counters.\<close>

theorem cancel_removes_the_order:
  assumes "books_ok e" and "range_keys (le_books e) syms" and "co_OrderID c \<noteq> ''''"
    and "ro \<in> set (orders_of e s)" and "ro_id ro = co_OrderID c" and "may_cancel c ro"
    and "CancelOrder e None c syms = (answer, e')"
  shows "answer = Inr (cancel_answer c StatusCancelled '''') \<and>
    orders_of e' t = filter (\<lambda>r. ro_id r \<noteq> co_OrderID c) (orders_of e t) \<and>
    le_accounts e' = le_accounts e \<and> le_lastPrice e' = le_lastPrice e \<and>
    le_orderID e' = le_orderID e \<and> le_tradeID e' = le_tradeID e \<and> le_seq e' = le_seq e"
  using CancelOrder_found [OF assms(1-6)] CancelOrder_accounts [of e None c syms]
    CancelOrder_lastPrice [of e None c syms] CancelOrder_counters [of e None c syms] assms(7) by simp

definition sample_cancel :: CancelOrder where
  "sample_cancel = \<lparr>co_OrderID = ''ord-2'', co_Symbol = ''AAPL'', co_AccountID = ''market-maker''\<rparr>"

definition sample_ask :: restingOrder where
  "sample_ask = \<lparr>ro_id = ''ord-2'', ro_accountID = ''market-maker'', ro_side = SideSell, ro_price = 10001,
     ro_remaining = 10, ro_seq = 2\<rparr>"

lemma seeded_range: "range_keys (le_books seeded) [''AAPL'']"
  by (simp add: seeded_eq range_keys_def)

lemma sample_ask_rests: "sample_ask \<in> set (orders_of seeded ''AAPL'')"
  by (simp add: seeded_aapl seeded_orders_def sample_ask_def)

theorem cancel_removes_the_order_witness:
  "fst (CancelOrder seeded None sample_cancel [''AAPL'']) = Inr (cancel_answer sample_cancel StatusCancelled '''')"
  using cancel_removes_the_order [OF seeded_ok seeded_range _ sample_ask_rests _ _ prod.collapse [symmetric],
    of sample_cancel] by (simp add: sample_cancel_def sample_ask_def may_cancel_def)

text \<open>Error paths of cancelling. A cancel by another account, or of an id nobody has, is
  answered REJECTED with the reason; an empty id likewise; a context that is over returns its error.
  None of them changes the engine.\<close>

theorem cancel_refusals_change_nothing:
  assumes "books_ok e" and "range_keys (le_books e) syms"
    and "ctxErr \<noteq> None \<or> co_OrderID c = '''' \<or>
      (\<forall>s. \<forall>ro\<in>set (orders_of e s). ro_id ro = co_OrderID c \<longrightarrow> \<not> may_cancel c ro)"
  shows "snd (CancelOrder e ctxErr c syms) = e \<and>
    (ctxErr = None \<longrightarrow> (\<exists>ack. fst (CancelOrder e ctxErr c syms) = Inr ack \<and> ack_Status ack = StatusRejected \<and>
       ack_Reason ack = (if co_OrderID c = '''' then ''order_id required''
         else if \<exists>s. co_OrderID c \<in> ro_id ` set (orders_of e s) then ''not your order''
         else ''order not found'')))"
proof (cases "ctxErr = None \<and> co_OrderID c \<noteq> ''''")
  case True
  then have not_mine: "\<forall>s. \<forall>ro\<in>set (orders_of e s). ro_id ro = co_OrderID c \<longrightarrow> \<not> may_cancel c ro"
    using assms(3) by blast
  show ?thesis
  proof (cases "\<exists>s. co_OrderID c \<in> ro_id ` set (orders_of e s)")
    case found: True
    then obtain s ro where ro: "ro \<in> set (orders_of e s)" "ro_id ro = co_OrderID c" by auto
    with not_mine have "\<not> may_cancel c ro" by blast
    then show ?thesis
      using CancelOrder_refused [OF assms(1,2) _ ro] True found by (simp add: cancel_answer_def)
  next
    case False
    then show ?thesis using CancelOrder_absent [of c e syms] True by (simp add: cancel_answer_def)
  qed
next
  case False
  then show ?thesis by (auto simp: CancelOrder_def split: option.splits)
qed

theorem cancel_refusals_change_nothing_witness:
  "snd (CancelOrder seeded None (sample_cancel\<lparr>co_AccountID := ''alice''\<rparr>) [''AAPL'']) = seeded"
proof -
  have "\<forall>s. \<forall>ro\<in>set (orders_of seeded s). ro_id ro = ''ord-2'' \<longrightarrow>
      \<not> may_cancel (sample_cancel\<lparr>co_AccountID := ''alice''\<rparr>) ro"
    by (auto simp: seeded_eq orders_of_def seeded_orders_def may_cancel_def split: if_splits)
  then show ?thesis
    using cancel_refusals_change_nothing [OF seeded_ok seeded_range, of None "sample_cancel\<lparr>co_AccountID := ''alice''\<rparr>"]
    by (simp add: sample_cancel_def)
qed

text \<open>Cancelling ranges over a map of books in an order the runtime picks; any
  two orders give the same answer and the same engine.\<close>

theorem cancel_ignores_range_order:
  assumes "books_ok e" and "range_keys (le_books e) syms" and "range_keys (le_books e) syms'"
  shows "CancelOrder e ctxErr c syms = CancelOrder e ctxErr c syms'"
  by (rule CancelOrder_order_free [OF assms])

definition two_books :: LocalEngine where
  "two_books = NewLocalEngine [''AAPL'', ''TSLA'']"

lemma two_books_dom: "dom (le_books two_books) = {''AAPL'', ''TSLA''}"
  by (auto simp: two_books_def seed_eval split: if_splits)

theorem cancel_ignores_range_order_witness:
  "CancelOrder two_books None sample_cancel [''AAPL'', ''TSLA''] = CancelOrder two_books None sample_cancel [''TSLA'', ''AAPL'']"
proof (rule cancel_ignores_range_order)
  show "books_ok two_books" unfolding two_books_def by (rule NewLocalEngine_books) simp
qed (simp_all add: range_keys_def two_books_dom insert_commute)

section \<open>The book view\<close>

text \<open>C10: functional equivalence with a reference. \<open>GetBook\<close> shows the best levels of each side
  up to the depth asked for (five when it is not positive), each price once with the whole quantity
  resting there, whatever order the ranges over its two maps take.\<close>

theorem book_view_is_the_reference:
  assumes "view_keys (orders_of e (br_Symbol r)) bidKeys askKeys"
  shows "fst (GetBook e None r now bidKeys askKeys) =
    Inr \<lparr>bs_Symbol = br_Symbol r,
         bs_Bids = take (book_depth r) (levels True on_bid (orders_of e (br_Symbol r))),
         bs_Asks = take (book_depth r) (levels False on_ask (orders_of e (br_Symbol r))),
         bs_TsMillis = now\<rparr>"
  by (rule GetBook_spec [OF assms])

lemma seeded_view_keys:
  "view_keys (orders_of seeded ''AAPL'') [9995, 9997, 9999, 9998, 9996] [10001, 10005, 10002, 10004, 10003]"
  by (auto simp: view_keys_def range_keys_def seeded_aapl seeded_orders_def split: if_splits)

theorem book_view_is_the_reference_witness:
  "fst (GetBook seeded None \<lparr>br_Symbol = ''AAPL'', br_Depth = 2\<rparr> 7 [9995, 9997, 9999, 9998, 9996]
     [10001, 10005, 10002, 10004, 10003]) =
   Inr \<lparr>bs_Symbol = ''AAPL'',
        bs_Bids = [\<lparr>pl_PriceTicks = 9999, pl_Quantity = 10\<rparr>, \<lparr>pl_PriceTicks = 9998, pl_Quantity = 20\<rparr>],
        bs_Asks = [\<lparr>pl_PriceTicks = 10001, pl_Quantity = 10\<rparr>, \<lparr>pl_PriceTicks = 10002, pl_Quantity = 20\<rparr>],
        bs_TsMillis = 7\<rparr>"
  using book_view_is_the_reference [of seeded "\<lparr>br_Symbol = ''AAPL'', br_Depth = 2\<rparr>" _ _ 7] seeded_view_keys
  by (simp add: seeded_aapl seeded_orders_def book_depth_def levels_def prices_def qty_at_def on_bid_def
    on_ask_def price_key_def go_signed)

text \<open>Bounds. The levels shown are strictly ordered, bids from high to low and asks from low to
  high, and while all that rests on the book fits an \<open>int64\<close> each level's quantity is the sum over
  the integers of the orders at its price, and positive.\<close>

theorem levels_are_ordered_and_exact:
  assumes "book_ok os" and "(\<Sum>ro\<leftarrow>os. sint (ro_remaining ro)) < 2 ^ 63"
  shows "sorted_wrt (\<lambda>a b. sint (pl_PriceTicks b) < sint (pl_PriceTicks a)) (levels True side os) \<and>
    sorted_wrt (\<lambda>a b. sint (pl_PriceTicks a) < sint (pl_PriceTicks b)) (levels False side os) \<and>
    (\<forall>l\<in>set (levels d side os).
       sint (pl_Quantity l) = (\<Sum>ro\<leftarrow>filter (\<lambda>ro. side ro \<and> ro_price ro = pl_PriceTicks l) os. sint (ro_remaining ro)) \<and>
       0 < sint (pl_Quantity l))"
proof -
  have pos: "0 < (\<Sum>ro\<leftarrow>filter (\<lambda>ro. side ro \<and> ro_price ro = ro_price r) os. sint (ro_remaining ro))"
    if r: "r \<in> set os" "side r" for r
  proof -
    have "r \<in> set (filter (\<lambda>ro. side ro \<and> ro_price ro = ro_price r) os)" using r by simp
    then have "sint (ro_remaining r) \<in> set (map (\<lambda>ro. sint (ro_remaining ro)) (filter (\<lambda>ro. side ro \<and> ro_price ro = ro_price r) os))"
      by (simp only: set_map) (rule imageI)
    moreover have "\<forall>x\<in>set (map (\<lambda>ro. sint (ro_remaining ro)) (filter (\<lambda>ro. side ro \<and> ro_price ro = ro_price r) os)). 0 \<le> x"
      using book_ok_pos(1) [OF assms(1)] by (auto intro: less_imp_le)
    ultimately have "sint (ro_remaining r) \<le> (\<Sum>ro\<leftarrow>filter (\<lambda>ro. side ro \<and> ro_price ro = ro_price r) os. sint (ro_remaining ro))"
      by (intro member_le_sum_list) auto
    then show ?thesis using book_ok_pos(1) [OF assms(1) r(1)] by simp
  qed
  then show ?thesis using levels_sorted qty_at_sum [OF assms] by (auto simp: levels_complete)
qed

theorem levels_are_ordered_and_exact_witness:
  "sorted_wrt (\<lambda>a b. sint (pl_PriceTicks b) < sint (pl_PriceTicks a)) (levels True on_bid seeded_orders)"
proof -
  have ok: "book_ok seeded_orders" using books_ok_book [OF seeded_ok, of "''AAPL''"] by (simp add: seeded_aapl)
  show ?thesis using levels_are_ordered_and_exact [OF ok] by (simp add: seeded_orders_def)
qed

section \<open>Unvalidated input\<close>

lemma double_nonzero: "0 < sint q \<Longrightarrow> 2 * q \<noteq> 0" for q :: i64
proof
  assume q: "0 < sint q" and "2 * q = 0"
  then have "q + q = 0" by (simp only: mult_2)
  then have "q = - q" by (rule eq_neg_iff_add_eq_0 [THEN iffD2])
  moreover have "sint (- q) = - sint q" using q by (intro sint_i64_uminus) simp
  ultimately have "sint q = - sint q" by (rule subst [where P = "\<lambda>x. sint x = - sint q", OF sym])
  then show False using q by linarith
qed

text \<open>C12: what the missing check of the side costs. After any sequence of calls with documented
  sides, an order with an undocumented side that passes the guards is matched like a buy, and the
  ledger books taker and maker both as buyers: the signed holdings of its symbol then add up to
  twice the filled quantity and the cash of all accounts is short of the opening balances by twice
  the traded value, where both are zero otherwise (the sums are those of \<open>int64\<close>). So as soon as
  anything trades, the holdings of the symbol no longer cancel.\<close>

theorem undocumented_side_breaks_the_ledger:
  assumes "run_room seeds cs" and "\<forall>c\<in>set cs. side_ok c"
    and "passes_guards o'" and "\<not> valid_side (no_Side o')"
    and "SubmitOrder (run (NewLocalEngine seeds) cs) None o' now = (Inr ack, e')"
  shows "net_holding (le_accounts e') s = (if s = no_Symbol o' then 2 * ack_FilledQuantity ack else 0) \<and>
    net_cash (le_accounts e') = - 2 * (\<Sum>t\<leftarrow>ack_Trades ack. tr_PriceTicks t * tr_Quantity t) \<and>
    (ack_Trades ack \<noteq> [] \<longrightarrow> net_holding (le_accounts e') (no_Symbol o') \<noteq> 0)"
proof -
  let ?e = "run (NewLocalEngine seeds) cs"
  let ?fs = "allocation o' (no_Quantity o') ?e"
  have ok: "books_ok ?e" by (rule run_books_ok [OF assms(1)])
  have fin: "finite (dom (le_accounts ?e))" using run_ledger_ok [OF assms(1)] by (simp add: ledger_ok_def)
  note spec = SubmitOrder_spec [OF ok assms(3) refl assms(5)]
  have ack: "ack_FilledQuantity ack = (\<Sum>(m, f)\<leftarrow>?fs. f)"
    "(\<Sum>t\<leftarrow>ack_Trades ack. tr_PriceTicks t * tr_Quantity t) = fill_value ?fs" "ack_Trades ack = [] \<longleftrightarrow> ?fs = []"
    using spec(1) by (simp_all add: spec_ack_def trades_of_value trades_of_nonempty)
  have both: "net_holding (le_accounts e') t = (if t = no_Symbol o' then 2 * ack_FilledQuantity ack else 0) \<and>
      net_cash (le_accounts e') = - 2 * fill_value ?fs" for t
    using book_fills_undocumented [OF assms(4) fin, of ?fs t] run_conserves [OF assms(1,2)]
    by (simp add: spec(3) ack(1))
  have "2 * ack_FilledQuantity ack \<noteq> 0" if some: "?fs \<noteq> []"
  proof -
    have q: "0 \<le> sint (no_Quantity o')" using assms(3) by (auto simp: passes_guards_def go_signed)
    obtain m f rest where fs: "?fs = (m, f) # rest" using some by (cases ?fs) auto
    have pos: "\<forall>(m, f)\<in>set ?fs. 0 < sint f" using allocation_fills [OF ok, of o' "no_Quantity o'"] by auto
    then have "0 \<le> (\<Sum>(m, f)\<leftarrow>rest. sint f)" by (intro sum_list_nonneg) (auto simp: fs intro: less_imp_le)
    then have "0 < (\<Sum>(m, f)\<leftarrow>?fs. sint f)" using pos by (simp add: fs)
    then have "0 < sint (ack_FilledQuantity ack)"
      unfolding ack(1) sum_fills_sint [OF books_ok_book [OF ok] q] .
    then show ?thesis by (rule double_nonzero)
  qed
  then show ?thesis using both ack by simp
qed

definition sample_hold :: NewOrder where
  "sample_hold = sample_buy\<lparr>no_Side := ''HOLD'', no_PriceTicks := 1, no_Quantity := 5\<rparr>"

theorem undocumented_side_breaks_the_ledger_witness:
  "net_holding (le_accounts (snd (SubmitOrder seeded None sample_hold 1))) ''AAPL'' = 10 \<and>
   net_cash (le_accounts (snd (SubmitOrder seeded None sample_hold 1))) = - 100010"
proof -
  have room: "run_room [''AAPL''] []" by (simp add: run_room_def volume_def)
  have g: "passes_guards sample_hold" "\<not> valid_side (no_Side sample_hold)" "no_Symbol sample_hold = ''AAPL''"
    by (simp_all add: sample_hold_def passes_guards_def sample_buy_def valid_side_def SideBuy_def SideSell_def)
  have res: "SubmitOrder (run seeded []) None sample_hold 1 =
      (Inr (projr (fst (SubmitOrder seeded None sample_hold 1))), snd (SubmitOrder seeded None sample_hold 1))"
    by (simp add: run_def SubmitOrder_locked g)
  have "ack_FilledQuantity (projr (fst (SubmitOrder seeded None sample_hold 1))) = 5"
    "ack_Trades (projr (fst (SubmitOrder seeded None sample_hold 1))) =
      [\<lparr>tr_TradeID = ''trd-1'', tr_Symbol = ''AAPL'', tr_PriceTicks = 10001, tr_Quantity = 5,
        tr_BuyOrderID = ''ord-11'', tr_SellOrderID = ''ord-2'', tr_TsMillis = 1\<rparr>]"
    by (simp_all add: seeded_eq seeded_orders_def sample_hold_def sample_buy_def engine_eval SideBuy_def SideSell_def)
  then show ?thesis
    using undocumented_side_breaks_the_ledger [OF room _ g(1,2) res, of "''AAPL''"] g(3) by simp
qed

text \<open>What the missing check of the type costs. An order of an undocumented type that finds no
  counterparty at its price is answered ACCEPTED, yet it rests nowhere: the books are unchanged.\<close>

theorem undocumented_type_is_accepted_and_lost:
  assumes "books_ok e" and "passes_guards o'" and "\<not> valid_type (no_Type o')"
    and "allocation o' (no_Quantity o') e = []"
    and "SubmitOrder e None o' now = (Inr ack, e')"
  shows "ack_Status ack = StatusAccepted \<and> orders_of e' = orders_of e"
proof -
  have "deplete [] (orders_of e s) = orders_of e s" for s by (rule deplete_Nil [OF books_ok_book [OF assms(1)]])
  then have "orders_of e' s = orders_of e s" for s
    using SubmitOrder_spec(2) [OF assms(1,2) refl assms(5)] assms(3,4)
    by (simp add: spec_books_def resting_part_def rests_def valid_type_def)
  then show ?thesis
    using SubmitOrder_spec(1) [OF assms(1,2) refl assms(5)] assms(3,4)
    by (auto simp: spec_ack_def statusFor_def valid_type_def)
qed

theorem undocumented_type_is_accepted_and_lost_witness:
  "orders_of (snd (SubmitOrder seeded None (sample_limit\<lparr>no_Type := ''STOP''\<rparr>) 1)) = orders_of seeded"
proof -
  let ?o = "sample_limit\<lparr>no_Type := ''STOP''\<rparr>"
  have g: "passes_guards ?o" "\<not> valid_type (no_Type ?o)"
    by (simp_all add: passes_guards_def sample_limit_def valid_type_def OrderTypeLimit_def OrderTypeMarket_def)
  have none: "allocation ?o (no_Quantity ?o) seeded = []"
    by (simp add: allocation_def reachable_queue_def queue_def seeded_aapl seeded_orders_def sample_limit_def
      eligible_def wanted_def prio_def crosses_def go_signed OrderTypeMarket_def)
  have res: "SubmitOrder seeded None ?o 1 =
      (Inr (projr (fst (SubmitOrder seeded None ?o 1))), snd (SubmitOrder seeded None ?o 1))"
    by (simp add: SubmitOrder_locked g)
  show ?thesis using undocumented_type_is_accepted_and_lost [OF seeded_ok g none res] by blast
qed

end
