(* ===== verification/ApiProps.thy ===== *)
theory ApiProps
  imports Api LedgerProps
begin

text \<open>
  What the handlers do to the components behind them: the engine goes through engine calls only,
  so its invariants hold under any sequence of requests; accounts are kept apart; the cache, the
  order feed and the hub are used as their contracts say.
\<close>

section \<open>The engine behind the handlers\<close>

text \<open>The engine call a step makes, if any.\<close>

definition submitCall :: "('s, 'r, 'w) Server \<Rightarrow> choices \<Rightarrow> HttpRequest \<Rightarrow> call list" where
  "submitCall s ch rq =
     (case srv_decodeOrder s (rq_body rq) of
        Inl err \<Rightarrow> []
      | Inr o0 \<Rightarrow>
          if no_Symbol (attributed rq o0) = '''' \<or> fst (srv_risk s (no_AccountID (attributed rq o0))) then []
          else [Submit (ch_ctxErr ch) (attributed rq o0) (ch_now ch)])"

lemma submitCall_cases:
  "submitCall s ch rq = [] \<or> (\<exists>o0. submitCall s ch rq = [Submit (ch_ctxErr ch) (attributed rq o0) (ch_now ch)])"
  by (cases "srv_decodeOrder s (rq_body rq)") (auto simp: submitCall_def)

definition bookCall :: "('s, 'r, 'w) Server \<Rightarrow> choices \<Rightarrow> string \<Rightarrow> i32 \<Rightarrow> ('s, 'r, 'w) World \<Rightarrow> call list" where
  "bookCall s ch symbol depth w =
     (case CacheGetBook (srv_codec s) (srv_cache s) (wd_redis w) symbol depth of
        Some snap \<Rightarrow> []
      | None \<Rightarrow> (case ch_book ch of (now, bidKeys, askKeys) \<Rightarrow>
          [ReadBook (ch_ctxErr ch) \<lparr>br_Symbol = symbol, br_Depth = depth\<rparr> now bidKeys askKeys]))"

fun engineCall :: "('s, 'r, 'w) Server \<Rightarrow> gatewayStep \<Rightarrow> ('s, 'r, 'w) World \<Rightarrow> call list" where
  "engineCall s (PostOrder ch rq) w = submitCall s ch rq"
| "engineCall s (DeleteOrder ch rq) w =
     (if rq_path rq ''id'' = '''' then [] else [Cancel (ch_ctxErr ch) (cancelRequest rq) (ch_syms ch)])"
| "engineCall s (ReadBookOf ch rq) w =
     (if rq_path rq ''symbol'' = '''' then []
      else bookCall s ch (rq_path rq ''symbol'') (depthParam (rq_query rq ''depth'')) w)"
| "engineCall s (ReadAccount ch rq) w = []"
| "engineCall s (RunFanOut ch k) w =
     (if k < length (wd_tasks w) then bookCall s ch (snd (wd_tasks w ! k)) broadcastDepth w else [])"

lemma count_metrics_frame [simp]:
  "wd_engine (count_metrics ms w) = wd_engine w" "wd_redis (count_metrics ms w) = wd_redis w"
  "wd_feed (count_metrics ms w) = wd_feed w" "wd_hub (count_metrics ms w) = wd_hub w"
  "wd_tasks (count_metrics ms w) = wd_tasks w"
  by (simp_all add: count_metrics_def)

lemma broadcast_frame [simp]:
  "wd_engine (broadcast s m w) = wd_engine w" "wd_redis (broadcast s m w) = wd_redis w"
  "wd_feed (broadcast s m w) = wd_feed w" "wd_tasks (broadcast s m w) = wd_tasks w"
  "wd_hub (broadcast s m w) = Broadcast (srv_marshal s) m (wd_hub w)"
  by (simp_all add: broadcast_def)

lemma broadcastTrades_frame [simp]:
  "wd_engine (broadcastTrades s ts w) = wd_engine w" "wd_redis (broadcastTrades s ts w) = wd_redis w"
  "wd_feed (broadcastTrades s ts w) = wd_feed w" "wd_tasks (broadcastTrades s ts w) = wd_tasks w"
  by (induction s ts w rule: broadcastTrades.induct) simp_all

lemma localOps_simps [simp]:
  "eo_Submit localOps = SubmitOrder" "eo_Cancel localOps = CancelOrder"
  "eo_Book localOps e ctxErr r (now, bk, ak) = GetBook e ctxErr r now bk ak"
  "eo_Account localOps = Some (\<lambda>e. GetAccount (le_accounts e) (le_lastPrice e))"
  by (simp_all add: localOps_def)

lemma run_simps [simp]: "run e [] = e" "run e (c # cs) = run (perform e c) cs" "run e (cs @ cs') = run (run e cs) cs'"
  by (simp_all add: run_def)

lemma handleSubmit_engine:
  "srv_eng s = localOps \<Longrightarrow> wd_engine (snd (handleSubmit s ch h rq w)) = run (wd_engine w) (submitCall s ch rq)"
  by (auto simp: handleSubmit_def submitCall_def Let_def split: sum.split prod.split)

lemma handleCancel_engine:
  "srv_eng s = localOps \<Longrightarrow> wd_engine (snd (handleCancel s ch h rq w)) =
     run (wd_engine w) (engineCall s (DeleteOrder ch rq) w)"
  by (auto simp: handleCancel_def Let_def split: sum.split prod.split)

lemma handleBook_engine:
  "srv_eng s = localOps \<Longrightarrow> wd_engine (snd (handleBook s ch h rq w)) =
     run (wd_engine w) (engineCall s (ReadBookOf ch rq) w)"
  by (cases "ch_book ch") (auto simp: handleBook_def bookCall_def Let_def split: sum.split prod.split option.split)

lemma broadcastBook_engine:
  "srv_eng s = localOps \<Longrightarrow> wd_engine (broadcastBook s ch symbol w) =
     run (wd_engine w) (bookCall s ch symbol broadcastDepth w)"
  by (cases "ch_book ch") (auto simp: broadcastBook_def bookCall_def split: sum.split prod.split option.split)

lemma handleAccount_world [simp]: "snd (handleAccount s ch h rq w) = w"
  by (auto simp: handleAccount_def Let_def split: option.split sum.split)

lemma bookCall_redis: "wd_redis w = wd_redis w' \<Longrightarrow> bookCall s ch symbol depth w = bookCall s ch symbol depth w'"
  by (simp add: bookCall_def)

lemma serve_engine:
  assumes "srv_eng s = localOps"
  shows "wd_engine (serve s st w) = run (wd_engine w) (engineCall s st w)"
proof (cases st)
  case (RunFanOut ch k)
  have "bookCall s ch sy d (broadcastTrades s ts (w\<lparr>wd_tasks := tasks\<rparr>)) = bookCall s ch sy d w" for sy d ts tasks
    by (rule bookCall_redis) simp
  then show ?thesis using RunFanOut broadcastBook_engine [OF assms]
    by (simp add: runTask_def broadcastFills_def case_prod_beta Let_def)
next
  case (ReadAccount ch rq)
  then show ?thesis by simp
qed (simp_all add: handleSubmit_engine [OF assms] handleCancel_engine [OF assms] handleBook_engine [OF assms]
  del: engineCall.simps, simp)

text \<open>
  A history of the gateway: steps, each under the risk gate as it stands then (the consumer
  updates it concurrently).
\<close>

primrec served ::
  "('s, 'r, 'w) Server \<Rightarrow> ((string \<Rightarrow> bool \<times> string) \<times> gatewayStep) list \<Rightarrow> ('s, 'r, 'w) World \<Rightarrow> ('s, 'r, 'w) World" where
  "served s [] w = w"
| "served s (x # xs) w = served s xs (serve (s\<lparr>srv_risk := fst x\<rparr>) (snd x) w)"

primrec engineCalls ::
  "('s, 'r, 'w) Server \<Rightarrow> ((string \<Rightarrow> bool \<times> string) \<times> gatewayStep) list \<Rightarrow> ('s, 'r, 'w) World \<Rightarrow> call list" where
  "engineCalls s [] w = []"
| "engineCalls s (x # xs) w =
     engineCall (s\<lparr>srv_risk := fst x\<rparr>) (snd x) w @ engineCalls s xs (serve (s\<lparr>srv_risk := fst x\<rparr>) (snd x) w)"

lemma served_engine:
  assumes "srv_eng s = localOps"
  shows "wd_engine (served s steps w) = run (wd_engine w) (engineCalls s steps w)"
  using assms by (induction steps arbitrary: w) (simp_all add: serve_engine)

lemma engineCall_le: "length (engineCall s st w) \<le> 1"
  by (cases st) (auto simp: submitCall_def bookCall_def split: sum.split option.split prod.split)

lemma engineCalls_le: "length (engineCalls s steps w) \<le> length steps"
proof (induction steps arbitrary: w)
  case (Cons x steps)
  show ?case using Cons.IH [of "serve (s\<lparr>srv_risk := fst x\<rparr>) (snd x) w"]
      engineCall_le [of "s\<lparr>srv_risk := fst x\<rparr>" "snd x" w] by (simp add: add_mono)
qed simp

section \<open>Accounts are kept apart\<close>

lemma deplete_owner:
  "ro \<in> set (deplete fs os) \<Longrightarrow> \<exists>ro'\<in>set os. ro_id ro' = ro_id ro \<and> ro_accountID ro' = ro_accountID ro"
  by (auto simp: deplete_def split: option.splits)

text \<open>A submit adds an order of its own account, and no other.\<close>

lemma SubmitOrder_owner:
  assumes ok: "books_ok e" and ro: "ro \<in> set (orders_of (snd (SubmitOrder e ctxErr o' now)) sy)"
  shows "(\<exists>ro'\<in>set (orders_of e sy). ro_id ro' = ro_id ro \<and> ro_accountID ro' = ro_accountID ro) \<or>
    ro_accountID ro = no_AccountID o'"
proof (cases rule: SubmitOrder_cases [where ctxErr = ctxErr and o' = o'])
  case (err err)
  then show ?thesis using ro by (auto simp: SubmitOrder_err)
next
  case refused
  then show ?thesis using ro by (auto simp: SubmitOrder_refused nextOrderID_def orders_of_def)
next
  case locked
  obtain answer e' where r: "SubmitOrder e None o' now = (answer, e')" by force
  have "orders_of e' = spec_books e o' (allocation o' (no_Quantity o') e)"
    by (rule SubmitOrder_spec(2) [OF ok locked(2) refl r])
  then show ?thesis using ro r locked deplete_owner
    by (fastforce simp: spec_books_def resting_part_def split: if_splits)
qed

text \<open>A cancellation under an account leaves the orders of all other accounts alone.\<close>

lemma CancelOrder_owner:
  assumes ok: "books_ok e" and ks: "range_keys (le_books e) syms" and acct: "co_AccountID c \<noteq> ''''"
    and ro: "ro \<in> set (orders_of e sy)" and other: "ro_accountID ro \<noteq> co_AccountID c"
  shows "ro \<in> set (orders_of (snd (CancelOrder e ctxErr c syms)) sy)"
proof (cases "ctxErr = None \<and> co_OrderID c \<noteq> ''''")
  case False
  then show ?thesis using ro by (auto simp: CancelOrder_def split: option.split)
next
  case True
  show ?thesis
  proof (cases "\<exists>sy' ro'. ro' \<in> set (orders_of e sy') \<and> ro_id ro' = co_OrderID c")
    case False
    then have "\<And>t. co_OrderID c \<notin> ro_id ` set (orders_of e t)" by (metis imageE)
    then show ?thesis using True ro CancelOrder_absent by auto
  next
    case True': True
    then obtain sy' ro' where ro': "ro' \<in> set (orders_of e sy')" "ro_id ro' = co_OrderID c" by blast
    show ?thesis
    proof (cases "may_cancel c ro'")
      case False
      then show ?thesis using True ro CancelOrder_refused [OF ok ks _ ro'] by auto
    next
      case may: True
      then have "ro_id ro \<noteq> co_OrderID c"
        using same_order(2) [OF ok ro ro'(1)] ro'(2) other acct by (auto simp: may_cancel_def)
      then show ?thesis using True ro CancelOrder_found(2) [OF ok ks _ ro' may] by auto
    qed
  qed
qed

section \<open>Answers\<close>

lemma attributed_symbol [simp]: "no_Symbol (attributed rq o') = no_Symbol o'"
  by (simp add: attributed_def)

text \<open>What a submit answers, for any engine: the order feed and the tasks follow the answer.\<close>

lemma handleSubmit_accepted:
  assumes "srv_decodeOrder s (rq_body rq) = Inr o0" and "no_Symbol o0 \<noteq> ''''"
    and "\<not> fst (srv_risk s (no_AccountID (attributed rq o0)))"
    and "eo_Submit (srv_eng s) (wd_engine w) (ch_ctxErr ch) (attributed rq o0) (ch_now ch) = (Inr ack, e)"
  shows "fst (handleSubmit s ch h rq w) = writeJSON h (if ack_Status ack = StatusRejected then 422 else 201) (AckBody ack)"
    and "wd_feed (snd (handleSubmit s ch h rq w)) = po_Submit (srv_orders s) (wd_feed w) (attributed rq o0) ack (ch_published ch)"
    and "wd_tasks (snd (handleSubmit s ch h rq w)) = wd_tasks w @ [(ack_Trades ack, no_Symbol o0)]"
    and "wd_engine (snd (handleSubmit s ch h rq w)) = e"
proof -
  obtain reason where r: "srv_risk s (no_AccountID (attributed rq o0)) = (False, reason)"
    using assms(3) by (metis prod.collapse)
  show "fst (handleSubmit s ch h rq w) = writeJSON h (if ack_Status ack = StatusRejected then 422 else 201) (AckBody ack)"
    and "wd_feed (snd (handleSubmit s ch h rq w)) = po_Submit (srv_orders s) (wd_feed w) (attributed rq o0) ack (ch_published ch)"
    and "wd_tasks (snd (handleSubmit s ch h rq w)) = wd_tasks w @ [(ack_Trades ack, no_Symbol o0)]"
    and "wd_engine (snd (handleSubmit s ch h rq w)) = e"
    using assms(1,2,4) r by (simp_all add: handleSubmit_def Let_def)
qed

lemma handleSubmit_blocked:
  assumes "srv_decodeOrder s (rq_body rq) = Inr o0" and "no_Symbol o0 \<noteq> ''''"
    and "srv_risk s (no_AccountID (attributed rq o0)) = (True, reason)"
  shows "fst (handleSubmit s ch h rq w) =
      writeJSON h 422 (AckBody (ack_zero\<lparr>ack_Status := StatusRejected, ack_Reason := ''risk: '' @ reason\<rparr>))"
    and "wd_engine (snd (handleSubmit s ch h rq w)) = wd_engine w"
    and "wd_tasks (snd (handleSubmit s ch h rq w)) = wd_tasks w"
    and "wd_feed (snd (handleSubmit s ch h rq w)) = po_Submit (srv_orders s) (wd_feed w) (attributed rq o0)
      (ack_zero\<lparr>ack_Status := StatusRejected, ack_Reason := ''risk: '' @ reason\<rparr>) (ch_published ch)"
  using assms by (simp_all add: handleSubmit_def Let_def)

text \<open>
  With an engine that keeps its contract and a live context, a submit is answered 400, 422 or 201,
  never 502, and the engine's state stays sound; 201 means an honest acknowledgement.
\<close>

context engine_client
begin

lemma handleSubmit_live:
  assumes eng: "eo_Submit (srv_eng s) = submit" and ok: "ok (Suc n) (wd_engine w)" and live: "ch_ctxErr ch = None"
  shows "rsp_status (fst (handleSubmit s ch h rq w)) \<in> {201, 400, 422}"
    and "rsp_status (fst (handleSubmit s ch h rq w)) = 201 \<Longrightarrow>
      \<exists>o0 ack. srv_decodeOrder s (rq_body rq) = Inr o0 \<and> rsp_body (fst (handleSubmit s ch h rq w)) = AckBody ack \<and>
        good_ack (attributed rq o0) ack \<and> ack_Status ack \<noteq> StatusRejected"
    and "ok n (wd_engine (snd (handleSubmit s ch h rq w)))"
proof -
  have weak: "ok n (wd_engine w)" using weaken [OF ok] by simp
  have all: "rsp_status (fst (handleSubmit s ch h rq w)) \<in> {201, 400, 422} \<and>
    (rsp_status (fst (handleSubmit s ch h rq w)) = 201 \<longrightarrow>
      (\<exists>o0 ack. srv_decodeOrder s (rq_body rq) = Inr o0 \<and> rsp_body (fst (handleSubmit s ch h rq w)) = AckBody ack \<and>
        good_ack (attributed rq o0) ack \<and> ack_Status ack \<noteq> StatusRejected)) \<and>
    ok n (wd_engine (snd (handleSubmit s ch h rq w)))"
  proof (cases "srv_decodeOrder s (rq_body rq)")
    case (Inl err)
    then show ?thesis using weak by (simp add: handleSubmit_def)
  next
    case (Inr o0)
    consider "no_Symbol o0 = ''''" | "no_Symbol o0 \<noteq> ''''" "fst (srv_risk s (no_AccountID (attributed rq o0)))"
      | "no_Symbol o0 \<noteq> ''''" "\<not> fst (srv_risk s (no_AccountID (attributed rq o0)))" by blast
    then show ?thesis
    proof cases
      case 1
      then show ?thesis using Inr weak by (simp add: handleSubmit_def)
    next
      case 2
      then obtain reason where "srv_risk s (no_AccountID (attributed rq o0)) = (True, reason)"
        by (metis prod.collapse)
      then show ?thesis using handleSubmit_blocked [OF Inr 2(1), of reason ch h w] weak by simp
    next
      case 3
      obtain ack where ack: "fst (submit (wd_engine w) None (attributed rq o0) (ch_now ch)) = Inr ack"
        "good_ack (attributed rq o0) ack" using submit_answers [OF ok] by blast
      obtain e where e: "submit (wd_engine w) None (attributed rq o0) (ch_now ch) = (Inr ack, e)"
        using ack(1) by (metis prod.collapse)
      have "eo_Submit (srv_eng s) (wd_engine w) (ch_ctxErr ch) (attributed rq o0) (ch_now ch) = (Inr ack, e)"
        using e eng live by simp
      note r = handleSubmit_accepted [OF Inr 3 this]
      have "ok n e" using submit_ok [OF ok, of None "attributed rq o0" "ch_now ch"] e by simp
      then show ?thesis using r ack(2) Inr by (simp split: if_splits)
    qed
  qed
  from all show "rsp_status (fst (handleSubmit s ch h rq w)) \<in> {201, 400, 422}" ..
  from all show "rsp_status (fst (handleSubmit s ch h rq w)) = 201 \<Longrightarrow>
      \<exists>o0 ack. srv_decodeOrder s (rq_body rq) = Inr o0 \<and> rsp_body (fst (handleSubmit s ch h rq w)) = AckBody ack \<and>
        good_ack (attributed rq o0) ack \<and> ack_Status ack \<noteq> StatusRejected" by blast
  from all show "ok n (wd_engine (snd (handleSubmit s ch h rq w)))" by blast
qed

end

text \<open>Whatever is published by a request goes out under the account it acts for.\<close>

context publisher
begin

lemma handleSubmit_keys:
  assumes "po_Submit (srv_orders s) = publish_submit" and "rq_account rq \<noteq> ''''"
  shows "\<exists>ms. written (wd_feed (snd (handleSubmit s ch h rq w))) = written (wd_feed w) @ ms \<and> length ms \<le> 1 \<and>
    (\<forall>k\<in>set ms. km_Key k = rq_account rq)"
proof -
  have none: "\<exists>ms. written (wd_feed w) = written (wd_feed w) @ ms \<and> length ms \<le> 1 \<and> (\<forall>k\<in>set ms. km_Key k = rq_account rq)"
    by (rule exI [of _ "[]"]) simp
  have one: "\<exists>ms. written (publish_submit (wd_feed w) (attributed rq o0) ack t) = written (wd_feed w) @ ms \<and>
      length ms \<le> 1 \<and> (\<forall>k\<in>set ms. km_Key k = rq_account rq)" for o0 ack t
    using submit_written [of "wd_feed w" "attributed rq o0" ack t] assms(2) by (simp add: attributed_def)
  show ?thesis
    using none one assms(1)
    by (auto simp: handleSubmit_def Let_def split: sum.split prod.split)
qed

end

end
