(* ===== verification/Simulator.thy ===== *)
theory Simulator
  imports ApiProps
begin

text \<open>
  The market simulator, \<open>gateway/internal/api/simulator.go\<close>: bots that quote and trade through the
  engine client like everyone else. The pseudo-random generator of the library is an argument,
  \<open>intn\<close>, with its state; so is the order in which a cancellation ranges over the engine's books.
  The context of one tick is live, or over, for the whole tick.
\<close>

section \<open>Constants and state\<close>

definition simMaker :: string where "simMaker = ''sim-mm''"
definition simTakerA :: string where "simTakerA = ''sim-taker-a''"
definition simTakerB :: string where "simTakerB = ''sim-taker-b''"
definition simMidStart :: i64 where "simMidStart = 10000"
definition simMidMin :: i64 where "simMidMin = 8000"
definition simMidMax :: i64 where "simMidMax = 12000"
definition simLevels :: nat where "simLevels = 3"

record simBatch =
  sb_symbol :: string
  sb_trades :: "Trade list"

record 'g marketSim =
  ms_syms :: "string list"
  ms_mid :: "string \<rightharpoonup> i64"
  ms_quotes :: "string \<rightharpoonup> string list"
  ms_rng :: 'g
  ms_paused :: bool

definition newMarketSim :: "string list \<Rightarrow> 'g \<Rightarrow> 'g marketSim" where
  "newMarketSim syms rng =
     \<lparr>ms_syms = syms, ms_mid = (\<lambda>s. if s \<in> set syms then Some simMidStart else None), ms_quotes = Map.empty,
      ms_rng = rng, ms_paused = False\<rparr>"

text \<open>What a tick depends on: the engine client, its context, the clock, the range order, and \<open>Intn\<close>.\<close>

record ('s, 'g) simTick =
  tk_eng :: "'s EngineOps"
  tk_ctxErr :: "error option"
  tk_now :: i64
  tk_range :: "'s \<Rightarrow> string list"
  tk_intn :: "nat \<Rightarrow> 'g \<Rightarrow> nat \<times> 'g"

definition quotes_of :: "'g marketSim \<Rightarrow> string \<Rightarrow> string list" where
  "quotes_of m s = (case ms_quotes m s of None \<Rightarrow> [] | Some ids \<Rightarrow> ids)"

definition draw :: "('s, 'g) simTick \<Rightarrow> nat \<Rightarrow> 'g marketSim \<Rightarrow> nat \<times> 'g marketSim" where
  "draw tk n m = (let (k, g) = tk_intn tk n (ms_rng m) in (k, m\<lparr>ms_rng := g\<rparr>))"

section \<open>One tick\<close>

definition clampMid :: "i64 \<Rightarrow> i64" where
  "clampMid mid =
     (let mid1 = (if mid <s simMidMin then simMidMin else mid)
      in if simMidMax <s mid1 then simMidMax else mid1)"

definition walkMid :: "('s, 'g) simTick \<Rightarrow> string \<Rightarrow> 'g marketSim \<Rightarrow> i64 \<times> 'g marketSim" where
  "walkMid tk s m =
     (let (d, m1) = draw tk 5 m;
          mid = clampMid (map_get (ms_mid m1) s + word_of_int (int d - 2))
      in (mid, m1\<lparr>ms_mid := (ms_mid m1)(s \<mapsto> mid)\<rparr>))"

primrec cancelQuotes :: "('s, 'g) simTick \<Rightarrow> string \<Rightarrow> string list \<Rightarrow> 's \<Rightarrow> 's" where
  "cancelQuotes tk s [] e = e"
| "cancelQuotes tk s (i # ids) e =
     cancelQuotes tk s ids
       (snd (eo_Cancel (tk_eng tk) e (tk_ctxErr tk) \<lparr>co_OrderID = i, co_Symbol = s, co_AccountID = simMaker\<rparr> (tk_range tk e)))"

definition simOrder :: "string \<Rightarrow> string \<Rightarrow> Side \<Rightarrow> OrderType \<Rightarrow> i64 \<Rightarrow> i64 \<Rightarrow> NewOrder" where
  "simOrder acct s sd ty price qty =
     \<lparr>no_ClientOrderID = '''', no_AccountID = acct, no_Symbol = s, no_Side = sd, no_Type = ty,
      no_PriceTicks = price, no_Quantity = qty\<rparr>"

text \<open>One quote: its id is remembered unless the call fails.\<close>

definition postQuote ::
  "('s, 'g) simTick \<Rightarrow> string \<Rightarrow> Side \<Rightarrow> i64 \<Rightarrow> i64 \<Rightarrow> 'g marketSim \<times> 's \<Rightarrow> 'g marketSim \<times> 's" where
  "postQuote tk s sd price qty me =
     (case eo_Submit (tk_eng tk) (snd me) (tk_ctxErr tk) (simOrder simMaker s sd OrderTypeLimit price qty) (tk_now tk) of
        (Inl err, e) \<Rightarrow> (fst me, e)
      | (Inr ack, e) \<Rightarrow>
          ((fst me)\<lparr>ms_quotes := (ms_quotes (fst me))(s \<mapsto> quotes_of (fst me) s @ [ack_OrderID ack])\<rparr>, e))"

definition postLevel :: "('s, 'g) simTick \<Rightarrow> string \<Rightarrow> i64 \<Rightarrow> i64 \<Rightarrow> 'g marketSim \<times> 's \<Rightarrow> 'g marketSim \<times> 's" where
  "postLevel tk s mid i me =
     (let (k, m) = draw tk 40 (fst me);
          qty = 10 + of_nat k
      in postQuote tk s SideSell (mid + i) qty (postQuote tk s SideBuy (mid - i) qty (m, snd me)))"

definition postLevels :: "('s, 'g) simTick \<Rightarrow> string \<Rightarrow> i64 \<Rightarrow> 'g marketSim \<times> 's \<Rightarrow> 'g marketSim \<times> 's" where
  "postLevels tk s mid me = fold (\<lambda>i. postLevel tk s mid (of_nat i)) [1..<simLevels + 1] me"

definition takerOrder :: "('s, 'g) simTick \<Rightarrow> string \<Rightarrow> 'g marketSim \<Rightarrow> NewOrder \<times> 'g marketSim" where
  "takerOrder tk s m =
     (let (coin, m1) = draw tk 2 m;
          (sd, acct) = (if coin = 0 then (SideSell, simTakerB) else (SideBuy, simTakerA));
          (k, m2) = draw tk 20 m1
      in (simOrder acct s sd OrderTypeMarket 0 (5 + of_nat k), m2))"

definition takerTurn ::
  "('s, 'g) simTick \<Rightarrow> string \<Rightarrow> 'g marketSim \<times> 's \<Rightarrow> simBatch list \<times> 'g marketSim \<times> 's" where
  "takerTurn tk s me =
     (let (k, m) = draw tk 100 (fst me)
      in if k < 75 then
           (let (o', m1) = takerOrder tk s m
            in (case eo_Submit (tk_eng tk) (snd me) (tk_ctxErr tk) o' (tk_now tk) of
                  (Inl err, e) \<Rightarrow> ([], m1, e)
                | (Inr ack, e) \<Rightarrow>
                    ((if ack_Trades ack \<noteq> [] then [\<lparr>sb_symbol = s, sb_trades = ack_Trades ack\<rparr>] else []), m1, e)))
         else ([], m, snd me))"

definition stepSymbol ::
  "('s, 'g) simTick \<Rightarrow> string \<Rightarrow> 'g marketSim \<times> 's \<Rightarrow> simBatch list \<times> 'g marketSim \<times> 's" where
  "stepSymbol tk s me =
     (let (mid, m1) = walkMid tk s (fst me);
          e1 = cancelQuotes tk s (quotes_of m1 s) (snd me);
          m2 = m1\<lparr>ms_quotes := (ms_quotes m1)(s \<mapsto> [])\<rparr>
      in takerTurn tk s (postLevels tk s mid (m2, e1)))"

fun stepSymbols ::
  "('s, 'g) simTick \<Rightarrow> string list \<Rightarrow> 'g marketSim \<times> 's \<Rightarrow> simBatch list \<times> 'g marketSim \<times> 's" where
  "stepSymbols tk [] me = ([], me)"
| "stepSymbols tk (s # ss) me =
     (let (out, me1) = stepSymbol tk s me; (out', me2) = stepSymbols tk ss me1 in (out @ out', me2))"

definition simStep :: "('s, 'g) simTick \<Rightarrow> 'g marketSim \<times> 's \<Rightarrow> simBatch list \<times> 'g marketSim \<times> 's" where
  "simStep tk me = (if ms_paused (fst me) then ([], me) else stepSymbols tk (ms_syms (fst me)) me)"

section \<open>The simulator's goroutine and its controls\<close>

text \<open>One tick of the loop of \<open>StartMarketSim\<close>; each book refresh has its own choices.\<close>

fun refreshBooks ::
  "('s, 'r, 'w) Server \<Rightarrow> (string \<Rightarrow> choices) \<Rightarrow> string list \<Rightarrow> ('s, 'r, 'w) World \<Rightarrow> ('s, 'r, 'w) World" where
  "refreshBooks s ch [] w = w"
| "refreshBooks s ch (x # xs) w = refreshBooks s ch xs (broadcastBook s (ch x) x w)"

fun broadcastBatches ::
  "('s, 'r, 'w) Server \<Rightarrow> simBatch list \<Rightarrow> ('s, 'r, 'w) World \<Rightarrow> ('s, 'r, 'w) World" where
  "broadcastBatches s [] w = w"
| "broadcastBatches s (b # bs) w = broadcastBatches s bs (broadcastTrades s (sb_trades b) w)"

definition simTurn ::
  "('s, 'r, 'w) Server \<Rightarrow> ('s, 'g) simTick \<Rightarrow> (string \<Rightarrow> choices) \<Rightarrow> string list \<Rightarrow>
   'g marketSim \<times> ('s, 'r, 'w) World \<Rightarrow> 'g marketSim \<times> ('s, 'r, 'w) World" where
  "simTurn s tk ch syms mw =
     (let (batches, m, e) = simStep tk (fst mw, wd_engine (snd mw));
          w1 = (snd mw)\<lparr>wd_engine := e\<rparr>
      in if batches = [] \<and> ms_paused m then (m, w1)
         else (m, refreshBooks s ch syms (broadcastBatches s batches w1)))"

definition handleSimState :: "'g marketSim handler" where
  "handleSimState h rq m = (writeJSON h 200 (SimBody True (ms_paused m)), m)"

definition handleSimPause :: "'g marketSim handler" where
  "handleSimPause h rq m = (writeJSON h 200 (SimBody True True), m\<lparr>ms_paused := True\<rparr>)"

definition handleSimResume :: "'g marketSim handler" where
  "handleSimResume h rq m = (writeJSON h 200 (SimBody True False), m\<lparr>ms_paused := False\<rparr>)"

end
