(* ===== verification/Postgres.thy ===== *)
theory Postgres
  imports Auth
begin

text \<open>
  The user store of the full stack, \<open>gateway/internal/auth/store_postgres.go\<close>: one INSERT and one
  SELECT on the table \<open>users\<close>. The database is an argument, two functions on its state; what the
  store relies on is the locale \<open>users_table\<close>. The table of the migration
  \<open>V2__users.sql\<close>, with its primary key and its unique column, satisfies it.
\<close>

section \<open>The store\<close>

text \<open>An error of the driver: one with an SQLSTATE code (\<open>pq.Error\<close>), or another.\<close>

datatype dbError = PqError string error | DriverError error

text \<open>
  \<open>ud_Insert\<close> is the statement
  \<open>INSERT INTO users (account_id, email, password_hash) VALUES ($1, $2, $3)\<close> on the three columns,
  \<open>ud_Select\<close> is \<open>SELECT account_id, email, password_hash FROM users WHERE email = $1\<close>.
\<close>

datatype userRow = NoUserRow | UserQueryError error | UserRow User

record 'd UsersDB =
  ud_Insert :: "string \<Rightarrow> string \<Rightarrow> string \<Rightarrow> 'd \<Rightarrow> dbError option \<times> 'd"
  ud_Select :: "string \<Rightarrow> 'd \<Rightarrow> userRow"

definition PostgresCreate :: "Unicode \<Rightarrow> 'd UsersDB \<Rightarrow> 'd \<Rightarrow> User \<Rightarrow> storeError option \<times> 'd" where
  "PostgresCreate uni p d u =
     (let (err, d') = ud_Insert p (us_AccountID u) (NormalizeEmail uni (us_Email u)) (us_PasswordHash u) d
      in (case err of
            None \<Rightarrow> (None, d')
          | Some (PqError code msg) \<Rightarrow>
              if code = ''23505'' then (Some ErrEmailTaken, d') else (Some (StoreFailure msg), d')
          | Some (DriverError msg) \<Rightarrow> (Some (StoreFailure msg), d')))"

definition PostgresByEmail :: "Unicode \<Rightarrow> 'd UsersDB \<Rightarrow> 'd \<Rightarrow> string \<Rightarrow> storeError + User" where
  "PostgresByEmail uni p d email =
     (case ud_Select p (NormalizeEmail uni email) d of
        NoUserRow \<Rightarrow> Inl ErrNoUser
      | UserQueryError err \<Rightarrow> Inl (StoreFailure err)
      | UserRow u \<Rightarrow> Inr u)"

definition postgresStore :: "Unicode \<Rightarrow> 'd UsersDB \<Rightarrow> 'd UserStore" where
  "postgresStore uni p = \<lparr>st_Create = PostgresCreate uni p, st_ByEmail = PostgresByEmail uni p\<rparr>"

section \<open>What it relies on\<close>

text \<open>
  An inserted row is what its address selects, and no other selection changes; a failed statement
  changes nothing; inserting an address that is there is a unique violation.
\<close>

definition users_db_laws :: "'d UsersDB \<Rightarrow> bool" where
  "users_db_laws p \<longleftrightarrow>
     (\<forall>a m h d d'. ud_Insert p a m h d = (None, d') \<longrightarrow>
        (\<forall>e. ud_Select p e d' =
          (if e = m then UserRow \<lparr>us_AccountID = a, us_Email = m, us_PasswordHash = h\<rparr> else ud_Select p e d))) \<and>
     (\<forall>a m h d err d'. ud_Insert p a m h d = (Some err, d') \<longrightarrow> d' = d) \<and>
     (\<forall>a m h d u. ud_Select p m d = UserRow u \<longrightarrow>
        (\<exists>msg. ud_Insert p a m h d = (Some (PqError ''23505'' msg), d)))"

locale users_table =
  fixes uni :: Unicode and p :: "'d UsersDB"
  assumes laws: "users_db_laws p"

text \<open>So the Postgres store keeps the contract of a user store.\<close>

sublocale users_table \<subseteq> user_store "PostgresCreate uni p" "PostgresByEmail uni p" "NormalizeEmail uni"
proof
  fix s s' :: 'd and u v :: User and e e' :: string and err :: storeError
  show "PostgresByEmail uni p s' e =
      (if NormalizeEmail uni e = NormalizeEmail uni (us_Email u) then Inr (u\<lparr>us_Email := NormalizeEmail uni (us_Email u)\<rparr>)
       else PostgresByEmail uni p s e)" if "PostgresCreate uni p s u = (None, s')"
  proof -
    have ins: "ud_Insert p (us_AccountID u) (NormalizeEmail uni (us_Email u)) (us_PasswordHash u) s = (None, s')"
      using that by (auto simp: PostgresCreate_def split: prod.splits option.splits dbError.splits if_splits)
    have "ud_Select p k s' = (if k = NormalizeEmail uni (us_Email u)
        then UserRow \<lparr>us_AccountID = us_AccountID u, us_Email = NormalizeEmail uni (us_Email u), us_PasswordHash = us_PasswordHash u\<rparr>
        else ud_Select p k s)" for k
      using laws ins unfolding users_db_laws_def by blast
    then show ?thesis by (simp add: PostgresByEmail_def)
  qed
  show "s' = s" if "PostgresCreate uni p s u = (Some err, s')"
  proof -
    obtain r d1 where ins: "ud_Insert p (us_AccountID u) (NormalizeEmail uni (us_Email u)) (us_PasswordHash u) s = (r, d1)"
      by force
    have "\<exists>derr. r = Some derr \<and> d1 = s'"
      using that unfolding PostgresCreate_def ins
      by (cases rule: option.exhaust [of r]) (auto split: dbError.splits if_splits)
    then obtain derr where "r = Some derr" "d1 = s'" by blast
    then show ?thesis using laws ins unfolding users_db_laws_def by blast
  qed
  show "PostgresCreate uni p s u = (Some ErrEmailTaken, s)" if "PostgresByEmail uni p s (us_Email u) = Inr v"
  proof -
    have "ud_Select p (NormalizeEmail uni (us_Email u)) s = UserRow v"
      using that by (simp add: PostgresByEmail_def split: userRow.splits)
    then obtain msg where "ud_Insert p (us_AccountID u) (NormalizeEmail uni (us_Email u)) (us_PasswordHash u) s =
        (Some (PqError ''23505'' msg), s)"
      using laws unfolding users_db_laws_def by blast
    then show ?thesis by (simp add: PostgresCreate_def)
  qed
  show "PostgresByEmail uni p s e = PostgresByEmail uni p s e'" if "NormalizeEmail uni e = NormalizeEmail uni e'"
    using that by (simp add: PostgresByEmail_def)
qed

section \<open>The table of the migration\<close>

text \<open>\<open>account_id\<close> is the primary key and \<open>email\<close> is unique: either violation has the code 23505.\<close>

definition tableInsert :: "string \<Rightarrow> string \<Rightarrow> string \<Rightarrow> User list \<Rightarrow> dbError option \<times> User list" where
  "tableInsert a m h rows =
     (if list_ex (\<lambda>u. us_AccountID u = a) rows then (Some (PqError ''23505'' ''users_pkey''), rows)
      else if list_ex (\<lambda>u. us_Email u = m) rows then (Some (PqError ''23505'' ''users_email_key''), rows)
      else (None, rows @ [\<lparr>us_AccountID = a, us_Email = m, us_PasswordHash = h\<rparr>]))"

definition tableSelect :: "string \<Rightarrow> User list \<Rightarrow> userRow" where
  "tableSelect m rows = (case find (\<lambda>u. us_Email u = m) rows of None \<Rightarrow> NoUserRow | Some u \<Rightarrow> UserRow u)"

definition usersTable :: "User list UsersDB" where
  "usersTable = \<lparr>ud_Insert = tableInsert, ud_Select = tableSelect\<rparr>"

lemma find_snoc: "find P (xs @ [x]) = (case find P xs of None \<Rightarrow> if P x then Some x else None | Some y \<Rightarrow> Some y)"
  by (induction xs) auto

lemma usersTable_laws: "users_db_laws usersTable"
  unfolding users_db_laws_def
proof (intro conjI allI impI)
  fix a m h d d' e
  assume "ud_Insert usersTable a m h d = (None, d')"
  then have d': "d' = d @ [\<lparr>us_AccountID = a, us_Email = m, us_PasswordHash = h\<rparr>]" "\<not> list_ex (\<lambda>u. us_Email u = m) d"
    by (auto simp: usersTable_def tableInsert_def split: if_splits)
  then have "find (\<lambda>u. us_Email u = m) d = None" by (auto simp: find_None_iff list_ex_iff)
  then show "ud_Select usersTable e d' =
      (if e = m then UserRow \<lparr>us_AccountID = a, us_Email = m, us_PasswordHash = h\<rparr> else ud_Select usersTable e d)"
    by (auto simp: usersTable_def tableSelect_def d'(1) find_snoc split: option.split)
next
  fix a m h d err d'
  assume "ud_Insert usersTable a m h d = (Some err, d')"
  then show "d' = d" by (auto simp: usersTable_def tableInsert_def split: if_splits)
next
  fix a m h d u
  assume "ud_Select usersTable m d = UserRow u"
  then have "list_ex (\<lambda>u. us_Email u = m) d"
    by (auto simp: usersTable_def tableSelect_def find_Some_iff list_ex_iff split: option.splits)
  then show "\<exists>msg. ud_Insert usersTable a m h d = (Some (PqError ''23505'' msg), d)"
    by (simp add: usersTable_def tableInsert_def)
qed

interpretation postgres_store: users_table uni usersTable
  for uni
  by unfold_locales (rule usersTable_laws)

text \<open>
  A clash of account ids is a unique violation too, so it is reported as an address that is taken.
\<close>

lemma account_clash_is_reported_as_taken:
  "list_ex (\<lambda>v. us_AccountID v = us_AccountID u) rows \<Longrightarrow>
   PostgresCreate uni usersTable rows u = (Some ErrEmailTaken, rows)"
  by (simp add: PostgresCreate_def usersTable_def tableInsert_def)

end
