(* ===== verification/Config.thy ===== *)
theory Config
  imports Http Float64
begin

text \<open>
  The configuration, \<open>gateway/internal/config/config.go\<close>: environment variables with defaults. The
  environment is a function that gives the empty string for what is not set, as \<open>os.Getenv\<close> does.
  \<open>strconv.ParseBool\<close> and \<open>strconv.Atoi\<close> are written out; \<open>strconv.ParseFloat\<close> and
  \<open>time.ParseDuration\<close>, which round in floating point, are arguments. Durations are nanoseconds.
\<close>

section \<open>Reading one variable\<close>

record Strconv =
  sc_ParseFloat :: "string \<Rightarrow> error + f64"
  sc_ParseDuration :: "string \<Rightarrow> error + int"

definition ParseBool :: "string \<Rightarrow> bool option" where
  "ParseBool s =
     (if s \<in> set [''1'', ''t'', ''T'', ''TRUE'', ''true'', ''True''] then Some True
      else if s \<in> set [''0'', ''f'', ''F'', ''FALSE'', ''false'', ''False''] then Some False
      else None)"

type_synonym env = "string \<Rightarrow> string"

definition getenv :: "env \<Rightarrow> string \<Rightarrow> string \<Rightarrow> string" where
  "getenv env key dflt = (if env key \<noteq> '''' then env key else dflt)"

definition getenvBool :: "env \<Rightarrow> string \<Rightarrow> bool \<Rightarrow> bool" where
  "getenvBool env key dflt =
     (if env key \<noteq> '''' then (case ParseBool (env key) of Some b \<Rightarrow> b | None \<Rightarrow> dflt) else dflt)"

definition getenvInt :: "env \<Rightarrow> string \<Rightarrow> i64 \<Rightarrow> i64" where
  "getenvInt env key dflt =
     (if env key \<noteq> '''' then (case atoi (env key) of Some n \<Rightarrow> n | None \<Rightarrow> dflt) else dflt)"

definition getenvFloat :: "Strconv \<Rightarrow> env \<Rightarrow> string \<Rightarrow> f64 \<Rightarrow> f64" where
  "getenvFloat sc env key dflt =
     (if env key \<noteq> '''' then (case sc_ParseFloat sc (env key) of Inr f \<Rightarrow> f | Inl err \<Rightarrow> dflt) else dflt)"

definition getenvDuration :: "Strconv \<Rightarrow> env \<Rightarrow> string \<Rightarrow> int \<Rightarrow> int" where
  "getenvDuration sc env key dflt =
     (if env key \<noteq> '''' then (case sc_ParseDuration sc (env key) of Inr d \<Rightarrow> d | Inl err \<Rightarrow> dflt) else dflt)"

section \<open>The configuration\<close>

record Config =
  cf_ListenAddr :: string
  cf_EngineGRPCAddr :: string
  cf_EngineMode :: string
  cf_MarketSim :: bool
  cf_MarketSimInterval :: int
  cf_RedisAddr :: string
  cf_JWTSecret :: string
  cf_CORSAllowedOrigin :: string
  cf_DatabaseURL :: string
  cf_AccessTokenTTL :: int
  cf_RefreshTokenTTL :: int
  cf_AllowInsecureSecret :: bool
  cf_DemoAuthEnabled :: bool
  cf_DemoAccountID :: string
  cf_DemoSessionTTL :: int
  cf_RateLimitPerSecond :: f64
  cf_RateLimitBurst :: i64
  cf_EngineTimeout :: int
  cf_CacheTTL :: int
  cf_KafkaBootstrap :: string
  cf_TradesTopic :: string
  cf_TapeConsumerGroup :: string
  cf_OrdersTopic :: string
  cf_SignalsTopic :: string
  cf_SignalsConsumerGroup :: string

definition Millisecond :: int where "Millisecond = 1000000"
definition Second :: int where "Second = 1000 * Millisecond"
definition Minute :: int where "Minute = 60 * Second"
definition Hour :: int where "Hour = 60 * Minute"

definition defaultJWTSecret :: string where
  "defaultJWTSecret = ''dev-only-change-me''"

definition loadConfig :: "Strconv \<Rightarrow> env \<Rightarrow> Config" where
  "loadConfig sc env =
     \<lparr>cf_ListenAddr = '':'' @ getenv env ''PORT'' ''8080'',
      cf_EngineGRPCAddr = getenv env ''ENGINE_GRPC_ADDR'' ''localhost:50051'',
      cf_EngineMode = getenv env ''ENGINE_MODE'' ''grpc'',
      cf_MarketSim = getenvBool env ''MARKET_SIM'' True,
      cf_MarketSimInterval = getenvDuration sc env ''MARKET_SIM_INTERVAL'' (700 * Millisecond),
      cf_RedisAddr = getenv env ''REDIS_ADDR'' ''localhost:6379'',
      cf_JWTSecret = getenv env ''JWT_SECRET'' defaultJWTSecret,
      cf_CORSAllowedOrigin = getenv env ''CORS_ALLOWED_ORIGIN'' ''*'',
      cf_DatabaseURL = getenv env ''DATABASE_URL'' '''',
      cf_AccessTokenTTL = getenvDuration sc env ''ACCESS_TOKEN_TTL'' (15 * Minute),
      cf_RefreshTokenTTL = getenvDuration sc env ''REFRESH_TOKEN_TTL'' (7 * 24 * Hour),
      cf_AllowInsecureSecret = getenvBool env ''ALLOW_INSECURE_SECRET'' False,
      cf_DemoAuthEnabled = getenvBool env ''DEMO_AUTH_ENABLED'' True,
      cf_DemoAccountID = getenv env ''DEMO_ACCOUNT_ID'' ''acct-demo-1'',
      cf_DemoSessionTTL = getenvDuration sc env ''DEMO_SESSION_TTL'' (12 * Hour),
      cf_RateLimitPerSecond = getenvFloat sc env ''RATE_LIMIT_RPS'' (Finite 20),
      cf_RateLimitBurst = getenvInt env ''RATE_LIMIT_BURST'' 40,
      cf_EngineTimeout = getenvDuration sc env ''ENGINE_TIMEOUT'' (3 * Second),
      cf_CacheTTL = getenvDuration sc env ''CACHE_TTL'' (1 * Second),
      cf_KafkaBootstrap = getenv env ''KAFKA_BOOTSTRAP'' ''localhost:9092'',
      cf_TradesTopic = getenv env ''TRADES_TOPIC'' ''trades'',
      cf_TapeConsumerGroup = getenv env ''TAPE_CONSUMER_GROUP'' ''gateway-tape'',
      cf_OrdersTopic = getenv env ''ORDERS_TOPIC'' ''orders'',
      cf_SignalsTopic = getenv env ''RISK_SIGNALS_TOPIC'' ''risk-signals'',
      cf_SignalsConsumerGroup = getenv env ''RISK_CONSUMER_GROUP'' ''gateway-risk''\<rparr>"

definition loadWarnings :: "env \<Rightarrow> string list" where
  "loadWarnings env =
     (if getenv env ''JWT_SECRET'' defaultJWTSecret = defaultJWTSecret
      then [''JWT_SECRET is the insecure dev default; set a strong secret before exposing the gateway''] else []) @
     (if getenv env ''CORS_ALLOWED_ORIGIN'' ''*'' = ''*''
      then [''CORS_ALLOWED_ORIGIN is '' @ [CHR 0x27] @ ''*'' @ [CHR 0x27] @ '' (any site); pin it to the dashboard origin before exposing the gateway''] else [])"

definition Load :: "Strconv \<Rightarrow> env \<Rightarrow> Config \<times> string list" where
  "Load sc env = (loadConfig sc env, loadWarnings env)"

definition Validate :: "Config \<Rightarrow> error option" where
  "Validate c =
     (if cf_JWTSecret c = defaultJWTSecret \<and> \<not> cf_AllowInsecureSecret c
      then Some (''refusing to start: JWT_SECRET is the insecure default. '' @
        ''Set a strong JWT_SECRET, or ALLOW_INSECURE_SECRET=1 for local dev'')
      else None)"

definition AuthEnabled :: "Config \<Rightarrow> bool" where
  "AuthEnabled c \<longleftrightarrow> cf_DatabaseURL c \<noteq> ''''"

text \<open>\<open>String\<close>, the boot log line; \<open>%.1f\<close> and the durations' \<open>%s\<close> are arguments.\<close>

definition configString :: "(f64 \<Rightarrow> string) \<Rightarrow> (int \<Rightarrow> string) \<Rightarrow> Config \<Rightarrow> string" where
  "configString fmt1f fmtDur c =
     ''listen='' @ cf_ListenAddr c @ '' engine='' @ cf_EngineGRPCAddr c @ '' redis='' @ cf_RedisAddr c @
     '' kafka='' @ cf_KafkaBootstrap c @ '' tradesTopic='' @ cf_TradesTopic c @ '' tapeGroup='' @ cf_TapeConsumerGroup c @
     '' ordersTopic='' @ cf_OrdersTopic c @ '' signalsTopic='' @ cf_SignalsTopic c @
     '' riskGroup='' @ cf_SignalsConsumerGroup c @ '' rps='' @ fmt1f (cf_RateLimitPerSecond c) @
     '' burst='' @ fmt_d (cf_RateLimitBurst c) @ '' engineTimeout='' @ fmtDur (cf_EngineTimeout c) @
     '' cacheTTL='' @ fmtDur (cf_CacheTTL c) @ '' jwtSecret=<redacted>''"

section \<open>Facts\<close>

text \<open>The log line does not depend on the secret, nor on the database's credentials.\<close>

lemma configString_hides:
  "configString f g (c\<lparr>cf_JWTSecret := secret, cf_DatabaseURL := dsn\<rparr>) = configString f g c"
  by (simp add: configString_def)

text \<open>What passes validation: another secret, or an explicit permission.\<close>

lemma Validate_secret:
  "Validate (loadConfig sc env) = None \<longleftrightarrow>
     (env ''JWT_SECRET'' \<noteq> '''' \<and> env ''JWT_SECRET'' \<noteq> defaultJWTSecret) \<or>
     ParseBool (env ''ALLOW_INSECURE_SECRET'') = Some True"
  by (auto simp: Validate_def loadConfig_def getenv_def getenvBool_def ParseBool_def split: option.split)

end
