(* ===== verification/Wiring.thy ===== *)
theory Wiring
  imports Middleware Simulator Postgres Config "HOL-Library.Char_ord" "HOL-Library.List_Lexorder"
begin

text \<open>
  The program put together: \<open>gateway/cmd/gateway/main.go\<close>, which builds the parts from the
  configuration, and \<open>Server.Routes\<close> of \<open>gateway/internal/api/handlers.go\<close>, which puts every
  handler behind its middleware. The router of \<open>net/http\<close> is written out for patterns of
  literals and single wildcards; it is given the segments of a clean path.
\<close>

section \<open>Starting up\<close>

text \<open>\<open>gateway healthcheck\<close>: the address it asks and its exit code.\<close>

definition healthcheckURL :: "env \<Rightarrow> string" where
  "healthcheckURL env =
     (let port = env ''PORT''; port' = (if port = '''' then ''8080'' else port)
      in ''http://localhost:'' @ port' @ ''/healthz'')"

definition healthcheckExit :: "error + nat \<Rightarrow> nat" where
  "healthcheckExit resp = (case resp of Inl err \<Rightarrow> 1 | Inr status \<Rightarrow> if status \<noteq> 200 then 1 else 0)"

definition demoSymbols :: "string list" where
  "demoSymbols = [''AAPL'', ''TSLA'', ''MSFT'']"

datatype engineChoice = InProcess "string list" | RemoteEngine string

text \<open>The configuration of a Kafka reader and of a Kafka writer, as their constructors fix it.\<close>

datatype startOffset = FirstOffset | LastOffset

record kafkaReader =
  kr_Brokers :: "string list"
  kr_Topic :: string
  kr_GroupID :: string
  kr_StartOffset :: startOffset
  kr_MinBytes :: i64
  kr_MaxBytes :: i64
  kr_MaxWait :: int

record kafkaWriter =
  kw_Addr :: "string list"
  kw_Topic :: string
  kw_HashBalancer :: bool
  kw_Async :: bool
  kw_RequireAll :: bool

definition NewTradeConsumer :: "string list \<Rightarrow> string \<Rightarrow> string \<Rightarrow> kafkaReader" where
  "NewTradeConsumer brokers topic groupID =
     \<lparr>kr_Brokers = brokers, kr_Topic = topic, kr_GroupID = groupID, kr_StartOffset = LastOffset,
      kr_MinBytes = 1, kr_MaxBytes = push_bit 20 10, kr_MaxWait = 500 * Millisecond\<rparr>"

definition NewRiskConsumer :: "string list \<Rightarrow> string \<Rightarrow> string \<Rightarrow> kafkaReader" where
  "NewRiskConsumer brokers topic groupID =
     \<lparr>kr_Brokers = brokers, kr_Topic = topic, kr_GroupID = groupID, kr_StartOffset = LastOffset,
      kr_MinBytes = 1, kr_MaxBytes = push_bit 20 10, kr_MaxWait = 500 * Millisecond\<rparr>"

definition NewKafkaPublisher :: "string list \<Rightarrow> string \<Rightarrow> kafkaWriter" where
  "NewKafkaPublisher brokers topic =
     \<lparr>kw_Addr = brokers, kw_Topic = topic, kw_HashBalancer = True, kw_Async = True, kw_RequireAll = True\<rparr>"

text \<open>\<open>cache.New\<close>: the client is there whether or not the server answers the ping.\<close>

definition CacheNew :: "'r RedisClient \<Rightarrow> i64 \<Rightarrow> error option \<Rightarrow> 'r Cache \<times> bool" where
  "CacheNew rdb ttl pingErr = (\<lparr>ca_rdb = Some rdb, ca_ttl = ttl\<rparr>, pingErr = None)"

text \<open>What the outside answers while the program starts.\<close>

record bootOutcome =
  bo_redisPing :: "error option"
  bo_grpc :: "error option"
  bo_openDB :: "error option"
  bo_pingDB :: "error option"

definition NewTokenService :: "string \<Rightarrow> int \<Rightarrow> int \<Rightarrow> TokenService" where
  "NewTokenService secret accessTTL refreshTTL =
     \<lparr>ts_secret = secret, ts_accessTTL = accessTTL, ts_refreshTTL = refreshTTL\<rparr>"

record 'r wiring =
  wr_config :: "Config"
  wr_engine :: engineChoice
  wr_cache :: "'r Cache"
  wr_hub :: Hub
  wr_tape :: kafkaReader
  wr_orders :: kafkaWriter
  wr_gate :: Gate
  wr_signals :: kafkaReader
  wr_limiter :: "RateLimiter"
  wr_secret :: string
  wr_tokens :: "TokenService option"
  wr_sim :: "(string list \<times> int) option"

definition chooseEngine :: "Config \<Rightarrow> bootOutcome \<Rightarrow> error + engineChoice" where
  "chooseEngine cfg bo =
     (if cf_EngineMode cfg = ''mock'' \<or> cf_EngineMode cfg = ''local'' then Inr (InProcess demoSymbols)
      else (case bo_grpc bo of
              Some err \<Rightarrow> Inl (''engine: failed to create gRPC client for '' @ cf_EngineGRPCAddr cfg @ '': '' @ err)
            | None \<Rightarrow> Inr (RemoteEngine (cf_EngineGRPCAddr cfg))))"

definition wireAuth :: "Config \<Rightarrow> bootOutcome \<Rightarrow> error + TokenService option" where
  "wireAuth cfg bo =
     (if AuthEnabled cfg then
        (case bo_openDB bo of
           Some err \<Rightarrow> Inl (''auth: '' @ err)
         | None \<Rightarrow>
             (case bo_pingDB bo of
                Some err \<Rightarrow> Inl (''auth: cannot reach Postgres for user store: '' @ err)
              | None \<Rightarrow>
                  Inr (Some (NewTokenService (cf_JWTSecret cfg) (cf_AccessTokenTTL cfg) (cf_RefreshTokenTTL cfg)))))
      else Inr None)"

text \<open>\<open>main\<close> up to the point where it listens, or the message it dies with.\<close>

definition boot ::
  "Strconv \<Rightarrow> 'r RedisClient \<Rightarrow> env \<Rightarrow> bootOutcome \<Rightarrow> error + 'r wiring" where
  "boot sc rdb env bo =
     (let (cfg, warnings) = Load sc env
      in (case Validate cfg of
            Some err \<Rightarrow> Inl err
          | None \<Rightarrow>
              (case chooseEngine cfg bo of
                 Inl err \<Rightarrow> Inl err
               | Inr eng \<Rightarrow>
                   (case wireAuth cfg bo of
                      Inl err \<Rightarrow> Inl err
                    | Inr tokens \<Rightarrow>
                        Inr \<lparr>wr_config = cfg, wr_engine = eng,
                             wr_cache = fst (CacheNew rdb (word_of_int (cf_CacheTTL cfg)) (bo_redisPing bo)),
                             wr_hub = NewHub,
                             wr_tape = NewTradeConsumer [cf_KafkaBootstrap cfg] (cf_TradesTopic cfg) (cf_TapeConsumerGroup cfg),
                             wr_orders = NewKafkaPublisher [cf_KafkaBootstrap cfg] (cf_OrdersTopic cfg),
                             wr_gate = NewGate,
                             wr_signals = NewRiskConsumer [cf_KafkaBootstrap cfg] (cf_SignalsTopic cfg) (cf_SignalsConsumerGroup cfg),
                             wr_limiter = NewRateLimiter (cf_RateLimitPerSecond cfg) (cf_RateLimitBurst cfg),
                             wr_secret = cf_JWTSecret cfg, wr_tokens = tokens,
                             wr_sim = (case eng of
                                         InProcess syms \<Rightarrow>
                                           if cf_MarketSim cfg then Some (demoSymbols, cf_MarketSimInterval cfg) else None
                                       | RemoteEngine addr \<Rightarrow> None)\<rparr>))))"

section \<open>The application's state and the lifted handlers\<close>

record ('s, 'r, 'w, 'u, 'g) App =
  ap_world :: "('s, 'r, 'w) World"
  ap_auth :: "'u AuthWorld"
  ap_sim :: "'g marketSim option"

text \<open>
  The choices of one request: the clock, those of the handlers, the bytes of a demo account, the
  client object of a WebSocket and what the upgrade library answers when it fails.
\<close>

record reqChoices =
  rc_now :: int
  rc_later :: int
  rc_api :: choices
  rc_auth :: authChoices
  rc_demo :: "error + 8 word list"
  rc_client :: nat
  rc_upgradeErr :: "Response option"

definition on_world :: "('s, 'r, 'w) World handler \<Rightarrow> ('s, 'r, 'w, 'u, 'g) App handler" where
  "on_world hnd h rq a = (let (rsp, w) = hnd h rq (ap_world a) in (rsp, a\<lparr>ap_world := w\<rparr>))"

definition on_auth :: "'u AuthWorld handler \<Rightarrow> ('s, 'r, 'w, 'u, 'g) App handler" where
  "on_auth hnd h rq a = (let (rsp, w) = hnd h rq (ap_auth a) in (rsp, a\<lparr>ap_auth := w\<rparr>))"

definition on_sim :: "'g marketSim handler \<Rightarrow> 'g marketSim \<Rightarrow> ('s, 'r, 'w, 'u, 'g) App handler" where
  "on_sim hnd m h rq a = (let (rsp, m') = hnd h rq m in (rsp, a\<lparr>ap_sim := Some m'\<rparr>))"

definition handleWS :: "reqChoices \<Rightarrow> ('s, 'r, 'w) World handler" where
  "handleWS rc h rq w =
     (case rc_upgradeErr rc of
        Some rsp \<Rightarrow> (rsp, w)
      | None \<Rightarrow>
          (\<lparr>rsp_status = 101, rsp_headers = h, rsp_body = NoBody\<rparr>, w\<lparr>wd_hub := serveWS (rc_client rc) (wd_hub w)\<rparr>))"

definition unmetered :: "'w handler \<Rightarrow> (RateLimiter \<times> 'w) handler" where
  "unmetered hnd h rq st = (let (rsp, w) = hnd h rq (snd st) in (rsp, (fst st, w)))"

section \<open>The route table\<close>

datatype segment = Lit string | Wild string

type_synonym 'w route = "string \<times> segment list \<times> 'w handler"

text \<open>
  What the routes need: the server's dependencies, those of the auth handlers if they are wired,
  the libraries, the configuration, and the Prometheus handler of the metrics library.
\<close>

record ('s, 'r, 'w, 'u) Gateway =
  gw_server :: "('s, 'r, 'w) Server"
  gw_auth :: "'u AuthServer option"
  gw_jwt :: Jwt
  gw_unicode :: Unicode
  gw_config :: "Config"
  gw_metrics :: "headers \<Rightarrow> HttpRequest \<Rightarrow> Response"

definition Routes ::
  "('s, 'r, 'w, 'u) Gateway \<Rightarrow> reqChoices \<Rightarrow> 'g marketSim option \<Rightarrow>
   (RateLimiter \<times> ('s, 'r, 'w, 'u, 'g) App) route list" where
  "Routes g rc sim =
     (let s = gw_server g; ch = rc_api rc; cfg = gw_config g;
          metered = rateMiddleware (rc_now rc);
          guard = protect (gw_jwt g) (cf_JWTSecret cfg) (rc_now rc)
      in [(''GET'', [Lit ''healthz''], unmetered (on_world (handleHealth s))),
          (''GET'', [Lit ''metrics''], unmetered (\<lambda>h rq a. (gw_metrics g h rq, a)))] @
         (if cf_DemoAuthEnabled cfg then
            [(''POST'', [Lit ''auth'', Lit ''demo''],
              metered (handleDemoSession (gw_jwt g) (cf_JWTSecret cfg) (cf_DemoAccountID cfg) (cf_DemoSessionTTL cfg)
                (rc_now rc) (rc_later rc) (rc_demo rc)))]
          else []) @
         (case gw_auth g of
            None \<Rightarrow> []
          | Some au \<Rightarrow>
              [(''POST'', [Lit ''auth'', Lit ''signup''], metered (on_auth (handleSignup au (rc_auth rc)))),
               (''POST'', [Lit ''auth'', Lit ''login''], metered (on_auth (handleLogin au (rc_auth rc)))),
               (''POST'', [Lit ''auth'', Lit ''refresh''], metered (on_auth (handleRefresh au (rc_auth rc))))]) @
         [(''POST'', [Lit ''orders''], guard (on_world (handleSubmit s ch))),
          (''DELETE'', [Lit ''orders'', Wild ''id''], guard (on_world (handleCancel s ch))),
          (''GET'', [Lit ''book'', Wild ''symbol''], guard (on_world (handleBook s ch))),
          (''GET'', [Lit ''account''], guard (on_world (handleAccount s ch))),
          (''GET'', [Lit ''ws''], guard (on_world (handleWS rc)))] @
         (case sim of
            None \<Rightarrow> []
          | Some m \<Rightarrow>
              [(''GET'', [Lit ''sim'', Lit ''state''], guard (on_sim handleSimState m)),
               (''POST'', [Lit ''sim'', Lit ''pause''], guard (on_sim handleSimPause m)),
               (''POST'', [Lit ''sim'', Lit ''resume''], guard (on_sim handleSimResume m))]))"

section \<open>The router and the whole chain\<close>

fun matchSegs :: "segment list \<Rightarrow> string list \<Rightarrow> (string \<times> string) list option" where
  "matchSegs [] [] = Some []"
| "matchSegs (Lit a # ps) (x # xs) = (if a = x then matchSegs ps xs else None)"
| "matchSegs (Wild n # ps) (x # xs) = (if x = '''' then None else map_option (Cons (n, x)) (matchSegs ps xs))"
| "matchSegs _ _ = None"

definition methodMatches :: "string \<Rightarrow> string \<Rightarrow> bool" where
  "methodMatches p m \<longleftrightarrow> p = m \<or> (p = ''GET'' \<and> m = ''HEAD'')"

text \<open>Methods that would have matched the path, for the \<open>Allow\<close> header.\<close>

definition allowedMethods :: "'w route list \<Rightarrow> string list \<Rightarrow> string list" where
  "allowedMethods rs path =
     (let ms = map fst (filter (\<lambda>r. matchSegs (fst (snd r)) path \<noteq> None) rs)
      in sort (remdups (if ''GET'' \<in> set ms then ''HEAD'' # ms else ms)))"

fun joinComma :: "string list \<Rightarrow> string" where
  "joinComma [] = ''''"
| "joinComma [x] = x"
| "joinComma (x # xs) = x @ '', '' @ joinComma xs"

definition ServeMux :: "'w route list \<Rightarrow> string list \<Rightarrow> 'w handler" where
  "ServeMux rs path h rq w =
     (case find (\<lambda>r. methodMatches (fst r) (rq_method rq) \<and> matchSegs (fst (snd r)) path \<noteq> None) rs of
        Some r \<Rightarrow>
          snd (snd r) h (rq\<lparr>rq_path := (\<lambda>k. case map_of (the (matchSegs (fst (snd r)) path)) k of None \<Rightarrow> '''' | Some v \<Rightarrow> v)\<rparr>) w
      | None \<Rightarrow>
          if allowedMethods rs path = [] then (httpError h 404 ''404 page not found'', w)
          else (httpError (header_set h ''Allow'' (joinComma (allowedMethods rs path))) 405 ''Method Not Allowed'', w))"

definition gatewayHandler ::
  "('s, 'r, 'w, 'u) Gateway \<Rightarrow> reqChoices \<Rightarrow> string list \<Rightarrow>
   (RateLimiter \<times> ('s, 'r, 'w, 'u, 'g) App) handler" where
  "gatewayHandler g rc path =
     SecurityHeaders (CORS (gw_unicode g) (cf_CORSAllowedOrigin (gw_config g))
       (\<lambda>h rq st. ServeMux (Routes g rc (ap_sim (snd st))) path h rq st))"

end
