(* ===== verification/GatewayProps.thy ===== *)
theory GatewayProps
  imports ApiProps
begin

text \<open>
  Properties of the gateway as a whole: the handlers in front of the in-process engine, with the
  Redis cache, the Kafka order feed, the risk gate and the hub.
\<close>

section \<open>A sample gateway\<close>

definition kafkaOps :: "(PbOrderEvent \<Rightarrow> error + string) \<Rightarrow> kafkaMessage list PublisherOps" where
  "kafkaOps marshal = \<lparr>po_Submit = KafkaPublishSubmit marshal, po_Cancel = KafkaPublishCancel marshal\<rparr>"

type_synonym sampleServer = "(LocalEngine, string \<rightharpoonup> string, kafkaMessage list) Server"
type_synonym sampleWorld = "(LocalEngine, string \<rightharpoonup> string, kafkaMessage list) World"

definition sample_server :: sampleServer where
  "sample_server = \<lparr>srv_eng = localOps, srv_cache = Some \<lparr>ca_rdb = Some sample_redis, ca_ttl = 1\<rparr>,
     srv_orders = kafkaOps (\<lambda>ev. Inr (pev_OrderId ev)), srv_risk = AllowAllBlocked, srv_db = None,
     srv_codec = sample_codec,
     srv_decodeOrder = (\<lambda>b. if b = ''buy'' then Inr sample_buy else Inl ''unexpected end of JSON input''),
     srv_marshal = (\<lambda>m. Inr (case m of TradeMsg t \<Rightarrow> tr_TradeID t | BookMsg b \<Rightarrow> bs_Symbol b))\<rparr>"

definition sample_world :: sampleWorld where
  "sample_world = \<lparr>wd_engine = seeded, wd_redis = Map.empty, wd_feed = [], wd_hub = NewHub, wd_metrics = [],
     wd_tasks = []\<rparr>"

definition sample_choices :: choices where
  "sample_choices = \<lparr>ch_ctxErr = None, ch_now = 1, ch_published = 2, ch_syms = [''AAPL''],
     ch_book = (3, [9995, 9997, 9999, 9998, 9996], [10001, 10005, 10002, 10004, 10003])\<rparr>"

definition sample_request :: "string \<Rightarrow> string \<Rightarrow> HttpRequest" where
  "sample_request acct arg = \<lparr>rq_method = ''POST'', rq_header = (\<lambda>_. ''''), rq_query = (\<lambda>_. ''''),
     rq_path = (\<lambda>_. arg), rq_remote = '''', rq_body = ''buy'', rq_account = acct\<rparr>"

lemma sample_simps [simp]:
  "srv_eng sample_server = localOps" "srv_risk sample_server = AllowAllBlocked"
  "srv_cache sample_server = Some \<lparr>ca_rdb = Some sample_redis, ca_ttl = 1\<rparr>" "srv_codec sample_server = sample_codec"
  "srv_marshal sample_server m = Inr (case m of TradeMsg t \<Rightarrow> tr_TradeID t | BookMsg b \<Rightarrow> bs_Symbol b)"
  "srv_decodeOrder sample_server ''buy'' = Inr sample_buy" "wd_engine sample_world = seeded"
  "wd_tasks sample_world = []" "hb_broadcast (wd_hub sample_world) = []" "wd_redis sample_world = Map.empty"
  "ch_ctxErr sample_choices = None" "ch_now sample_choices = 1" "rq_body (sample_request a p) = ''buy''"
  by (simp_all add: sample_server_def sample_world_def sample_choices_def sample_request_def NewHub_def)

lemma sample_symbol: "no_Symbol sample_buy = ''AAPL''"
  by (simp add: sample_buy_def)

section \<open>The engine behind the gateway\<close>

text \<open>A history of the handlers. Whatever requests arrive, in whatever order, with whatever bodies,
  risk decisions, context errors and pending fan-outs, the engine behind the gateway only goes
  through engine calls: its books stay well formed and uncrossed and every account reconciles.\<close>

theorem gateway_keeps_the_engine_sound:
  assumes "srv_eng s = localOps" and "wd_engine w = NewLocalEngine seeds"
    and "10 * int (length seeds) + int (length steps) < 2 ^ 63" and "volume (engineCalls s steps w) < 2 ^ 63"
  shows "books_ok (wd_engine (served s steps w)) \<and>
    account_reconciles (le_accounts (wd_engine (served s steps w))) a"
proof -
  have room: "run_room seeds (engineCalls s steps w)"
    using assms(3,4) engineCalls_le [of s steps w] by (simp add: run_room_def)
  show ?thesis
    using run_books_ok [OF room] run_ledger_ok [OF room]
    by (simp add: served_engine [OF assms(1)] assms(2) ledger_ok_def)
qed

definition sample_steps :: "((string \<Rightarrow> bool \<times> string) \<times> gatewayStep) list" where
  "sample_steps = [(AllowAllBlocked, PostOrder sample_choices (sample_request ''alice'' ''''))]"

lemma sample_engineCalls: "engineCalls sample_server sample_steps sample_world = [Submit None sample_buy 1]"
proof -
  have "attributed (sample_request ''alice'' '''') sample_buy = sample_buy"
    by (simp add: attributed_def sample_request_def sample_buy_def)
  then show ?thesis
    by (simp add: sample_steps_def submitCall_def sample_server_def sample_choices_def AllowAllBlocked_def)
      (simp add: sample_request_def sample_buy_def)
qed

theorem gateway_keeps_the_engine_sound_witness:
  "books_ok (wd_engine (served sample_server sample_steps sample_world))"
proof -
  have "run_room [''AAPL''] ([Submit None sample_buy 1] @ [Submit None sample_sell 2])"
    using sample_room by (simp add: sample_calls_def)
  then have "volume [Submit None sample_buy 1] < 2 ^ 63"
    using run_room_prefix run_room_def by blast
  then show ?thesis
    using gateway_keeps_the_engine_sound [of sample_server sample_world "[''AAPL'']" sample_steps]
    by (simp add: sample_engineCalls) (simp add: sample_server_def sample_world_def sample_steps_def)
qed

section \<open>Accounts\<close>

text \<open>C19: safety. On the in-process engine, an order can only be taken off the book over HTTP by its
  owner: whatever id a request names, when its token names an account, every resting order of every
  other account is still there, unchanged, after the DELETE. (A token without a subject skips the
  owner check, and the Java engine has none, see C39.)\<close>

theorem only_the_owner_cancels:
  assumes "srv_eng s = localOps" and "books_ok (wd_engine w)"
    and "range_keys (le_books (wd_engine w)) (ch_syms ch)" and "rq_account rq \<noteq> ''''"
    and "ro \<in> set (orders_of (wd_engine w) sy)" and "ro_accountID ro \<noteq> rq_account rq"
  shows "ro \<in> set (orders_of (wd_engine (serve s (DeleteOrder ch rq) w)) sy)"
proof -
  have "ro \<in> set (orders_of (snd (CancelOrder (wd_engine w) (ch_ctxErr ch) (cancelRequest rq) (ch_syms ch))) sy)"
    using assms(4,6) by (intro CancelOrder_owner [OF assms(2,3) _ assms(5)]) (simp_all add: cancelRequest_def)
  then show ?thesis using assms(5) by (simp add: handleCancel_engine [OF assms(1)])
qed

lemma sample_range: "range_keys (le_books seeded) [''AAPL'']"
  by (simp add: range_keys_def seeded_eq)

theorem only_the_owner_cancels_witness:
  "hd seeded_orders \<in> set (orders_of (wd_engine (serve sample_server
     (DeleteOrder sample_choices (sample_request ''mallory'' ''ord-1'')) sample_world)) ''AAPL'')"
  by (rule only_the_owner_cancels)
    (simp_all add: sample_server_def sample_world_def seeded_ok sample_choices_def sample_range
      sample_request_def seeded_aapl seeded_orders_def)

text \<open>C20: safety. Orders are the token's: an authenticated POST, whatever account its body claims,
  can only add an order of the token's account to the books (all others were there before, under
  the same id and owner), and publishes at most one event, keyed by that account.\<close>

theorem orders_belong_to_the_token:
  assumes "srv_eng s = localOps" and "srv_orders s = kafkaOps marshal" and "books_ok (wd_engine w)"
    and "rq_account rq \<noteq> ''''"
  shows "(\<forall>sy. \<forall>ro\<in>set (orders_of (wd_engine (serve s (PostOrder ch rq) w)) sy).
      (\<exists>ro'\<in>set (orders_of (wd_engine w) sy). ro_id ro' = ro_id ro \<and> ro_accountID ro' = ro_accountID ro) \<or>
      ro_accountID ro = rq_account rq) \<and>
    (\<exists>ms. wd_feed (serve s (PostOrder ch rq) w) = wd_feed w @ ms \<and> length ms \<le> 1 \<and>
      (\<forall>k\<in>set ms. km_Key k = rq_account rq))"
proof (intro conjI allI ballI)
  fix sy ro
  assume ro: "ro \<in> set (orders_of (wd_engine (serve s (PostOrder ch rq) w)) sy)"
  have acct: "no_AccountID (attributed rq o0) = rq_account rq" for o0 using assms(4) by (simp add: attributed_def)
  show "(\<exists>ro'\<in>set (orders_of (wd_engine w) sy). ro_id ro' = ro_id ro \<and> ro_accountID ro' = ro_accountID ro) \<or>
      ro_accountID ro = rq_account rq"
  proof (cases "submitCall s ch rq = []")
    case True
    then have "ro \<in> set (orders_of (wd_engine w) sy)" using ro by (simp add: handleSubmit_engine [OF assms(1)])
    then show ?thesis by blast
  next
    case False
    then obtain o0 where "submitCall s ch rq = [Submit (ch_ctxErr ch) (attributed rq o0) (ch_now ch)]"
      using submitCall_cases [of s ch rq] by blast
    then have "ro \<in> set (orders_of (snd (SubmitOrder (wd_engine w) (ch_ctxErr ch) (attributed rq o0) (ch_now ch))) sy)"
      using ro by (simp add: handleSubmit_engine [OF assms(1)])
    from SubmitOrder_owner [OF assms(3) this] show ?thesis by (simp only: acct)
  qed
next
  show "\<exists>ms. wd_feed (serve s (PostOrder ch rq) w) = wd_feed w @ ms \<and> length ms \<le> 1 \<and>
      (\<forall>k\<in>set ms. km_Key k = rq_account rq)"
    using kafka_feed.handleSubmit_keys [of s marshal rq ch Map.empty w] assms(2,4) by (simp add: kafkaOps_def)
qed

theorem orders_belong_to_the_token_witness:
  "km_Key ` set (wd_feed (serve sample_server (PostOrder sample_choices (sample_request ''carol'' '''')) sample_world)) \<subseteq> {''carol''}"
  using orders_belong_to_the_token [of sample_server "\<lambda>ev. Inr (pev_OrderId ev)" sample_world
      "sample_request ''carol'' ''''" sample_choices]
  by (auto simp: sample_server_def sample_world_def seeded_ok sample_request_def simp del: serve.simps)

text \<open>Safety, across the risk consumer and the handler. After any reads of the risk-signals
  topic, an account whose latest signal is a REJECT gets 422 with that signal's reason for every
  well-formed order, the engine is not touched and nothing is queued for the dashboards; the
  attempt is still published, as REJECTED.\<close>

theorem blocked_accounts_cannot_trade:
  assumes "srv_risk s = GateBlocked (rs_gate (riskRun unmarshal numText True evs
        \<lparr>rs_gate = NewGate, rs_broadcast = [], rs_counted = []\<rparr>))"
    and "last_signal (rq_account rq) (decoded unmarshal evs) = Some sig" and "prs_Action sig = SignalAction_REJECT"
    and "rq_account rq \<noteq> ''''" and "srv_decodeOrder s (rq_body rq) = Inr o0" and "no_Symbol o0 \<noteq> ''''"
  defines "ack \<equiv> ack_zero\<lparr>ack_Status := StatusRejected, ack_Reason := ''risk: '' @ prs_Reason sig\<rparr>"
  shows "fst (handleSubmit s ch h rq w) = writeJSON h 422 (AckBody ack) \<and>
    wd_engine (snd (handleSubmit s ch h rq w)) = wd_engine w \<and> wd_tasks (snd (handleSubmit s ch h rq w)) = wd_tasks w \<and>
    wd_feed (snd (handleSubmit s ch h rq w)) =
      po_Submit (srv_orders s) (wd_feed w) (o0\<lparr>no_AccountID := rq_account rq\<rparr>) ack (ch_published ch)"
proof -
  have o': "attributed rq o0 = o0\<lparr>no_AccountID := rq_account rq\<rparr>" using assms(4) by (simp add: attributed_def)
  have "srv_risk s (rq_account rq) = (True, prs_Reason sig)"
    using assms(2,3) by (simp add: assms(1) risk_loop.loop_fold riskHandle_fold gate_fold [OF assms(4)] verdict_def)
  then have "srv_risk s (no_AccountID (attributed rq o0)) = (True, prs_Reason sig)" by (simp add: o')
  from handleSubmit_blocked [OF assms(5,6) this] show ?thesis by (simp only: ack_def o')
qed

definition gated_server :: sampleServer where
  "gated_server = sample_server\<lparr>srv_risk := GateBlocked (rs_gate (riskRun sample_unmarshal (\<lambda>_. '''') True [Message ''reject'']
     \<lparr>rs_gate = NewGate, rs_broadcast = [], rs_counted = []\<rparr>))\<rparr>"

theorem blocked_accounts_cannot_trade_witness:
  "rsp_status (fst (handleSubmit gated_server sample_choices Map.empty (sample_request ''alice'' '''') sample_world)) = 422"
proof -
  have sig: "last_signal ''alice'' (decoded sample_unmarshal [Message ''reject'']) =
      Some (projr (sample_unmarshal ''reject''))"
    by (simp add: sample_unmarshal_def last_signal_def)
  have act: "prs_Action (projr (sample_unmarshal ''reject'')) = SignalAction_REJECT" by (simp add: sample_unmarshal_def)
  have dec: "srv_decodeOrder gated_server (rq_body (sample_request ''alice'' '''')) = Inr sample_buy"
    by (simp add: gated_server_def sample_server_def sample_request_def)
  show ?thesis
    using blocked_accounts_cannot_trade [of gated_server sample_unmarshal "\<lambda>_. ''''" "[Message ''reject'']"
        "sample_request ''alice'' ''''", OF _ _ act _ dec, of sample_choices Map.empty sample_world] sig
    by (simp add: gated_server_def sample_request_def sample_buy_def del: riskRun.simps)
qed

section \<open>Answers\<close>

text \<open>C21: error behaviour. With the in-process engine and a context that is still live, POST /orders
  never fails with 502: it answers 400 for a request it cannot read, 422 for a refused order, and
  201 exactly when the acknowledgement is not a rejection; then the acknowledgement is about this
  order, its trades add up to the filled quantity, and no more was filled than asked.\<close>

theorem local_submit_is_always_answered:
  assumes "srv_eng s = localOps" and "local_ok 1 (wd_engine w)" and "ch_ctxErr ch = None"
  shows "rsp_status (fst (handleSubmit s ch h rq w)) \<in> {201, 400, 422} \<and>
    (rsp_status (fst (handleSubmit s ch h rq w)) = 201 \<longrightarrow>
      (\<exists>o0 ack. srv_decodeOrder s (rq_body rq) = Inr o0 \<and> rsp_body (fst (handleSubmit s ch h rq w)) = AckBody ack \<and>
        good_ack (attributed rq o0) ack \<and> ack_Status ack \<noteq> StatusRejected))"
proof -
  have ok: "local_ok (Suc 0) (wd_engine w)" using assms(2) by simp
  have eng: "eo_Submit (srv_eng s) = (\<lambda>e ctxErr o' now. SubmitOrder e ctxErr o' now)" by (simp add: assms(1))
  show ?thesis
    using local_client.handleSubmit_live(1,2) [OF eng ok assms(3), of h rq] by blast
qed

theorem local_submit_is_always_answered_witness:
  "rsp_status (fst (handleSubmit sample_server sample_choices Map.empty (sample_request ''alice'' '''') sample_world))
     \<in> {201, 400, 422}"
proof -
  have "counter_room 1 seeded" by (simp add: counter_room_def seeded_eq)
  then show ?thesis
    using local_submit_is_always_answered [of sample_server sample_world sample_choices] seeded_ok
    by (simp add: sample_server_def sample_world_def sample_choices_def local_ok_def)
qed

section \<open>What the dashboards see\<close>

lemma Broadcast_room:
  "marshal v = Inr msg \<Longrightarrow> length (hb_broadcast h) < broadcastBuffer \<Longrightarrow>
   hb_broadcast (Broadcast marshal v h) = hb_broadcast h @ [msg]"
  by (simp add: Broadcast_def)

lemma broadcastTrades_hub:
  assumes "\<And>m. srv_marshal s m = Inr (enc m)"
    and "length (hb_broadcast (wd_hub w)) + length ts \<le> broadcastBuffer"
  shows "hb_broadcast (wd_hub (broadcastTrades s ts w)) = hb_broadcast (wd_hub w) @ map (enc \<circ> TradeMsg) ts"
  using assms
proof (induction s ts w rule: broadcastTrades.induct)
  case (2 s t ts w)
  have "hb_broadcast (Broadcast (srv_marshal s) (TradeMsg t) (wd_hub w)) = hb_broadcast (wd_hub w) @ [enc (TradeMsg t)]"
    using 2(2,3) by (intro Broadcast_room) simp_all
  then show ?case using 2 by simp
qed simp

lemma GetBook_answers: "\<exists>b e'. GetBook e None r now bk ak = (Inr b, e')"
  by (simp add: GetBook_def case_prod_beta Let_def)

lemma broadcastBook_hub:
  assumes "\<And>m. srv_marshal s m = Inr (enc m)" and "length (hb_broadcast (wd_hub w)) < broadcastBuffer"
    and "srv_eng s = localOps" and "ch_ctxErr ch = None"
  shows "\<exists>b. hb_broadcast (wd_hub (broadcastBook s ch symbol w)) = hb_broadcast (wd_hub w) @ [enc (BookMsg b)]"
proof (cases "CacheGetBook (srv_codec s) (srv_cache s) (wd_redis w) symbol broadcastDepth")
  case None
  obtain now bk ak where ch: "ch_book ch = (now, bk, ak)" by (metis prod_cases3)
  obtain b e where "GetBook (wd_engine w) None \<lparr>br_Symbol = symbol, br_Depth = broadcastDepth\<rparr> now bk ak = (Inr b, e)"
    using GetBook_answers by blast
  then show ?thesis using None assms ch by (auto simp: broadcastBook_def Broadcast_room)
next
  case (Some b)
  then show ?thesis using assms by (auto simp: broadcastBook_def Broadcast_room)
qed

text \<open>C22: functional, across the handler, the fan-out goroutine and the hub. When an order is
  acknowledged and its fan-out runs, the hub is handed exactly the executions of the
  acknowledgement, each once and in order, followed by one snapshot of a book, provided its
  channel has room for them.\<close>

theorem executions_reach_the_hub:
  assumes "srv_eng s = localOps" and "\<And>m. srv_marshal s m = Inr (enc m)"
    and "srv_decodeOrder s (rq_body rq) = Inr o0" and "no_Symbol o0 \<noteq> ''''"
    and "\<not> fst (srv_risk s (no_AccountID (attributed rq o0)))"
    and "fst (SubmitOrder (wd_engine w) (ch_ctxErr ch) (attributed rq o0) (ch_now ch)) = Inr ack"
    and "length (hb_broadcast (wd_hub w)) + length (ack_Trades ack) < broadcastBuffer" and "ch_ctxErr ch' = None"
  shows "\<exists>b. hb_broadcast (wd_hub (serve s (RunFanOut ch' (length (wd_tasks w))) (serve s (PostOrder ch rq) w))) =
    hb_broadcast (wd_hub w) @ map (enc \<circ> TradeMsg) (ack_Trades ack) @ [enc (BookMsg b)]"
proof -
  let ?w = "serve s (PostOrder ch rq) w"
  obtain e where "eo_Submit (srv_eng s) (wd_engine w) (ch_ctxErr ch) (attributed rq o0) (ch_now ch) = (Inr ack, e)"
    using assms(1,6) by (simp add: prod_eq_iff)
  note r = handleSubmit_accepted [OF assms(3-5) this]
  have hub: "wd_hub ?w = wd_hub w"
    by (auto simp: handleSubmit_def Let_def split: sum.split prod.split)
  have task: "wd_tasks ?w = wd_tasks w @ [(ack_Trades ack, no_Symbol o0)]" using r(3) by simp
  let ?w1 = "broadcastTrades s (ack_Trades ack) (?w\<lparr>wd_tasks := wd_tasks w\<rparr>)"
  have one: "hb_broadcast (wd_hub ?w1) = hb_broadcast (wd_hub w) @ map (enc \<circ> TradeMsg) (ack_Trades ack)"
    using assms(7) hub by (subst broadcastTrades_hub [OF assms(2)]) simp_all
  then have "length (hb_broadcast (wd_hub ?w1)) < broadcastBuffer" using assms(7) by simp
  from broadcastBook_hub [OF assms(2) this assms(1,8)] show ?thesis
    using one task by (simp add: runTask_def broadcastFills_def del: serve.simps(1))
qed

lemma sample_submit: "\<exists>ack. fst (SubmitOrder seeded None sample_buy 1) = Inr ack \<and> length (ack_Trades ack) < 256"
proof -
  obtain ack where ack: "fst (SubmitOrder seeded None sample_buy 1) = Inr ack"
    using local_good_ack [OF seeded_ok] by blast
  have "length (ack_Trades ack) < 256"
    using ack by (auto simp: seeded_eq seeded_orders_def sample_buy_def engine_eval)
  then show ?thesis using ack by blast
qed

theorem executions_reach_the_hub_witness:
  "\<exists>ack (b :: BookSnapshot). fst (SubmitOrder seeded None sample_buy 1) = Inr ack \<and>
    hb_broadcast (wd_hub (serve sample_server (RunFanOut sample_choices 0)
      (serve sample_server (PostOrder sample_choices (sample_request ''alice'' '''')) sample_world))) =
    map tr_TradeID (ack_Trades ack) @ [bs_Symbol b]"
proof -
  obtain ack where ack: "fst (SubmitOrder seeded None sample_buy 1) = Inr ack" "length (ack_Trades ack) < 256"
    using sample_submit by blast
  have o': "attributed (sample_request ''alice'' '''') sample_buy = sample_buy"
    by (simp add: attributed_def sample_request_def sample_buy_def)
  show ?thesis
    using executions_reach_the_hub [of sample_server "\<lambda>m. case m of TradeMsg t \<Rightarrow> tr_TradeID t | BookMsg b \<Rightarrow> bs_Symbol b"
        "sample_request ''alice'' ''''" sample_buy sample_world sample_choices ack sample_choices] ack
    by (simp add: o' comp_def broadcastBuffer_def AllowAllBlocked_def sample_symbol del: serve.simps)
qed

text \<open>Functional, across the handler, the cache and the engine. GET /book/{symbol} answers 200
  with a snapshot of the symbol asked for: either one stored earlier for exactly this symbol and
  depth, or the engine's book as it is now, at this depth, which is then stored; the cache goes on
  holding only what was stored.\<close>

theorem book_endpoint_is_truthful:
  fixes rq
  defines "symbol \<equiv> rq_path rq ''symbol''" and "depth \<equiv> depthParam (rq_query rq ''depth'')"
  assumes "srv_eng s = localOps" and "srv_cache s = Some \<lparr>ca_rdb = Some R, ca_ttl = ttl\<rparr>"
    and "cache_reach (srv_codec s) R ttl (wd_redis w) stored" and "redis_laws R"
    and "\<forall>(d, b)\<in>set stored. faithful (srv_codec s) b" and "ch_ctxErr ch = None" and "symbol \<noteq> ''''"
    and "ch_book ch = (now, bidKeys, askKeys)" and "view_keys (orders_of (wd_engine w) symbol) bidKeys askKeys"
  shows "\<exists>snap stored'. rsp_status (fst (handleBook s ch h rq w)) = 200 \<and>
    rsp_body (fst (handleBook s ch h rq w)) = BookBody snap \<and> bs_Symbol snap = symbol \<and>
    cache_reach (srv_codec s) R ttl (wd_redis (snd (handleBook s ch h rq w))) stored' \<and>
    ((depth, snap) \<in> set stored \<and> stored' = stored \<or>
     bs_Bids snap = take (book_depth \<lparr>br_Symbol = symbol, br_Depth = depth\<rparr>) (levels True on_bid (orders_of (wd_engine w) symbol)) \<and>
     bs_Asks snap = take (book_depth \<lparr>br_Symbol = symbol, br_Depth = depth\<rparr>) (levels False on_ask (orders_of (wd_engine w) symbol)) \<and>
     stored' = stored @ [(depth, snap)])"
proof (cases "CacheGetBook (srv_codec s) (srv_cache s) (wd_redis w) symbol depth")
  case (Some snap)
  have "(depth, snap) \<in> set stored \<and> bs_Symbol snap = symbol"
    by (rule cache_hit_stored [OF assms(5-7)]) (use Some assms(4) in simp)
  then show ?thesis using Some assms(5,9)
    by (intro exI [of _ snap] exI [of _ stored]) (simp add: handleBook_def symbol_def depth_def Let_def)
next
  case None
  let ?r = "\<lparr>br_Symbol = symbol, br_Depth = depth\<rparr>"
  obtain snap e where g: "GetBook (wd_engine w) None ?r now bidKeys askKeys = (Inr snap, e)"
    "snap = \<lparr>bs_Symbol = symbol, bs_Bids = take (book_depth ?r) (levels True on_bid (orders_of (wd_engine w) symbol)),
       bs_Asks = take (book_depth ?r) (levels False on_ask (orders_of (wd_engine w) symbol)), bs_TsMillis = now\<rparr>"
    using GetBook_spec [of "wd_engine w" ?r bidKeys askKeys now] assms(11) by (simp add: prod_eq_iff)
  have "handleBook s ch h rq w = (writeJSON (header_set h ''X-Cache'' ''MISS'') 200 (BookBody snap),
      w\<lparr>wd_engine := e, wd_redis := CacheSetBook (srv_codec s) (srv_cache s) (wd_redis w) depth snap\<rparr>)"
    using None g(1) assms(3,8,9,10) by (simp add: handleBook_def symbol_def depth_def Let_def)
  then show ?thesis using put [OF assms(5), of depth snap] g(2) assms(4)
    by (intro exI [of _ snap] exI [of _ "stored @ [(depth, snap)]"]) simp
qed

theorem book_endpoint_is_truthful_witness:
  "rsp_status (fst (handleBook sample_server sample_choices Map.empty (sample_request '''' ''AAPL'') sample_world)) = 200"
proof -
  have cold': "cache_reach (srv_codec sample_server) sample_redis 1 (wd_redis sample_world) []"
    by (rule cold) (simp add: sample_redis_def sample_world_def)
  have laws: "redis_laws sample_redis" by (auto simp: redis_laws_def sample_redis_def)
  show ?thesis
    using book_endpoint_is_truthful [of sample_server sample_redis 1 sample_world "[]" sample_choices "sample_request '''' ''AAPL''"
        3 "[9995, 9997, 9999, 9998, 9996]" "[10001, 10005, 10002, 10004, 10003]" Map.empty, OF _ _ cold' laws] seeded_view_keys
    by (simp add: sample_server_def sample_choices_def sample_request_def sample_world_def)
qed

end
