(* ===== verification/AuthProps.thy ===== *)
theory AuthProps
  imports Postgres
begin

text \<open>
  What authentication promises: tokens open the doors they are made for and no others, and whoever
  has signed up can log in, under every spelling of the address.
\<close>

section \<open>Normalizing is idempotent\<close>

definition trim :: "string \<Rightarrow> string" where
  "trim s = rev (dropWhile is_space (rev (dropWhile is_space s)))"

lemma dropWhile_twice [simp]: "dropWhile P (dropWhile P xs) = dropWhile P xs"
  by (induction xs) auto

lemma dropWhile_butlast_part:
  assumes "\<not> P (hd xs) \<or> xs = []"
  shows "dropWhile P (rev (dropWhile P (rev xs))) = rev (dropWhile P (rev xs))"
proof (cases "rev (dropWhile P (rev xs))")
  case (Cons y ys)
  have "rev xs = takeWhile P (rev xs) @ dropWhile P (rev xs)" by simp
  then have "xs = rev (dropWhile P (rev xs)) @ rev (takeWhile P (rev xs))" by (metis rev_append rev_rev_ident)
  then have "hd xs = y" "xs \<noteq> []" using Cons by (metis append_Cons list.sel(1), auto)
  then show ?thesis using Cons assms by simp
qed (simp only: dropWhile.simps)

lemma trim_trim [simp]: "trim (trim s) = trim s"
proof -
  let ?t = "dropWhile is_space s"
  have "\<not> is_space (hd ?t) \<or> ?t = []" using hd_dropWhile by blast
  then have "dropWhile is_space (trim s) = trim s" unfolding trim_def by (rule dropWhile_butlast_part)
  then show ?thesis by (simp add: trim_def [of "trim s"]) (simp add: trim_def)
qed

lemma lower_char_cases:
  "lower_char (lower_char c) = lower_char c" "is_space (lower_char c) = is_space c"
  "(of_char c :: nat) < 128 \<Longrightarrow> (of_char (lower_char c) :: nat) < 128"
  by (auto simp: lower_char_def is_space_def Let_def)

lemma trim_map: "(\<And>c. is_space (f c) = is_space c) \<Longrightarrow> trim (map f s) = map f (trim s)"
  by (simp add: trim_def dropWhile_map rev_map comp_def)

lemma set_trim: "set (trim s) \<subseteq> set s"
  by (auto simp: trim_def dest!: set_dropWhileD)

lemma NormalizeEmail_ascii: "ascii s \<Longrightarrow> NormalizeEmail uni s = map lower_char (trim s)"
proof -
  assume a: "ascii s"
  then have "ascii (trim s)" using set_trim [of s] by (auto simp: ascii_def list_all_iff)
  then show ?thesis using a by (simp add: NormalizeEmail_def TrimSpace_def ToLower_def trim_def)
qed

lemma NormalizeEmail_idem: "ascii s \<Longrightarrow> NormalizeEmail uni (NormalizeEmail uni s) = NormalizeEmail uni s"
proof -
  assume a: "ascii s"
  then have "ascii (map lower_char (trim s))"
    using set_trim [of s] by (auto simp: ascii_def list_all_iff lower_char_cases(3))
  then show ?thesis
    by (simp add: NormalizeEmail_ascii a trim_map lower_char_cases comp_def)
qed

section \<open>Laws of the libraries\<close>

text \<open>
  JWT: a signed token parses, until it expires, to the claims it was signed with, if the key
  callback gives the signing key for its method; and to nothing else. Dates are truncated to the
  second. bcrypt: a hash matches the text it was made from.
\<close>

definition second :: int where "second = 1000000000"

definition jwt_laws :: "Jwt \<Rightarrow> bool" where
  "jwt_laws jw \<longleftrightarrow>
     (\<forall>m c k raw key now. jw_Sign jw m c k = Inr raw \<longrightarrow> raw \<noteq> '''' \<and>
        (key m = Inr k \<longrightarrow> now < cm_ExpiresAt c * second \<longrightarrow> jw_Parse jw key now raw = Inr c) \<and>
        (\<forall>c'. jw_Parse jw key now raw = Inr c' \<longrightarrow> c' = c \<and> key m = Inr k \<and> now < cm_ExpiresAt c * second))"

definition bcrypt_laws :: "Bcrypt \<Rightarrow> bool" where
  "bcrypt_laws bc \<longleftrightarrow> (\<forall>salt p n h. bc_Generate bc salt p n = Inr h \<longrightarrow> bc_Compare bc h p = None)"

lemma parse_signed:
  assumes "jwt_laws jw" and "jw_Sign jw m c k = Inr raw" and "key m = Inr k"
  shows "now < cm_ExpiresAt c * second \<Longrightarrow> jw_Parse jw key now raw = Inr c"
    and "\<not> now < cm_ExpiresAt c * second \<Longrightarrow> \<exists>err. jw_Parse jw key now raw = Inl err"
proof -
  show "now < cm_ExpiresAt c * second \<Longrightarrow> jw_Parse jw key now raw = Inr c"
    using assms unfolding jwt_laws_def by blast
  show "\<not> now < cm_ExpiresAt c * second \<Longrightarrow> \<exists>err. jw_Parse jw key now raw = Inl err"
  proof (cases "jw_Parse jw key now raw")
    case (Inr c')
    assume "\<not> now < cm_ExpiresAt c * second"
    moreover have "now < cm_ExpiresAt c * second" using Inr assms(1,2) unfolding jwt_laws_def by blast
    ultimately show ?thesis by blast
  qed blast
qed

lemma bearer_header: "rq_header rq ''Authorization'' = ''Bearer '' @ raw \<Longrightarrow> raw \<noteq> [] \<Longrightarrow> bearerToken rq = raw"
  by (simp add: bearerToken_def EqualFold_def Let_def)

section \<open>Properties\<close>

text \<open>C23: safety. Tokens open only their doors. An access token passes the JWT middleware exactly until
  it expires and makes the request act for its account, and never buys new tokens; a refresh token
  never passes the middleware, and is good for \<open>/auth/refresh\<close> exactly until it expires.\<close>

theorem tokens_open_only_their_doors:
  assumes "jwt_laws jw" and "Access jw t issued a = Inr acc" and "Refresh jw t issued a = Inr ref"
    and "rq_header rqA ''Authorization'' = ''Bearer '' @ acc" and "rq_header rqR ''Authorization'' = ''Bearer '' @ ref"
  defines "expiry ttl \<equiv> jw_Date jw (issued + ttl) * second"
  shows "jwtMiddleware jw (ts_secret t) now nxt h rqA w =
      (if now < expiry (ts_accessTTL t) then nxt h (rqA\<lparr>rq_account := a\<rparr>) w else (unauthorized h ''invalid token'', w)) \<and>
    (snd (jwtMiddleware jw (ts_secret t) now nxt h rqR w) = w \<and>
      rsp_status (fst (jwtMiddleware jw (ts_secret t) now nxt h rqR w)) = 401) \<and>
    (\<exists>err. VerifyRefresh jw t now acc = Inl err) \<and>
    (now < expiry (ts_refreshTTL t) \<longleftrightarrow> VerifyRefresh jw t now ref = Inr a)"
proof (intro conjI)
  have key: "hmacKey (ts_secret t) (HMAC ''HS256'') = Inr (ts_secret t)" by (simp add: hmacKey_def)
  note A = assms(2) [unfolded Access_def mint_def] and R = assms(3) [unfolded Refresh_def mint_def]
  note pA = parse_signed [where key = "hmacKey (ts_secret t)", OF assms(1) A key, simplified]
    and pR = parse_signed [where key = "hmacKey (ts_secret t)", OF assms(1) R key, simplified]
  have "acc \<noteq> ''''" "ref \<noteq> ''''" using assms(1) A R unfolding jwt_laws_def by blast+
  then have bt: "bearerToken rqA = acc" "bearerToken rqR = ref" "acc \<noteq> ''''" "ref \<noteq> ''''"
    using assms(4,5) bearer_header by auto
  show "jwtMiddleware jw (ts_secret t) now nxt h rqA w =
      (if now < expiry (ts_accessTTL t) then nxt h (rqA\<lparr>rq_account := a\<rparr>) w else (unauthorized h ''invalid token'', w))"
    using pA [of now] bt by (auto simp: jwtMiddleware_def expiry_def)
  have "snd (jwtMiddleware jw (ts_secret t) now nxt h rqR w) = w \<and>
      rsp_status (fst (jwtMiddleware jw (ts_secret t) now nxt h rqR w)) = 401"
    using pR [of now] bt
    by (cases "now < jw_Date jw (issued + ts_refreshTTL t) * second")
      (auto simp: jwtMiddleware_def KindRefresh_def unauthorized_def httpError_def)
  then show "snd (jwtMiddleware jw (ts_secret t) now nxt h rqR w) = w"
    "rsp_status (fst (jwtMiddleware jw (ts_secret t) now nxt h rqR w)) = 401" by blast+
  show "\<exists>err. VerifyRefresh jw t now acc = Inl err"
    using pA [of now] by (cases "now < jw_Date jw (issued + ts_accessTTL t) * second")
      (auto simp: VerifyRefresh_def parseToken_def KindRefresh_def)
  show "now < expiry (ts_refreshTTL t) \<longleftrightarrow> VerifyRefresh jw t now ref = Inr a"
    using pR [of now] by (cases "now < jw_Date jw (issued + ts_refreshTTL t) * second")
      (auto simp: VerifyRefresh_def parseToken_def KindRefresh_def expiry_def)
qed

text \<open>Signing up and logging in, over any store that keeps the contract.\<close>

context user_store
begin

lemma signup_login_store:
  assumes store: "st_Create (au_users s) = create" "st_ByEmail (au_users s) = by_email"
    "NormalizeEmail (au_unicode s) = normal"
    and bc: "bcrypt_laws (au_bcrypt s)"
    and c: "au_decodeCreds s (rq_body rq) = Inr c" "au_decodeCreds s (rq_body rq') = Inr c'"
    and idem: "normal (normal (cr_Email c)) = normal (cr_Email c)" and e: "normal (cr_Email c') = normal (cr_Email c)"
    and pw: "cr_Password c' = cr_Password c" and ok: "rsp_status (fst (handleSignup s ch h rq w)) = 200"
  shows "handleLogin s ch' h' rq' (snd (handleSignup s ch h rq w)) =
      (issueTokens s ch' h' (newAccountID (ac_random ch)), snd (handleSignup s ch h rq w))"
    and "HashPassword (au_bcrypt s) (ac_salt ch') (cr_Password c') = Inr hash' \<Longrightarrow>
      rsp_status (fst (handleSignup s ch' h' rq' (snd (handleSignup s ch h rq w)))) = 409 \<and>
      aw_users (snd (handleSignup s ch' h' rq' (snd (handleSignup s ch h rq w)))) = aw_users (snd (handleSignup s ch h rq w))"
proof -
  have "normal (cr_Email c') = normal (normal (cr_Email c))" using e idem by simp
  then obtain hash where hash: "HashPassword (au_bcrypt s) (ac_salt ch) (cr_Password c) = Inr hash"
    "handleLogin s ch' h' rq' (snd (handleSignup s ch h rq w)) =
      ((if CheckPassword (au_bcrypt s) hash (cr_Password c') then issueTokens s ch' h' (newAccountID (ac_random ch))
        else writeErr h' 401 ''invalid email or password''), snd (handleSignup s ch h rq w))"
    using login_after_signup [OF store(1,3,2) c(1) ok c(2)] by blast
  have "CheckPassword (au_bcrypt s) hash (cr_Password c')"
    using hash(1) bc unfolding bcrypt_laws_def HashPassword_def CheckPassword_def pw by blast
  then show "handleLogin s ch' h' rq' (snd (handleSignup s ch h rq w)) =
      (issueTokens s ch' h' (newAccountID (ac_random ch)), snd (handleSignup s ch h rq w))"
    using hash(2) by simp
  have "minPasswordLen \<le> length (cr_Password c')"
    using handleSignup_created [OF store(1,3) c(1) ok] pw by auto
  then show "HashPassword (au_bcrypt s) (ac_salt ch') (cr_Password c') = Inr hash' \<Longrightarrow>
      rsp_status (fst (handleSignup s ch' h' rq' (snd (handleSignup s ch h rq w)))) = 409 \<and>
      aw_users (snd (handleSignup s ch' h' rq' (snd (handleSignup s ch h rq w)))) = aw_users (snd (handleSignup s ch h rq w))"
    using second_signup_conflicts [OF store(1,3) c(1) ok c(2) e] by blast
qed

end

text \<open>So over the users table, whatever database keeps it.\<close>

context users_table
begin

lemmas postgres_signup_login = signup_login_store

end

text \<open>Signing with a byte key does not fail: the token library serializes the claims and takes an HMAC.\<close>

definition signs :: "Jwt \<Rightarrow> bool" where
  "signs jw \<longleftrightarrow> (\<forall>c k. \<exists>raw. jw_Sign jw (HMAC ''HS256'') c k = Inr raw)"

lemma issueTokens_signed:
  assumes "signs (au_jwt s)"
  shows "\<exists>acc ref. Access (au_jwt s) (au_tokens s) (ac_now ch) a = Inr acc \<and>
    Refresh (au_jwt s) (au_tokens s) (ac_now' ch) a = Inr ref \<and>
    issueTokens s ch h a = writeJSON h 200 (TokensBody acc ref a (AccessTTLSeconds (au_tokens s)))"
proof -
  obtain acc ref where "Access (au_jwt s) (au_tokens s) (ac_now ch) a = Inr acc"
    "Refresh (au_jwt s) (au_tokens s) (ac_now' ch) a = Inr ref"
    using assms unfolding signs_def Access_def Refresh_def mint_def by blast
  then show ?thesis by (simp add: issueTokens_def)
qed

text \<open>C24: round trip. Whoever signed up can log in, in the full stack with its Postgres store: after a
  signup that was answered 200, a login under any spelling that normalizes to the same address, with
  the same password, is answered 200 with an access and a refresh token minted for the new account,
  and changes nothing; signing up again under such a spelling is answered 409 and changes no user.
  The address has to be one on which normalizing twice is normalizing once, as every ASCII address is
  (\<open>NormalizeEmail_idem\<close>): the store normalizes what the handler has normalized already, the login
  normalizes once. The token library signs (\<open>signs\<close>), the hash comparison accepts what was hashed, and
  the users table keeps its contract.\<close>

theorem signup_then_login:
  assumes "au_users s = postgresStore (au_unicode s) p" and "users_db_laws p" and "bcrypt_laws (au_bcrypt s)"
    and "signs (au_jwt s)"
    and "au_decodeCreds s (rq_body rq) = Inr c" and "au_decodeCreds s (rq_body rq') = Inr c'"
    and "NormalizeEmail (au_unicode s) (NormalizeEmail (au_unicode s) (cr_Email c)) = NormalizeEmail (au_unicode s) (cr_Email c)"
    and "NormalizeEmail (au_unicode s) (cr_Email c') = NormalizeEmail (au_unicode s) (cr_Email c)"
    and "cr_Password c' = cr_Password c" and "rsp_status (fst (handleSignup s ch h rq w)) = 200"
  shows "(\<exists>acc ref. Access (au_jwt s) (au_tokens s) (ac_now ch') (newAccountID (ac_random ch)) = Inr acc \<and>
      Refresh (au_jwt s) (au_tokens s) (ac_now' ch') (newAccountID (ac_random ch)) = Inr ref \<and>
      handleLogin s ch' h' rq' (snd (handleSignup s ch h rq w)) =
        (writeJSON h' 200 (TokensBody acc ref (newAccountID (ac_random ch)) (AccessTTLSeconds (au_tokens s))),
         snd (handleSignup s ch h rq w))) \<and>
    (\<forall>hash'. HashPassword (au_bcrypt s) (ac_salt ch') (cr_Password c') = Inr hash' \<longrightarrow>
      rsp_status (fst (handleSignup s ch' h' rq' (snd (handleSignup s ch h rq w)))) = 409 \<and>
      aw_users (snd (handleSignup s ch' h' rq' (snd (handleSignup s ch h rq w)))) = aw_users (snd (handleSignup s ch h rq w)))"
proof -
  have table: "users_table p" using assms(2) by unfold_locales
  have store: "st_Create (au_users s) = PostgresCreate (au_unicode s) p" "st_ByEmail (au_users s) = PostgresByEmail (au_unicode s) p"
    by (simp_all add: assms(1) postgresStore_def)
  note both = users_table.postgres_signup_login [OF table store refl assms(3,5,6,7-10)]
  show ?thesis using both issueTokens_signed [OF assms(4)] by metis
qed

text \<open>The same with the in-memory store.\<close>

lemma signup_then_login_in_memory:
  assumes "au_users s = memoryStore (au_unicode s)" and "bcrypt_laws (au_bcrypt s)"
    and "au_decodeCreds s (rq_body rq) = Inr c" and "au_decodeCreds s (rq_body rq') = Inr c'"
    and "ascii (cr_Email c)" and "NormalizeEmail (au_unicode s) (cr_Email c') = NormalizeEmail (au_unicode s) (cr_Email c)"
    and "cr_Password c' = cr_Password c" and "rsp_status (fst (handleSignup s ch h rq w)) = 200"
  shows "handleLogin s ch' h' rq' (snd (handleSignup s ch h rq w)) =
      (issueTokens s ch' h' (newAccountID (ac_random ch)), snd (handleSignup s ch h rq w))"
proof -
  have store: "st_Create (au_users s) = MemoryCreate (au_unicode s)" "st_ByEmail (au_users s) = MemoryByEmail (au_unicode s)"
    by (simp_all add: assms(1) memoryStore_def)
  show ?thesis
    by (rule memory_store.signup_login_store(1) [OF store refl assms(2-4) NormalizeEmail_idem [OF assms(5)] assms(6-8)])
qed

section \<open>Sample libraries\<close>

definition sample_tokens :: TokenService where
  "sample_tokens = \<lparr>ts_secret = ''k'', ts_accessTTL = 900 * second, ts_refreshTTL = 604800 * second\<rparr>"

definition sample_claims :: "string \<Rightarrow> int \<Rightarrow> Claims" where
  "sample_claims kind expires = \<lparr>cm_Subject = ''acct-1'', cm_IssuedAt = 0, cm_ExpiresAt = expires, cm_Kind = kind\<rparr>"

text \<open>A token library that signs two claim sets only, under one key.\<close>

definition sample_jwt :: Jwt where
  "sample_jwt = \<lparr>jw_Date = (\<lambda>t. t div second),
     jw_Sign = (\<lambda>m c k. if m = HMAC ''HS256'' \<and> k = ''k'' \<and> c = sample_claims '''' 900 then Inr ''A''
       else if m = HMAC ''HS256'' \<and> k = ''k'' \<and> c = sample_claims KindRefresh 604800 then Inr ''R'' else Inl ''unsupported''),
     jw_Parse = (\<lambda>key now raw. if key (HMAC ''HS256'') \<noteq> Inr ''k'' then Inl ''bad key''
       else if raw = ''A'' \<and> now < 900 * second then Inr (sample_claims '''' 900)
       else if raw = ''R'' \<and> now < 604800 * second then Inr (sample_claims KindRefresh 604800) else Inl ''invalid'')\<rparr>"

lemma sample_jwt_laws: "jwt_laws sample_jwt"
  by (auto simp: jwt_laws_def sample_jwt_def sample_claims_def KindRefresh_def split: if_splits)

definition sample_bearer :: "string \<Rightarrow> HttpRequest" where
  "sample_bearer raw = \<lparr>rq_method = ''GET'', rq_header = (\<lambda>k. if k = ''Authorization'' then ''Bearer '' @ raw else ''''),
     rq_query = (\<lambda>_. ''''), rq_path = (\<lambda>_. ''''), rq_remote = '''', rq_body = '''', rq_account = ''''\<rparr>"

theorem tokens_open_only_their_doors_witness:
  "jwtMiddleware sample_jwt ''k'' 5 (\<lambda>h rq w. (writeErr h 200 (rq_account rq), w)) Map.empty (sample_bearer ''A'') () =
     (writeErr Map.empty 200 ''acct-1'', ()) \<and> VerifyRefresh sample_jwt sample_tokens 5 ''R'' = Inr ''acct-1''"
proof -
  have a: "Access sample_jwt sample_tokens 0 ''acct-1'' = Inr ''A''"
    by (simp add: Access_def mint_def sample_jwt_def sample_tokens_def sample_claims_def second_def)
  have r: "Refresh sample_jwt sample_tokens 0 ''acct-1'' = Inr ''R''"
    by (simp add: Refresh_def mint_def sample_jwt_def sample_tokens_def sample_claims_def second_def KindRefresh_def)
  have hdr: "rq_header (sample_bearer raw) ''Authorization'' = ''Bearer '' @ raw" for raw by (simp add: sample_bearer_def)
  note doors = tokens_open_only_their_doors [OF sample_jwt_laws a r hdr hdr, simplified]
  have fields: "ts_secret sample_tokens = ''k''" "jw_Date sample_jwt (ts_accessTTL sample_tokens) = 900"
    "jw_Date sample_jwt (ts_refreshTTL sample_tokens) = 604800"
    by (simp_all add: sample_tokens_def sample_jwt_def second_def)
  show ?thesis
    using doors [of 5 "\<lambda>h rq w. (writeErr h 200 (rq_account rq), w)" Map.empty "()"]
    by (simp add: fields second_def)
qed

definition sample_bcrypt :: Bcrypt where
  "sample_bcrypt = \<lparr>bc_Generate = (\<lambda>salt p n. Inr (''$'' @ p)),
     bc_Compare = (\<lambda>h p. if h = ''$'' @ p then None else Some ''mismatch'')\<rparr>"

definition sample_auth :: "User list AuthServer" where
  "sample_auth = \<lparr>au_users = postgresStore \<lparr>un_ToLower = id, un_TrimSpace = id\<rparr> usersTable, au_tokens = sample_tokens,
     au_jwt = sample_jwt\<lparr>jw_Sign := (\<lambda>m c k. Inr ''T'')\<rparr>, au_bcrypt = sample_bcrypt,
     au_unicode = \<lparr>un_ToLower = id, un_TrimSpace = id\<rparr>,
     au_decodeCreds = (\<lambda>b. Inr \<lparr>cr_Email = b, cr_Password = ''long enough''\<rparr>), au_decodeRefresh = Inr, au_db = True\<rparr>"

definition sample_auth_choices :: authChoices where
  "sample_auth_choices = \<lparr>ac_salt = ''s'', ac_random = [1, 255], ac_now = 0, ac_now' = 0, ac_seedErr = None\<rparr>"

definition sample_signup :: "string \<Rightarrow> HttpRequest" where
  "sample_signup email = (sample_bearer '''')\<lparr>rq_body := email\<rparr>"

lemma sample_signup_ok:
  "rsp_status (fst (handleSignup sample_auth sample_auth_choices Map.empty (sample_signup ''a@b.c'')
     \<lparr>aw_users = [], aw_seeds = []\<rparr>)) = 200"
proof -
  have "ValidEmail ''a@b.c''"
    unfolding ValidEmail_pattern
    by (rule exI [of _ "''a''"], rule exI [of _ "''b''"], rule exI [of _ "''c''"]) (simp add: plain_def re_space_def)
  then show ?thesis
    by (simp add: handleSignup_def sample_auth_def sample_signup_def sample_auth_choices_def NormalizeEmail_ascii
      ascii_def trim_def is_space_def lower_char_def minPasswordLen_def HashPassword_def sample_bcrypt_def postgresStore_def
      PostgresCreate_def usersTable_def tableInsert_def issueTokens_def Access_def Refresh_def mint_def Let_def)
qed

theorem signup_then_login_witness:
  "fst (handleLogin sample_auth sample_auth_choices Map.empty (sample_signup '' A@B.c'')
     (snd (handleSignup sample_auth sample_auth_choices Map.empty (sample_signup ''a@b.c'')
       \<lparr>aw_users = [], aw_seeds = []\<rparr>))) = writeJSON Map.empty 200 (TokensBody ''T'' ''T'' ''acct-01ff'' 900)"
proof -
  have laws: "bcrypt_laws (au_bcrypt sample_auth)" by (simp add: bcrypt_laws_def sample_auth_def sample_bcrypt_def)
  have sg: "signs (au_jwt sample_auth)" by (simp add: signs_def sample_auth_def)
  have users: "au_users sample_auth = postgresStore (au_unicode sample_auth) usersTable" by (simp add: sample_auth_def)
  have dec: "au_decodeCreds sample_auth (rq_body (sample_signup e)) = Inr \<lparr>cr_Email = e, cr_Password = ''long enough''\<rparr>" for e
    by (simp add: sample_auth_def sample_signup_def)
  have acct: "newAccountID (ac_random sample_auth_choices) = ''acct-01ff''"
    by (simp add: newAccountID_def EncodeToString_def sample_auth_choices_def hex_digit_def)
  have idem: "NormalizeEmail (au_unicode sample_auth) (NormalizeEmail (au_unicode sample_auth) ''a@b.c'') = NormalizeEmail (au_unicode sample_auth) ''a@b.c''"
    by (rule NormalizeEmail_idem) (simp add: ascii_def)
  have norm: "NormalizeEmail (au_unicode sample_auth) '' A@B.c'' = NormalizeEmail (au_unicode sample_auth) ''a@b.c''"
    by (simp add: NormalizeEmail_ascii ascii_def trim_def is_space_def lower_char_def char_of_def bit_0)
  have minted: "Access (au_jwt sample_auth) (au_tokens sample_auth) t a = Inr ''T''" "Refresh (au_jwt sample_auth) (au_tokens sample_auth) t a = Inr ''T''"
    for t a by (simp_all add: sample_auth_def Access_def Refresh_def mint_def)
  have ttl: "AccessTTLSeconds (au_tokens sample_auth) = 900"
    by (simp add: AccessTTLSeconds_def sample_auth_def sample_tokens_def second_def signed_divide_int_def)
  show ?thesis
    using signup_then_login [OF users usersTable_laws laws sg dec dec _ _ _ sample_signup_ok, of "'' A@B.c''" sample_auth_choices Map.empty] idem norm
    by (simp add: acct minted ttl)
qed

end
