(* ===== verification/WiringProps.thy ===== *)
theory WiringProps
  imports Wiring GatewayProps AuthProps
begin

text \<open>
  What the whole chain promises: nothing of the exchange moves for a request without a valid access
  token, and the program does not start in a configuration its operator has to fix.
\<close>

section \<open>Without a token\<close>

text \<open>What the middleware lets through: a token that parses under the secret and is no refresh token.\<close>

definition authorised :: "Jwt \<Rightarrow> string \<Rightarrow> int \<Rightarrow> HttpRequest \<Rightarrow> bool" where
  "authorised jw secret now rq \<longleftrightarrow> bearerToken rq \<noteq> '''' \<and>
     (\<exists>c. jw_Parse jw (hmacKey secret) now (bearerToken rq) = Inr c \<and> cm_Kind c \<noteq> ''refresh'')"

lemma authorised_path [simp]: "authorised jw secret now (rq\<lparr>rq_path := f\<rparr>) = authorised jw secret now rq"
  by (simp add: authorised_def bearerToken_def Let_def)

lemma jwt_refuses:
  assumes "\<not> authorised jw secret now rq"
  shows "snd (jwtMiddleware jw secret now nxt h rq w) = w" and "rsp_status (fst (jwtMiddleware jw secret now nxt h rq w)) = 401"
  using assms
  by (auto simp: jwtMiddleware_def authorised_def Let_def unauthorized_def httpError_def split: sum.split)

lemma limited_state:
  "snd (snd (rateMiddleware now nxt h rq st)) = (if fst (Allow (fst st) now (clientIP rq)) then snd (nxt h rq (snd st)) else snd st)"
  "\<not> fst (Allow (fst st) now (clientIP rq)) \<Longrightarrow> rsp_status (fst (rateMiddleware now nxt h rq st)) = 429"
  "fst (Allow (fst st) now (clientIP rq)) \<Longrightarrow> fst (rateMiddleware now nxt h rq st) = fst (nxt h rq (snd st))"
  by (simp_all add: rateMiddleware_def Let_def case_prod_beta httpError_def)

lemma protect_refuses:
  assumes "\<not> authorised jw secret now rq"
  shows "snd (snd (protect jw secret now hnd h rq st)) = snd st"
    and "rsp_status (fst (protect jw secret now hnd h rq st)) \<in> {401, 429}"
proof -
  note refused = jwt_refuses [OF assms, of hnd h "snd st"]
  show "snd (snd (protect jw secret now hnd h rq st)) = snd st"
    using refused(1) by (simp add: protect_def limited_state)
  show "rsp_status (fst (protect jw secret now hnd h rq st)) \<in> {401, 429}"
    using refused(2) by (cases "fst (Allow (fst st) now (clientIP rq))") (simp_all add: protect_def limited_state)
qed

text \<open>A handler that leaves the exchange and the simulator alone.\<close>

definition leaves_exchange :: "(('f \<times> ('s, 'r, 'w, 'u, 'g) App) handler) \<Rightarrow> HttpRequest \<Rightarrow> bool" where
  "leaves_exchange hnd rq \<longleftrightarrow> (\<forall>h st. ap_world (snd (snd (hnd h rq st))) = ap_world (snd st) \<and>
     ap_sim (snd (snd (hnd h rq st))) = ap_sim (snd st))"

lemma leaves_protected: "\<not> authorised jw secret now rq \<Longrightarrow> leaves_exchange (protect jw secret now hnd) rq"
  by (simp add: leaves_exchange_def protect_refuses)

lemma leaves_metered:
  assumes "\<And>h a. ap_world (snd (hnd h rq a)) = ap_world a \<and> ap_sim (snd (hnd h rq a)) = ap_sim a"
  shows "leaves_exchange (rateMiddleware now hnd) rq"
  using assms by (simp add: leaves_exchange_def limited_state)

lemma leaves_open:
  assumes "\<And>h a. ap_world (snd (hnd h rq a)) = ap_world a \<and> ap_sim (snd (hnd h rq a)) = ap_sim a"
  shows "leaves_exchange (unmetered hnd) rq"
  using assms by (simp add: leaves_exchange_def unmetered_def case_prod_beta Let_def)

lemma on_auth_exchange:
  "ap_world (snd (on_auth hnd h rq a)) = ap_world a \<and> ap_sim (snd (on_auth hnd h rq a)) = ap_sim a"
  by (simp add: on_auth_def case_prod_beta Let_def)

lemma demo_exchange: "snd (handleDemoSession jw secret acct ttl now now' rnd h rq w) = w"
  by (simp add: handleDemoSession_def Let_def split: sum.split)

lemma health_exchange: "snd (on_world (handleHealth s) h rq a) = a"
  by (simp add: on_world_def handleHealth_def)

lemma routes_leave_exchange:
  assumes "\<not> authorised (gw_jwt g) (cf_JWTSecret (gw_config g)) (rc_now rc) rq" and "r \<in> set (Routes g rc sim)"
  shows "leaves_exchange (snd (snd r)) rq"
proof -
  note guarded = leaves_protected [OF assms(1)]
  show ?thesis
    using assms(2)
    by (auto simp: Routes_def Let_def guarded demo_exchange health_exchange on_auth_exchange
        intro!: leaves_metered leaves_open split: if_splits option.splits)
qed

lemma ServeMux_leaves:
  assumes "\<And>r f. r \<in> set rs \<Longrightarrow> leaves_exchange (snd (snd r)) (rq\<lparr>rq_path := f\<rparr>)"
  shows "leaves_exchange (ServeMux rs path) rq"
proof (cases "find (\<lambda>r. methodMatches (fst r) (rq_method rq) \<and> matchSegs (fst (snd r)) path \<noteq> None) rs")
  case None
  then show ?thesis by (simp add: leaves_exchange_def ServeMux_def)
next
  case (Some r)
  then have "r \<in> set rs" by (auto simp: find_Some_iff)
  then show ?thesis using Some assms [of r] by (simp add: leaves_exchange_def ServeMux_def)
qed

text \<open>The outer middleware answers a preflight itself and hands everything else to the router.\<close>

lemma gatewayHandler_cases:
  obtains (preflight) "rq_method rq = ''OPTIONS''" "snd (gatewayHandler g rc path h rq st) = st"
      "rsp_status (fst (gatewayHandler g rc path h rq st)) = 204"
    | (routed) h' where "rq_method rq \<noteq> ''OPTIONS''"
      "gatewayHandler g rc path h rq st = ServeMux (Routes g rc (ap_sim (snd st))) path h' rq st"
  by (cases "rq_method rq = ''OPTIONS''") (simp_all add: gatewayHandler_def SecurityHeaders_def CORS_def Let_def)

text \<open>C27: safety, across CORS, the router, the limiter, the JWT middleware and
  every handler. A request that carries no valid access token for the configured secret, whatever
  its method, path, headers and body, changes nothing of the exchange: not the engine, the order
  feed, the hub, the cache, the pending fan-outs, the counters, nor the simulator; and on the
  order endpoint it is answered 401 or 429 (or, for a preflight, 204).\<close>

theorem no_token_no_effect:
  assumes "\<not> authorised (gw_jwt g) (cf_JWTSecret (gw_config g)) (rc_now rc) rq"
  shows "ap_world (snd (snd (gatewayHandler g rc path h rq st))) = ap_world (snd st) \<and>
    ap_sim (snd (snd (gatewayHandler g rc path h rq st))) = ap_sim (snd st) \<and>
    (path = [''orders''] \<and> rq_method rq = ''POST'' \<longrightarrow> rsp_status (fst (gatewayHandler g rc path h rq st)) \<in> {401, 429})"
proof -
  have "leaves_exchange (ServeMux (Routes g rc (ap_sim (snd st))) path) rq"
    using assms by (intro ServeMux_leaves routes_leave_exchange [of g rc]) simp_all
  then have leaves: "ap_world (snd (snd (ServeMux (Routes g rc (ap_sim (snd st))) path h' rq st))) = ap_world (snd st) \<and>
      ap_sim (snd (snd (ServeMux (Routes g rc (ap_sim (snd st))) path h' rq st))) = ap_sim (snd st)" for h'
    unfolding leaves_exchange_def by blast
  have orders: "rsp_status (fst (ServeMux (Routes g rc (ap_sim (snd st))) [''orders''] h' rq st)) \<in> {401, 429}"
    if "rq_method rq = ''POST''" for h'
  proof -
    have "\<not> authorised (gw_jwt g) (cf_JWTSecret (gw_config g)) (rc_now rc) (rq\<lparr>rq_path := \<lambda>k. ''''\<rparr>)" using assms by simp
    note refused = protect_refuses(2) [OF this, of "on_world (handleSubmit (gw_server g) (rc_api rc))" h' st]
    show ?thesis using refused that
      by (cases "gw_auth g") (simp_all add: ServeMux_def Routes_def methodMatches_def Let_def)
  qed
  show ?thesis
  proof (cases rule: gatewayHandler_cases [where g = g and rc = rc and path = path and h = h and rq = rq and st = st])
    case preflight
    then show ?thesis by simp
  next
    case (routed h')
    then show ?thesis unfolding routed(2) using leaves [of h'] orders [of h'] by auto
  qed
qed

definition sample_strconv :: "Strconv" where
  "sample_strconv = \<lparr>sc_ParseFloat = (\<lambda>_. Inl ''syntax''), sc_ParseDuration = (\<lambda>_. Inl ''syntax'')\<rparr>"

definition sample_env :: env where
  "sample_env k = (if k = ''JWT_SECRET'' then ''k'' else if k = ''ENGINE_MODE'' then ''local'' else '''')"

definition sample_gateway :: "(LocalEngine, string \<rightharpoonup> string, kafkaMessage list, User list) Gateway" where
  "sample_gateway = \<lparr>gw_server = sample_server, gw_auth = Some sample_auth, gw_jwt = sample_jwt,
     gw_unicode = \<lparr>un_ToLower = id, un_TrimSpace = id\<rparr>, gw_config = loadConfig sample_strconv sample_env,
     gw_metrics = (\<lambda>h rq. writeJSON h 200 NoBody)\<rparr>"

definition sample_req :: reqChoices where
  "sample_req = \<lparr>rc_now = 0, rc_later = 0, rc_api = sample_choices, rc_auth = sample_auth_choices, rc_demo = Inr [7],
     rc_client = 0, rc_upgradeErr = None\<rparr>"

definition sample_app :: "RateLimiter \<times> (LocalEngine, string \<rightharpoonup> string, kafkaMessage list, User list, nat) App" where
  "sample_app = (NewRateLimiter (Finite 20) 40, \<lparr>ap_world = sample_world, ap_auth = \<lparr>aw_users = [], aw_seeds = []\<rparr>, ap_sim = None\<rparr>)"

text \<open>The sample configuration is valid, and this is what the boot makes of it.\<close>

lemma sample_config:
  "Validate (loadConfig sample_strconv sample_env) = None"
  "cf_EngineMode (loadConfig sample_strconv sample_env) = ''local''"
  "\<not> AuthEnabled (loadConfig sample_strconv sample_env)" "cf_MarketSim (loadConfig sample_strconv sample_env)"
  "cf_RateLimitPerSecond (loadConfig sample_strconv sample_env) = Finite 20"
  "cf_RateLimitBurst (loadConfig sample_strconv sample_env) = 40"
  by (simp_all add: Validate_secret)
    (simp_all add: loadConfig_def getenv_def getenvBool_def getenvFloat_def getenvInt_def sample_env_def AuthEnabled_def
      defaultJWTSecret_def)

definition sample_outcome :: bootOutcome where
  "sample_outcome = \<lparr>bo_redisPing = None, bo_grpc = None, bo_openDB = None, bo_pingDB = None\<rparr>"

lemma sample_boot:
  obtains wr where "boot sample_strconv sample_redis sample_env sample_outcome = Inr wr"
    and "wr_config wr = loadConfig sample_strconv sample_env" and "wr_engine wr = InProcess demoSymbols"
    and "wr_tokens wr = None" and "wr_limiter wr = NewRateLimiter (Finite 20) 40" and "wr_gate wr = NewGate"
    and "wr_hub wr = NewHub" and "\<exists>every. wr_sim wr = Some (demoSymbols, every)"
proof -
  obtain wr where "boot sample_strconv sample_redis sample_env sample_outcome = Inr wr"
      "wr_config wr = loadConfig sample_strconv sample_env \<and> wr_engine wr = InProcess demoSymbols \<and>
       wr_tokens wr = None \<and> wr_limiter wr = NewRateLimiter (Finite 20) 40 \<and> wr_gate wr = NewGate \<and> wr_hub wr = NewHub \<and>
       (\<exists>every. wr_sim wr = Some (demoSymbols, every))"
    by (simp add: sample_config boot_def Load_def chooseEngine_def wireAuth_def)
  then show ?thesis using that by blast
qed

theorem no_token_no_effect_witness:
  "ap_world (snd (snd (gatewayHandler sample_gateway sample_req [''orders''] Map.empty
     ((sample_bearer ''forged'')\<lparr>rq_method := ''POST''\<rparr>) sample_app))) = sample_world"
proof -
  let ?rq = "(sample_bearer ''forged'')\<lparr>rq_method := ''POST''\<rparr>"
  have "bearerToken ?rq = ''forged''" by (rule bearer_header) (simp_all add: sample_bearer_def)
  then have "\<not> authorised (gw_jwt sample_gateway) (cf_JWTSecret (gw_config sample_gateway)) (rc_now sample_req) ?rq"
    by (simp add: authorised_def sample_gateway_def sample_jwt_def)
  from no_token_no_effect [OF this, of "[''orders'']" Map.empty sample_app] show ?thesis
    by (simp add: sample_app_def)
qed

section \<open>Starting up\<close>

lemma boot_engine: "boot sc rdb env bo = Inr wr \<Longrightarrow> wr_engine wr = InProcess syms \<Longrightarrow> syms = demoSymbols"
  by (auto simp: boot_def Load_def chooseEngine_def split: option.splits sum.splits if_splits)

text \<open>C28: safety. A gateway that starts is one its operator meant. It verifies tokens under the secret
  of \<open>JWT_SECRET\<close>, and under the well-known default only if that is what the environment gives and
  \<open>ALLOW_INSECURE_SECRET\<close> says so; the in-process engine is used exactly in the modes \<open>mock\<close> and
  \<open>local\<close>, seeded with the demo symbols; password auth is wired exactly when a database is configured,
  and issues tokens under the same secret; the simulator runs exactly when the engine is in-process
  and \<open>MARKET_SIM\<close> is not set to a false value, on the symbols the engine is seeded with and at the
  interval of \<open>MARKET_SIM_INTERVAL\<close>.\<close>

theorem boot_is_safe:
  assumes "boot sc rdb env bo = Inr wr"
  shows "wr_secret wr = (if env ''JWT_SECRET'' = '''' then defaultJWTSecret else env ''JWT_SECRET'') \<and>
    (wr_secret wr \<noteq> defaultJWTSecret \<or> ParseBool (env ''ALLOW_INSECURE_SECRET'') = Some True) \<and>
    (if env ''ENGINE_MODE'' = ''mock'' \<or> env ''ENGINE_MODE'' = ''local'' then wr_engine wr = InProcess demoSymbols
     else \<exists>addr. wr_engine wr = RemoteEngine addr) \<and>
    (env ''DATABASE_URL'' = '''' \<longleftrightarrow> wr_tokens wr = None) \<and>
    (\<forall>t. wr_tokens wr = Some t \<longrightarrow> ts_secret t = wr_secret wr) \<and>
    wr_sim wr =
      (if (env ''ENGINE_MODE'' = ''mock'' \<or> env ''ENGINE_MODE'' = ''local'') \<and> getenvBool env ''MARKET_SIM'' True
       then Some (demoSymbols, getenvDuration sc env ''MARKET_SIM_INTERVAL'' (700 * Millisecond)) else None)"
proof -
  let ?cfg = "loadConfig sc env"
  obtain eng tokens where eng: "chooseEngine ?cfg bo = Inr eng" and tokens: "wireAuth ?cfg bo = Inr tokens"
    and valid: "Validate ?cfg = None"
    and wr: "wr_config wr = ?cfg" "wr_engine wr = eng" "wr_secret wr = cf_JWTSecret ?cfg" "wr_tokens wr = tokens"
      "wr_sim wr = (case eng of InProcess syms \<Rightarrow> if cf_MarketSim ?cfg then Some (demoSymbols, cf_MarketSimInterval ?cfg) else None
         | RemoteEngine addr \<Rightarrow> None)"
    using assms by (auto simp: boot_def Load_def split: option.splits sum.splits)
  have mode: "cf_EngineMode ?cfg = (if env ''ENGINE_MODE'' = '''' then ''grpc'' else env ''ENGINE_MODE'')"
    and dsn: "cf_DatabaseURL ?cfg = env ''DATABASE_URL''"
    and secret: "cf_JWTSecret ?cfg = (if env ''JWT_SECRET'' = '''' then defaultJWTSecret else env ''JWT_SECRET'')"
    and sim: "cf_MarketSim ?cfg = getenvBool env ''MARKET_SIM'' True"
      "cf_MarketSimInterval ?cfg = getenvDuration sc env ''MARKET_SIM_INTERVAL'' (700 * Millisecond)"
    by (simp_all add: loadConfig_def getenv_def)
  have s: "wr_secret wr \<noteq> defaultJWTSecret \<or> ParseBool (env ''ALLOW_INSECURE_SECRET'') = Some True"
    using valid by (auto simp: Validate_secret wr(3) secret)
  have e: "if env ''ENGINE_MODE'' = ''mock'' \<or> env ''ENGINE_MODE'' = ''local'' then eng = InProcess demoSymbols
      else \<exists>addr. eng = RemoteEngine addr"
    using eng by (auto simp: chooseEngine_def mode split: if_splits option.splits)
  have a: "(env ''DATABASE_URL'' = '''' \<longleftrightarrow> tokens = None) \<and> (\<forall>t. tokens = Some t \<longrightarrow> ts_secret t = cf_JWTSecret ?cfg)"
    using tokens by (auto simp: wireAuth_def AuthEnabled_def dsn NewTokenService_def split: if_splits option.splits)
  have m: "wr_sim wr =
      (if (env ''ENGINE_MODE'' = ''mock'' \<or> env ''ENGINE_MODE'' = ''local'') \<and> getenvBool env ''MARKET_SIM'' True
       then Some (demoSymbols, getenvDuration sc env ''MARKET_SIM_INTERVAL'' (700 * Millisecond)) else None)"
    using e by (auto simp: wr(5) sim split: engineChoice.splits if_splits)
  show ?thesis using s e a wr(1-4) by (simp add: m secret)
qed

theorem boot_is_safe_witness:
  "\<exists>wr. boot sample_strconv sample_redis sample_env sample_outcome = Inr wr \<and>
     wr_engine wr = InProcess demoSymbols \<and> wr_tokens wr = None \<and> (\<exists>every. wr_sim wr = Some (demoSymbols, every))"
proof -
  obtain wr where wr: "boot sample_strconv sample_redis sample_env sample_outcome = Inr wr" by (rule sample_boot)
  from boot_is_safe [OF this] show ?thesis using wr by (auto simp: sample_env_def getenvBool_def ParseBool_def)
qed

end
