(* ===== verification/SimulatorProps.thy ===== *)
theory SimulatorProps
  imports Simulator "HOL-Library.Char_ord" "HOL-Library.List_Lexorder"
begin

text \<open>
  What the simulator keeps: its fair value stays in the band, it never has more than six quotes per
  symbol to remember, and every order of the maker that rests in a book is one it remembers. So the
  book does not grow, however long the bots run and whatever the other accounts do.
\<close>

section \<open>The books map stays finite\<close>

definition finite_books :: "LocalEngine \<Rightarrow> bool" where
  "finite_books e \<longleftrightarrow> finite (dom (le_books e))"

lemma finite_books_set_orders [simp]: "finite_books (set_orders e s os) \<longleftrightarrow> finite_books e"
  by (simp add: finite_books_def set_orders_def)

lemma finite_books_book [simp]: "finite_books (snd (book e s)) \<longleftrightarrow> finite_books e"
  by (auto simp: finite_books_def book_def Let_def split: option.split)

lemma finite_books_frame [simp]:
  "finite_books (e\<lparr>le_accounts := a\<rparr>) \<longleftrightarrow> finite_books e" "finite_books (e\<lparr>le_lastPrice := l\<rparr>) \<longleftrightarrow> finite_books e"
  "finite_books (e\<lparr>le_orderID := n\<rparr>) \<longleftrightarrow> finite_books e" "finite_books (e\<lparr>le_tradeID := n\<rparr>) \<longleftrightarrow> finite_books e"
  "finite_books (e\<lparr>le_seq := n\<rparr>) \<longleftrightarrow> finite_books e"
  by (simp_all add: finite_books_def)

lemma finite_books_matchFill [simp]: "finite_books (snd (matchFill oid o' now j m f e)) \<longleftrightarrow> finite_books e"
  by (simp add: matchFill_def nextTradeID_def Let_def split: prod.split)

lemma finite_books_submitLocked: "finite_books e \<Longrightarrow> finite_books (snd (submitLocked oid o' now e))"
proof -
  assume fin: "finite_books e"
  obtain b e0 where bk: "book e (no_Symbol o') = (b, e0)" by force
  obtain r ts e1 where loop: "matchLoop oid o' now (no_Quantity o') [] e0 = (r, ts, e1)" by (metis prod_cases3)
  have "finite_books e0" using fin bk finite_books_book [of e "no_Symbol o'"] by simp
  then have "finite_books e1 \<and> loop_done o' r e1"
    by (rule matchLoop_rule [where P = "\<lambda>r ts e. finite_books e", OF _ _ loop]) simp_all
  then show ?thesis by (simp add: submitLocked_def bk loop nextSeq_def Let_def)
qed

lemma finite_books_submit: "finite_books e \<Longrightarrow> finite_books (snd (SubmitOrder e ctxErr o' now))"
  using finite_books_submitLocked [of "snd (nextOrderID e)"]
  by (auto simp: SubmitOrder_def nextOrderID_def Let_def case_prod_beta split: option.split)

lemma finite_books_cancel: "finite_books e \<Longrightarrow> finite_books (snd (CancelOrder e ctxErr c syms))"
  using cancelScan_engine [of c e syms] by (auto simp: CancelOrder_def case_prod_beta split: option.split)

lemma finite_books_perform: "finite_books e \<Longrightarrow> finite_books (perform e c)"
  by (cases c) (simp_all add: finite_books_submit finite_books_cancel GetBook_engine)

lemma finite_books_new: "finite_books (NewLocalEngine syms)"
proof -
  have pair: "finite_books e \<Longrightarrow> finite_books (seedPair s e i)" for s e i
    by (simp add: seedPair_def nextOrderID_def nextSeq_def Let_def)
  have books: "finite_books e \<Longrightarrow> finite_books (foldl seedBook e syms)" for e
    by (induction syms arbitrary: e) (simp_all add: seedBook_def pair)
  show ?thesis unfolding NewLocalEngine_def by (rule books) (simp add: finite_books_def empty_engine_def)
qed

section \<open>What one call does to the resting orders\<close>

text \<open>The sharper form of \<open>SubmitOrder_owner\<close>: the one new order carries the acknowledged id.\<close>

lemma SubmitOrder_new:
  assumes ok: "books_ok e" and r: "SubmitOrder e None o' now = (Inr ack, e')"
    and ro: "ro \<in> set (orders_of e' s)"
  shows "(\<exists>ro'\<in>set (orders_of e s). ro_id ro' = ro_id ro \<and> ro_accountID ro' = ro_accountID ro) \<or>
    (ro_accountID ro = no_AccountID o' \<and> s = no_Symbol o' \<and> ro_id ro = ack_OrderID ack \<and>
     no_Type o' = OrderTypeLimit)"
proof (cases "passes_guards o'")
  case False
  then have "orders_of e' s = orders_of e s" using r by (auto simp: SubmitOrder_refused nextOrderID_def orders_of_def)
  then show ?thesis using ro by auto
next
  case True
  note spec = SubmitOrder_spec(1,2) [OF ok True refl r]
  then have id: "ack_OrderID ack = order_id (le_orderID e + 1)" by (simp add: spec_ack_def)
  let ?fs = "allocation o' (no_Quantity o') e"
  from ro consider "s \<noteq> no_Symbol o'" "ro \<in> set (orders_of e s)"
    | "ro \<in> set (deplete ?fs (orders_of e s))" | "s = no_Symbol o'" "ro \<in> set (resting_part e o' ?fs)"
    unfolding spec(2) spec_books_def by (auto split: if_splits)
  then show ?thesis
  proof cases
    case 2
    then show ?thesis using deplete_owner by blast
  next
    case 3
    then have "ro_accountID ro = no_AccountID o' \<and> ro_id ro = order_id (le_orderID e + 1) \<and> no_Type o' = OrderTypeLimit"
      by (auto simp: resting_part_def rests_def split: if_splits)
    then show ?thesis using 3(1) id by simp
  qed auto
qed

text \<open>Cancelling takes orders away, and among them whatever the requesting account has under the id.\<close>

lemma resting_id_nonempty: "books_ok e \<Longrightarrow> ro \<in> set (orders_of e s) \<Longrightarrow> ro_id ro \<noteq> ''''"
  by (force simp: books_ok_def ids_ok_def order_id_def)

lemma CancelOrder_gone:
  assumes ok: "books_ok e" and ks: "range_keys (le_books e) syms" and acct: "co_AccountID c \<noteq> ''''"
    and ro: "ro \<in> set (orders_of (snd (CancelOrder e None c syms)) s)"
  shows "ro \<in> set (orders_of e s) \<and> (ro_accountID ro = co_AccountID c \<longrightarrow> ro_id ro \<noteq> co_OrderID c)"
proof (cases "co_OrderID c = '''' \<or> (\<forall>t. co_OrderID c \<notin> ro_id ` set (orders_of e t))")
  case True
  then have "snd (CancelOrder e None c syms) = e"
    using CancelOrder_absent [of c e syms] by (auto simp: CancelOrder_def)
  then have "ro \<in> set (orders_of e s)" using ro by simp
  then show ?thesis using True resting_id_nonempty [OF ok] by (metis imageI)
next
  case False
  then obtain t r where i: "co_OrderID c \<noteq> ''''" and r: "r \<in> set (orders_of e t)" "ro_id r = co_OrderID c" by auto
  show ?thesis
  proof (cases "may_cancel c r")
    case True
    then show ?thesis using ro CancelOrder_found(2) [OF ok ks i r] by simp
  next
    case False
    then have "ro \<in> set (orders_of e s)" using ro CancelOrder_refused [OF ok ks i r] by simp
    moreover have "ro_accountID ro = co_AccountID c \<Longrightarrow> ro_id ro \<noteq> co_OrderID c"
      using same_order(2) [OF ok _ r(1)] calculation r(2) False by (auto simp: may_cancel_def)
    ultimately show ?thesis by blast
  qed
qed

lemma CancelOrder_subset: "set (orders_of (snd (CancelOrder e ctxErr c syms)) s) \<subseteq> set (orders_of e s)"
  using cancelScan_engine [of c e syms] set_remove_order [of "orders_of e s" "co_OrderID c"]
  by (auto simp: CancelOrder_def orders_of_set_orders case_prod_beta split: option.splits if_splits)

section \<open>What a tick keeps\<close>

text \<open>
  The bots' resting orders are the maker's quotes: a taker's market order never rests. The
  invariant counts the quotes of the symbol being worked on separately, as they build up.
\<close>

definition simBots :: "string set" where
  "simBots = {simMaker, simTakerA, simTakerB}"

definition bots_quoted :: "'g marketSim \<Rightarrow> LocalEngine \<Rightarrow> bool" where
  "bots_quoted m e \<longleftrightarrow> (\<forall>s. \<forall>ro\<in>set (orders_of e s).
     ro_accountID ro \<in> simBots \<longrightarrow> ro_accountID ro = simMaker \<and> ro_id ro \<in> set (quotes_of m s))"

definition mids_in_band :: "'g marketSim \<Rightarrow> bool" where
  "mids_in_band m \<longleftrightarrow> (\<forall>s mid. ms_mid m s = Some mid \<longrightarrow> 8000 \<le> sint mid \<and> sint mid \<le> 12000)"

definition sim_inv :: "nat \<Rightarrow> string \<Rightarrow> nat \<Rightarrow> 'g marketSim \<times> LocalEngine \<Rightarrow> bool" where
  "sim_inv n s k me \<longleftrightarrow> books_ok (snd me) \<and> finite_books (snd me) \<and> counter_room n (snd me) \<and>
     bots_quoted (fst me) (snd me) \<and> mids_in_band (fst me) \<and>
     (\<forall>t. length (quotes_of (fst me) t) \<le> (if t = s then k else 6))"

text \<open>The simulator on the in-process engine, while the process runs, ranging over the books it has.\<close>

definition tick_ok :: "(LocalEngine, 'g) simTick \<Rightarrow> bool" where
  "tick_ok tk \<longleftrightarrow> tk_eng tk = localOps \<and> tk_ctxErr tk = None \<and>
     (\<forall>e. finite_books e \<longrightarrow> range_keys (le_books e) (tk_range tk e))"

lemma draw_frame [simp]:
  "ms_mid (snd (draw tk n m)) = ms_mid m" "ms_quotes (snd (draw tk n m)) = ms_quotes m"
  "ms_syms (snd (draw tk n m)) = ms_syms m" "ms_paused (snd (draw tk n m)) = ms_paused m"
  by (simp_all add: draw_def case_prod_beta Let_def)

lemma sim_inv_frame:
  assumes "ms_mid m' = ms_mid m" and "ms_quotes m' = ms_quotes m" and "sim_inv n s k (m, e)"
  shows "sim_inv n s k (m', e)"
  using assms by (simp add: sim_inv_def bots_quoted_def mids_in_band_def quotes_of_def)

lemma clampMid_band: "8000 \<le> sint (clampMid mid) \<and> sint (clampMid mid) \<le> 12000"
  by (auto simp: clampMid_def simMidMin_def simMidMax_def Let_def word_sless_alt)

lemma walkMid_inv:
  assumes "sim_inv n s k (m, e)"
  shows "sim_inv n s k (snd (walkMid tk s m), e)" and "quotes_of (snd (walkMid tk s m)) = quotes_of m"
    and "ms_syms (snd (walkMid tk s m)) = ms_syms m"
  using assms clampMid_band
  by (auto simp: walkMid_def sim_inv_def bots_quoted_def mids_in_band_def quotes_of_def fun_eq_iff
      case_prod_beta Let_def)

text \<open>A submit by an account that is no bot, and a quote of the maker.\<close>

lemma SubmitOrder_step:
  assumes inv: "sim_inv (Suc n) s k (m, e)" and r: "SubmitOrder e None o' now = (Inr ack, e')"
  shows "books_ok e'" and "finite_books e'" and "counter_room n e'"
proof -
  have e: "books_ok e" "finite_books e" "counter_room (Suc n) e" using inv by (simp_all add: sim_inv_def)
  have "counter_room 1 e" using e(3) by (rule counter_room_le) simp
  note b = SubmitOrder_books [OF e(1) this, of None o' now, unfolded r snd_conv]
  show "books_ok e'" by (rule b(1))
  show "finite_books e'" using finite_books_submit [OF e(2), of None o' now] r by simp
  show "counter_room n e'" using draws_room [OF b(2), of n] e(3) by simp
qed

lemma submit_no_quote:
  assumes inv: "sim_inv (Suc n) s k (m, e)" and r: "SubmitOrder e None o' now = (Inr ack, e')"
    and no: "no_AccountID o' \<notin> simBots \<or> no_Type o' \<noteq> OrderTypeLimit"
  shows "sim_inv n s k (m, e')"
proof -
  have "bots_quoted m e" and ok: "books_ok e" using inv by (simp_all add: sim_inv_def)
  then have "bots_quoted m e'"
    using SubmitOrder_new [OF ok r] no unfolding bots_quoted_def by metis
  then show ?thesis using SubmitOrder_step [OF inv r] inv by (simp add: sim_inv_def)
qed

lemma submit_answers_local: "\<exists>ack e'. SubmitOrder e None o' now = (Inr ack, e')"
  by (cases "passes_guards o'") (simp_all add: SubmitOrder_refused SubmitOrder_locked)

lemma postQuote_inv:
  assumes inv: "sim_inv (Suc n) s k me" and tk: "tick_ok tk"
  shows "sim_inv n s (Suc k) (postQuote tk s sd price qty me)"
    and "ms_syms (fst (postQuote tk s sd price qty me)) = ms_syms (fst me)"
proof -
  obtain m e where me: "me = (m, e)" by force
  let ?o = "simOrder simMaker s sd OrderTypeLimit price qty"
  obtain ack e' where r: "SubmitOrder e None ?o (tk_now tk) = (Inr ack, e')" using submit_answers_local by blast
  let ?m = "m\<lparr>ms_quotes := (ms_quotes m)(s \<mapsto> quotes_of m s @ [ack_OrderID ack])\<rparr>"
  have p: "postQuote tk s sd price qty me = (?m, e')"
    using r tk by (simp add: postQuote_def me tick_ok_def localOps_def)
  have q: "quotes_of ?m t = (if t = s then quotes_of m s @ [ack_OrderID ack] else quotes_of m t)" for t
    by (simp add: quotes_of_def)
  have "bots_quoted m e" and ok: "books_ok e" using inv by (simp_all add: sim_inv_def me)
  then have "bots_quoted ?m e'"
    using SubmitOrder_new [OF ok r] unfolding bots_quoted_def q by (fastforce simp: simOrder_def)
  then show "sim_inv n s (Suc k) (postQuote tk s sd price qty me)"
    using SubmitOrder_step [OF inv [unfolded me] r] inv unfolding p by (auto simp: sim_inv_def me q mids_in_band_def split: if_splits)
  show "ms_syms (fst (postQuote tk s sd price qty me)) = ms_syms (fst me)" unfolding p by (simp add: me)
qed

text \<open>Cancelling the remembered quotes leaves none of the bots' orders in the symbol's book.\<close>

lemma cancelQuotes_gone:
  assumes "books_ok e" and "finite_books e" and "counter_room n e" and tk: "tick_ok tk"
  shows "books_ok (cancelQuotes tk s ids e)" and "finite_books (cancelQuotes tk s ids e)"
    and "counter_room n (cancelQuotes tk s ids e)"
    and "ro \<in> set (orders_of (cancelQuotes tk s ids e) t) \<Longrightarrow>
      ro \<in> set (orders_of e t) \<and> (ro_accountID ro = simMaker \<longrightarrow> ro_id ro \<notin> set ids)"
proof -
  have "books_ok (cancelQuotes tk s ids e) \<and> finite_books (cancelQuotes tk s ids e) \<and>
    counter_room n (cancelQuotes tk s ids e) \<and> (\<forall>t. \<forall>ro\<in>set (orders_of (cancelQuotes tk s ids e) t).
      ro \<in> set (orders_of e t) \<and> (ro_accountID ro = simMaker \<longrightarrow> ro_id ro \<notin> set ids))"
    using assms(1-3)
  proof (induction ids arbitrary: e)
    case (Cons i ids)
    let ?c = "\<lparr>co_OrderID = i, co_Symbol = s, co_AccountID = simMaker\<rparr>"
    let ?e = "snd (CancelOrder e None ?c (tk_range tk e))"
    have ks: "range_keys (le_books e) (tk_range tk e)" using tk Cons.prems(2) by (simp add: tick_ok_def)
    note b = CancelOrder_books [OF Cons.prems(1), of None ?c "tk_range tk e"]
    have "counter_room n ?e" using draws_room [OF b(2), of n] Cons.prems(3) by simp
    note ih = Cons.IH [OF b(1) finite_books_cancel [OF Cons.prems(2)] this]
    have "cancelQuotes tk s (i # ids) e = cancelQuotes tk s ids ?e" using tk by (simp add: tick_ok_def localOps_def)
    then show ?case
      using ih CancelOrder_gone [OF Cons.prems(1) ks, of ?c] by (fastforce simp: simMaker_def)
  qed simp
  then show "books_ok (cancelQuotes tk s ids e)" and "finite_books (cancelQuotes tk s ids e)"
    and "counter_room n (cancelQuotes tk s ids e)"
    and "ro \<in> set (orders_of (cancelQuotes tk s ids e) t) \<Longrightarrow>
      ro \<in> set (orders_of e t) \<and> (ro_accountID ro = simMaker \<longrightarrow> ro_id ro \<notin> set ids)" by blast+
qed

lemma requote_inv:
  assumes inv: "sim_inv n s k (m, e)" and tk: "tick_ok tk"
  shows "sim_inv n s 0 (m\<lparr>ms_quotes := (ms_quotes m)(s \<mapsto> [])\<rparr>, cancelQuotes tk s (quotes_of m s) e)"
proof -
  have e: "books_ok e" "finite_books e" "counter_room n e" and q: "bots_quoted m e" using inv by (simp_all add: sim_inv_def)
  note c = cancelQuotes_gone [OF e tk, where s = s and ids = "quotes_of m s"]
  let ?m = "m\<lparr>ms_quotes := (ms_quotes m)(s \<mapsto> [])\<rparr>"
  have qs: "quotes_of ?m t = (if t = s then [] else quotes_of m t)" for t by (simp add: quotes_of_def)
  have "bots_quoted ?m (cancelQuotes tk s (quotes_of m s) e)"
    unfolding bots_quoted_def qs using c(4) q unfolding bots_quoted_def by (metis (full_types))
  then show ?thesis using c(1-3) inv by (auto simp: sim_inv_def qs mids_in_band_def split: if_splits)
qed

lemma postLevel_inv:
  assumes "sim_inv (Suc (Suc n)) s k me" and "tick_ok tk"
  shows "sim_inv n s (Suc (Suc k)) (postLevel tk s mid i me)"
    and "ms_syms (fst (postLevel tk s mid i me)) = ms_syms (fst me)"
proof -
  have "sim_inv (Suc (Suc n)) s k (snd (draw tk 40 (fst me)), snd me)"
    using assms(1) sim_inv_frame [of "snd (draw tk 40 (fst me))" "fst me"] by simp
  note p = postQuote_inv(1) [OF this assms(2)]
  show "sim_inv n s (Suc (Suc k)) (postLevel tk s mid i me)"
    unfolding postLevel_def using postQuote_inv(1) [OF p assms(2)] by (simp add: case_prod_beta Let_def)
  show "ms_syms (fst (postLevel tk s mid i me)) = ms_syms (fst me)"
    unfolding postLevel_def using postQuote_inv(2) [OF p assms(2)] postQuote_inv(2) [OF _ assms(2)]
      \<open>sim_inv (Suc (Suc n)) s k (snd (draw tk 40 (fst me)), snd me)\<close>
    by (simp add: case_prod_beta Let_def)
qed

lemma postLevels_inv:
  assumes "sim_inv (n + 6) s 0 me" and tk: "tick_ok tk"
  shows "sim_inv n s 6 (postLevels tk s mid me)" and "ms_syms (fst (postLevels tk s mid me)) = ms_syms (fst me)"
proof -
  have "[1..<simLevels + 1] = [1, 2, 3]" by (simp add: simLevels_def upt_rec)
  then have lv: "postLevels tk s mid me =
      postLevel tk s mid 3 (postLevel tk s mid 2 (postLevel tk s mid 1 me))"
    by (simp add: postLevels_def)
  have one: "sim_inv (Suc (Suc (n + 4))) s 0 me" using assms(1) by (simp add: numeral_eq_Suc)
  note l1 = postLevel_inv [OF one tk, of mid 1]
  have two: "sim_inv (Suc (Suc (n + 2))) s 2 (postLevel tk s mid 1 me)" using l1(1) by (simp add: numeral_eq_Suc)
  note l2 = postLevel_inv [OF two tk, of mid 2]
  have three: "sim_inv (Suc (Suc n)) s 4 (postLevel tk s mid 2 (postLevel tk s mid 1 me))"
    using l2(1) by (simp add: numeral_eq_Suc)
  note l3 = postLevel_inv [OF three tk, of mid 3]
  show "sim_inv n s 6 (postLevels tk s mid me)" unfolding lv using l3(1) by (simp add: numeral_eq_Suc)
  show "ms_syms (fst (postLevels tk s mid me)) = ms_syms (fst me)" unfolding lv using l1(2) l2(2) l3(2) by simp
qed

lemma takerTurn_inv:
  assumes "sim_inv (Suc n) s k me" and tk: "tick_ok tk"
  shows "sim_inv n s k (snd (takerTurn tk s me))" and "ms_syms (fst (snd (takerTurn tk s me))) = ms_syms (fst me)"
proof -
  define m where "m = snd (draw tk 100 (fst me))"
  have inv: "sim_inv (Suc n) s k (m, snd me)" and ms: "ms_syms m = ms_syms (fst me)"
    using assms(1) sim_inv_frame [of m "fst me"] by (simp_all add: m_def)
  obtain o' m1 where o': "takerOrder tk s m = (o', m1)" by force
  have frame: "ms_mid m1 = ms_mid m" "ms_quotes m1 = ms_quotes m" "ms_syms m1 = ms_syms m"
    and ty: "no_Type o' = OrderTypeMarket"
    using o' by (auto simp: takerOrder_def simOrder_def case_prod_beta Let_def)
  obtain ack e' where r: "SubmitOrder (snd me) None o' (tk_now tk) = (Inr ack, e')" using submit_answers_local by blast
  have "no_Type o' \<noteq> OrderTypeLimit" by (simp add: ty OrderTypeMarket_def OrderTypeLimit_def)
  then have step: "sim_inv n s k (m1, e')"
    using submit_no_quote [OF sim_inv_frame [OF frame(1,2) inv] r] by blast
  have room: "counter_room (Suc n) (snd me)" using inv by (simp add: sim_inv_def)
  have weak: "sim_inv n s k (m, snd me)"
    using inv counter_room_le [OF room, of n] by (simp add: sim_inv_def)
  have t: "takerTurn tk s me = (if fst (draw tk 100 (fst me)) < 75
      then ((if ack_Trades ack \<noteq> [] then [\<lparr>sb_symbol = s, sb_trades = ack_Trades ack\<rparr>] else []), m1, e')
      else ([], m, snd me))"
    using r o' tk by (simp add: takerTurn_def case_prod_beta Let_def m_def [symmetric] tick_ok_def localOps_def)
  show "sim_inv n s k (snd (takerTurn tk s me))" unfolding t using step weak by simp
  show "ms_syms (fst (snd (takerTurn tk s me))) = ms_syms (fst me)" unfolding t using frame ms by simp
qed

lemma stepSymbol_inv:
  assumes inv: "sim_inv (7 + n) t 6 me" and tk: "tick_ok tk"
  shows "sim_inv n t 6 (snd (stepSymbol tk s me))" and "ms_syms (fst (snd (stepSymbol tk s me))) = ms_syms (fst me)"
proof -
  obtain m e where me: "me = (m, e)" by force
  obtain mid m1 where w: "walkMid tk s m = (mid, m1)" by force
  have any: "sim_inv n t 6 p \<longleftrightarrow> sim_inv n s 6 p" for n and p :: "'a marketSim \<times> LocalEngine" by (simp add: sim_inv_def)
  have "sim_inv (7 + n) s 6 (m, e)" using inv me any by blast
  note m1 = walkMid_inv [OF this, of tk, unfolded w snd_conv]
  let ?me = "(m1\<lparr>ms_quotes := (ms_quotes m1)(s \<mapsto> [])\<rparr>, cancelQuotes tk s (quotes_of m1 s) e)"
  have "sim_inv (Suc n + 6) s 0 ?me" using requote_inv [OF m1(1) tk] by simp
  note l = postLevels_inv [OF this tk, of mid]
  note t = takerTurn_inv [OF l(1) tk]
  have st: "stepSymbol tk s me = takerTurn tk s (postLevels tk s mid ?me)"
    by (simp add: stepSymbol_def me w Let_def)
  show "sim_inv n t 6 (snd (stepSymbol tk s me))" unfolding st any [of _ _] using t(1) by blast
  show "ms_syms (fst (snd (stepSymbol tk s me))) = ms_syms (fst me)" unfolding st using t(2) l(2) m1(3) by (simp add: me)
qed

lemma stepSymbols_inv:
  assumes "sim_inv (7 * length ss + n) t 6 me" and "tick_ok tk"
  shows "sim_inv n t 6 (snd (stepSymbols tk ss me)) \<and> ms_syms (fst (snd (stepSymbols tk ss me))) = ms_syms (fst me)"
  using assms(1)
proof (induction ss arbitrary: me)
  case (Cons s ss)
  have "sim_inv (7 + (7 * length ss + n)) t 6 me" using Cons.prems by (simp add: algebra_simps)
  note st = stepSymbol_inv [OF this assms(2), of s]
  show ?case using Cons.IH [OF st(1)] st(2) by (simp add: case_prod_beta Let_def)
qed simp

lemma simStep_inv:
  assumes "sim_inv (7 * length (ms_syms (fst me)) + n) t 6 me" and "tick_ok tk"
  shows "sim_inv n t 6 (snd (simStep tk me))"
proof (cases "ms_paused (fst me)")
  case True
  have "counter_room n (snd me)" using assms(1) counter_room_le [of _ "snd me" n] by (auto simp: sim_inv_def)
  then show ?thesis using True assms(1) by (simp add: simStep_def sim_inv_def)
next
  case False
  then show ?thesis using stepSymbols_inv [OF assms] by (simp add: simStep_def)
qed

section \<open>The simulator beside everyone else\<close>

definition not_a_bot :: "call \<Rightarrow> bool" where
  "not_a_bot c \<longleftrightarrow> (case c of Submit ctxErr o' now \<Rightarrow> no_AccountID o' \<notin> simBots | _ \<Rightarrow> True)"

lemma perform_bots_quoted:
  assumes ok: "books_ok e" and "bots_quoted m e" and "not_a_bot c"
  shows "bots_quoted m (perform e c)"
proof (cases c)
  case (Submit ctxErr o' now)
  have no: "no_AccountID o' \<notin> simBots" using assms(3) by (simp add: not_a_bot_def Submit)
  show ?thesis
    using SubmitOrder_owner [OF ok] assms(2) no unfolding bots_quoted_def Submit perform.simps by metis
next
  case (Cancel ctxErr c' syms)
  have "ro \<in> set (orders_of e s)" if "ro \<in> set (orders_of (perform e c) s)" for ro s
    using that CancelOrder_subset [of e ctxErr c' syms s] by (auto simp: Cancel)
  then show ?thesis using assms(2) unfolding bots_quoted_def by blast
next
  case (ReadBook ctxErr r now bk ak)
  then show ?thesis using assms(2) by (simp add: bots_quoted_def GetBook_engine)
qed

lemma perform_sim_inv:
  assumes "sim_inv 1 t 6 (m, e)" and "not_a_bot c"
  shows "sim_inv 0 t 6 (m, perform e c)"
proof -
  have e: "books_ok e" "counter_room (1 + 0) e" "finite_books e" "bots_quoted m e" using assms(1) by (simp_all add: sim_inv_def)
  have "counter_room 1 e" using e(2) by simp
  note p = perform_books [OF e(1) this, of c]
  show ?thesis
    using p(1) draws_room [OF p(2) e(2)] finite_books_perform [OF e(3), of c]
      perform_bots_quoted [OF e(1,4) assms(2)] assms(1)
    by (simp add: sim_inv_def)
qed

text \<open>The orders of a fresh engine are the seeding account's.\<close>

lemma NewLocalEngine_owner:
  "ro \<in> set (orders_of (NewLocalEngine syms) s) \<Longrightarrow> ro_accountID ro = ''market-maker''"
proof -
  have rest: "ro \<in> set (orders_of (rest_seed s' sd p q e) s) \<Longrightarrow> ro \<in> set (orders_of e s) \<or> ro_accountID ro = ''market-maker''"
    for s' sd p q e
    by (auto simp: rest_seed_def nextOrderID_def Let_def orders_of_set_orders split: if_splits)
  have pair: "ro \<in> set (orders_of (seedPair s' e i) s) \<Longrightarrow> ro \<in> set (orders_of e s) \<or> ro_accountID ro = ''market-maker''"
    for s' e i using rest unfolding seedPair_rests by blast
  have pairs: "ro \<in> set (orders_of (foldl (seedPair s') e ks) s) \<Longrightarrow>
      ro \<in> set (orders_of e s) \<or> ro_accountID ro = ''market-maker''" for s' e ks
  proof (induction ks arbitrary: e)
    case (Cons k ks)
    then show ?case using pair [of s' e k] by auto
  qed simp
  have bk: "ro \<in> set (orders_of (seedBook e s') s) \<Longrightarrow> ro \<in> set (orders_of e s) \<or> ro_accountID ro = ''market-maker''" for s' e
    using pairs [of s' "snd (book e s')" "[1, 2, 3, 4, 5]"] by (simp add: seedBook_def)
  have "ro \<in> set (orders_of (foldl seedBook e syms) s) \<Longrightarrow> ro \<in> set (orders_of e s) \<or> ro_accountID ro = ''market-maker''" for e
  proof (induction syms arbitrary: e)
    case (Cons s' ss)
    then show ?case using bk [of e s'] by auto
  qed simp
  then show "ro \<in> set (orders_of (NewLocalEngine syms) s) \<Longrightarrow> ro_accountID ro = ''market-maker''"
    by (force simp: NewLocalEngine_def empty_engine_def orders_of_def)
qed

text \<open>
  The states of a process with the simulator: ticks, the pause switch, and calls of everyone who
  is not a bot, in any order, while the engine's counters have room.
\<close>

inductive sim_reach :: "'g marketSim \<Rightarrow> LocalEngine \<Rightarrow> bool" where
  start: "10 * int (length seeds) < 2 ^ 63 \<Longrightarrow> sim_reach (newMarketSim syms rng) (NewLocalEngine seeds)"
| tick: "sim_reach m e \<Longrightarrow> tick_ok tk \<Longrightarrow> counter_room (7 * length (ms_syms m)) e \<Longrightarrow>
    simStep tk (m, e) = (out, m', e') \<Longrightarrow> sim_reach m' e'"
| pause: "sim_reach m e \<Longrightarrow> sim_reach (snd (handleSimPause h rq m)) e"
| resume: "sim_reach m e \<Longrightarrow> sim_reach (snd (handleSimResume h rq m)) e"
| visitor: "sim_reach m e \<Longrightarrow> counter_room 1 e \<Longrightarrow> not_a_bot c \<Longrightarrow> sim_reach m (perform e c)"

lemma sim_inv_room: "sim_inv 0 t k me \<Longrightarrow> counter_room n (snd me) \<Longrightarrow> sim_inv n t k me"
  by (simp add: sim_inv_def)

lemma sim_reach_inv: "sim_reach m e \<Longrightarrow> sim_inv 0 t 6 (m, e)"
proof (induction rule: sim_reach.induct)
  case (start seeds syms rng)
  have "engine_inv 0 0 (NewLocalEngine seeds)" using start by (intro engine_inv_new) simp
  moreover have "bots_quoted (newMarketSim syms rng) (NewLocalEngine seeds)"
    using NewLocalEngine_owner [of _ seeds]
    by (force simp: bots_quoted_def simBots_def simMaker_def simTakerA_def simTakerB_def)
  moreover have "mids_in_band (newMarketSim syms rng)"
    by (auto simp: mids_in_band_def newMarketSim_def simMidStart_def split: if_splits)
  ultimately show ?case using finite_books_new by (simp add: sim_inv_def engine_inv_def quotes_of_def newMarketSim_def)
next
  case (tick m e tk out m' e')
  have "counter_room (7 * length (ms_syms m) + 0) (snd (m, e))" using tick.hyps(3) by simp
  from sim_inv_room [OF tick.IH this] have "sim_inv (7 * length (ms_syms (fst (m, e))) + 0) t 6 (m, e)"
    by (simp only: fst_conv)
  from simStep_inv [OF this tick.hyps(2)] show ?case by (simp only: tick.hyps(4) snd_conv)
next
  case (pause m e h rq)
  show ?case by (rule sim_inv_frame [OF _ _ pause.IH]) (simp_all add: handleSimPause_def)
next
  case (resume m e h rq)
  show ?case by (rule sim_inv_frame [OF _ _ resume.IH]) (simp_all add: handleSimResume_def)
next
  case (visitor m e c)
  have "counter_room 1 (snd (m, e))" using visitor.hyps(2) by simp
  from perform_sim_inv [OF sim_inv_room [OF visitor.IH this] visitor.hyps(3)] show ?case .
qed

lemma quoted_bound:
  assumes "book_ok os" and "\<forall>ro\<in>set os. P ro \<longrightarrow> ro_id ro \<in> set ids"
  shows "length (filter P os) \<le> length ids"
proof -
  have d: "distinct (map ro_id os)" using book_ok_ids [OF assms(1)] .
  have "distinct (map ro_id (filter P os))" using d by (rule distinct_map_filter)
  then have "length (filter P os) = card (set (map ro_id (filter P os)))" by (metis distinct_card length_map)
  also have "\<dots> \<le> card (set ids)" using assms(2) by (intro card_mono) auto
  also have "\<dots> \<le> length ids" by (rule card_length)
  finally show ?thesis .
qed

text \<open>C29: invariant, across the simulator and the engine. However long the bots run, whatever their
  random numbers, and whatever everyone else submits, cancels and reads in between, the fair value
  stays within its band, the simulator remembers at most six quotes per symbol, and the bots have
  at most six orders resting in each book, all of them the maker's: the book does not grow.\<close>

theorem simulator_book_stays_bounded:
  assumes "sim_reach m e"
  shows "books_ok e \<and> (\<forall>s mid. ms_mid m s = Some mid \<longrightarrow> 8000 \<le> sint mid \<and> sint mid \<le> 12000) \<and>
    (\<forall>s. length (quotes_of m s) \<le> 6 \<and>
      length (filter (\<lambda>ro. ro_accountID ro \<in> simBots) (orders_of e s)) \<le> 6 \<and>
      (\<forall>ro\<in>set (orders_of e s). ro_accountID ro \<in> simBots \<longrightarrow> ro_accountID ro = simMaker))"
proof -
  have "sim_inv 0 t 6 (m, e)" for t using sim_reach_inv [OF assms] .
  then have ok: "books_ok e" "mids_in_band m" "bots_quoted m e" and q: "\<And>t. length (quotes_of m t) \<le> 6"
    by (auto simp: sim_inv_def split: if_splits)
  have "length (filter (\<lambda>ro. ro_accountID ro \<in> simBots) (orders_of e s)) \<le> length (quotes_of m s)" for s
    using ok(3) by (intro quoted_bound [OF books_ok_book [OF ok(1)]]) (simp add: bots_quoted_def)
  then show ?thesis using ok q le_trans unfolding mids_in_band_def bots_quoted_def by blast
qed

definition sample_tick :: "(LocalEngine, nat) simTick" where
  "sample_tick = \<lparr>tk_eng = localOps, tk_ctxErr = None, tk_now = 1,
     tk_range = (\<lambda>e. sorted_list_of_set (dom (le_books e))), tk_intn = (\<lambda>n g. (g mod n, g + 1))\<rparr>"

theorem simulator_book_stays_bounded_witness:
  "length (quotes_of (fst (snd (simStep sample_tick (newMarketSim [''AAPL''] 3, NewLocalEngine [''AAPL''])))) ''AAPL'') \<le> 6"
proof -
  have start': "sim_reach (newMarketSim [''AAPL''] (3 :: nat)) (NewLocalEngine [''AAPL''])"
    by (rule start) simp
  have tk: "tick_ok sample_tick"
    by (simp add: tick_ok_def sample_tick_def range_keys_def finite_books_def)
  have room: "counter_room (7 * length (ms_syms (newMarketSim [''AAPL''] (3 :: nat)))) (NewLocalEngine [''AAPL''])"
    using engine_inv_new [of "[''AAPL'']" 7] by (simp add: newMarketSim_def engine_inv_def)
  obtain out m' e' where st: "simStep sample_tick (newMarketSim [''AAPL''] 3, NewLocalEngine [''AAPL'']) = (out, m', e')"
    by (metis prod_cases3)
  show ?thesis using simulator_book_stays_bounded [OF tick [OF start' tk room st]] by (simp add: st)
qed

end
