(* ===== verification/System.thy ===== *)
theory System
  imports WiringProps SimulatorProps
begin

text \<open>
  What a request through the whole chain, a fan-out goroutine and a tick of the simulator do to the
  parts of the gateway with the in-process engine. The engine's invariant, with the room its counters
  and its ledger have left, goes through each.
\<close>

section \<open>Relations a chain keeps\<close>

definition relates :: "('a \<Rightarrow> 'a \<Rightarrow> bool) \<Rightarrow> ('f \<times> 'a) handler \<Rightarrow> HttpRequest \<Rightarrow> bool" where
  "relates R hnd rq \<longleftrightarrow> (\<forall>h st. R (snd st) (snd (snd (hnd h rq st))))"

lemma relates_metered:
  assumes "\<And>a. R a a" and "\<And>h a. R a (snd (hnd h rq a))"
  shows "relates R (rateMiddleware now hnd) rq"
  using assms by (simp add: relates_def limited_state)

lemma relates_open: "(\<And>h a. R a (snd (hnd h rq a))) \<Longrightarrow> relates R (unmetered hnd) rq"
  by (simp add: relates_def unmetered_def case_prod_beta Let_def)

lemma jwt_state:
  assumes "\<And>a. R a a" and "\<And>h a acct. R a (snd (hnd h (rq\<lparr>rq_account := acct\<rparr>) a))"
  shows "R a (snd (jwtMiddleware jw secret now hnd h rq a))"
  using assms by (simp add: jwtMiddleware_def Let_def split: sum.split)

lemma relates_guarded:
  assumes "\<And>a. R a a" and "\<And>h a acct. R a (snd (hnd h (rq\<lparr>rq_account := acct\<rparr>) a))"
  shows "relates R (protect jw secret now hnd) rq"
  unfolding protect_def
proof (rule relates_metered)
  show "R a (snd (jwtMiddleware jw secret now hnd h rq a))" for h a
    by (rule jwt_state) (rule assms)+
qed (rule assms)

lemma relates_mux:
  assumes "\<And>a. R a a" and "\<And>r f. r \<in> set rs \<Longrightarrow> relates R (snd (snd r)) (rq\<lparr>rq_path := f\<rparr>)"
  shows "relates R (ServeMux rs path) rq"
proof (cases "find (\<lambda>r. methodMatches (fst r) (rq_method rq) \<and> matchSegs (fst (snd r)) path \<noteq> None) rs")
  case None
  then show ?thesis using assms(1) by (simp add: relates_def ServeMux_def)
next
  case (Some r)
  then have "r \<in> set rs" by (auto simp: find_Some_iff)
  then show ?thesis using Some assms(2) [of r] by (simp add: relates_def ServeMux_def)
qed

lemma relates_mux_hit:
  assumes "\<And>a. R a a" and "\<And>r f. r \<in> set rs \<Longrightarrow> methodMatches (fst r) (rq_method rq) \<Longrightarrow> matchSegs (fst (snd r)) path \<noteq> None \<Longrightarrow>
    relates R (snd (snd r)) (rq\<lparr>rq_path := f\<rparr>)"
  shows "relates R (ServeMux rs path) rq"
proof (cases "find (\<lambda>r. methodMatches (fst r) (rq_method rq) \<and> matchSegs (fst (snd r)) path \<noteq> None) rs")
  case None
  then show ?thesis using assms(1) by (simp add: relates_def ServeMux_def)
next
  case (Some r)
  then have "r \<in> set rs" "methodMatches (fst r) (rq_method rq)" "matchSegs (fst (snd r)) path \<noteq> None"
    by (auto simp: find_Some_iff)
  then show ?thesis using Some assms(2) [of r] by (simp add: relates_def ServeMux_def)
qed

lemma relates_chain:
  assumes "\<And>a. R a a" and "\<And>r f. r \<in> set (Routes g rc (ap_sim (snd st))) \<Longrightarrow> relates R (snd (snd r)) (rq\<lparr>rq_path := f\<rparr>)"
  shows "R (snd st) (snd (snd (gatewayHandler g rc path h rq st)))"
proof (cases rule: gatewayHandler_cases [where g = g and rc = rc and path = path and h = h and rq = rq and st = st])
  case preflight
  then show ?thesis using assms(1) by simp
next
  case (routed h')
  have "relates R (ServeMux (Routes g rc (ap_sim (snd st))) path) rq" using assms by (rule relates_mux)
  then show ?thesis unfolding routed(2) relates_def by blast
qed

text \<open>
  So a reflexive relation that the trading handlers and the WebSocket endpoint keep, for whatever
  account and path values they are called with, is kept by a request through the whole chain.
\<close>

lemma relates_rules:
  assumes "\<And>a. R a a"
  shows "(\<And>h a acct. R a (snd (hnd h (rq\<lparr>rq_account := acct\<rparr>) a))) \<Longrightarrow> relates R (protect jw secret now hnd) rq"
    and "(\<And>h a. R a (snd (hnd h rq a))) \<Longrightarrow> relates R (rateMiddleware now hnd) rq"
    and "(\<And>h a. R a (snd (hnd h rq a))) \<Longrightarrow> relates R (unmetered hnd) rq"
  by (rule relates_guarded relates_metered relates_open, simp_all add: assms)+

lemma lifted_world:
  "ap_world (snd (on_world hnd h rq a)) = snd (hnd h rq (ap_world a))"
  "ap_world (snd (on_auth hnd' h rq a)) = ap_world a" "ap_world (snd (on_sim hnd'' m h rq a)) = ap_world a"
  by (simp_all add: on_world_def on_auth_def on_sim_def case_prod_beta Let_def)

lemma handleHealth_world [simp]: "snd (handleHealth s h rq w) = w"
  by (simp add: handleHealth_def)

lemma chain_world:
  assumes refl: "\<And>w. R w w"
    and "\<And>h w acct f. R w (snd (handleSubmit (gw_server g) (rc_api rc) h (rq\<lparr>rq_path := f, rq_account := acct\<rparr>) w))"
    and "\<And>h w acct f. R w (snd (handleCancel (gw_server g) (rc_api rc) h (rq\<lparr>rq_path := f, rq_account := acct\<rparr>) w))"
    and "\<And>h w acct f. R w (snd (handleBook (gw_server g) (rc_api rc) h (rq\<lparr>rq_path := f, rq_account := acct\<rparr>) w))"
    and "\<And>h w acct f. R w (snd (handleWS rc h (rq\<lparr>rq_path := f, rq_account := acct\<rparr>) w))"
  shows "R (ap_world (snd st)) (ap_world (snd (snd (gatewayHandler g rc path h rq st))))"
proof (rule relates_chain [where R = "\<lambda>a a'. R (ap_world a) (ap_world a')"])
  note rules = relates_rules [where R = "\<lambda>a a'. R (ap_world a) (ap_world a')", OF refl]
  fix r f assume r: "r \<in> set (Routes g rc (ap_sim (snd st)))"
  show "relates (\<lambda>a a'. R (ap_world a) (ap_world a')) (snd (snd r)) (rq\<lparr>rq_path := f\<rparr>)"
    using r
    by (auto simp: Routes_def Let_def lifted_world refl demo_exchange intro!: rules assms split: if_splits option.splits)
qed (rule refl)

lemma lit_path: "matchSegs [Lit a] path \<noteq> None \<longleftrightarrow> path = [a]"
proof (cases path)
  case (Cons x xs)
  then show ?thesis by (cases xs) simp_all
qed simp

text \<open>A request that is not POST /orders never reaches the handler of the orders.\<close>

lemma chain_world_no_order:
  assumes refl: "\<And>w. R w w" and other: "path \<noteq> [''orders''] \<or> rq_method rq \<noteq> ''POST''"
    and "\<And>h w acct f. R w (snd (handleCancel (gw_server g) (rc_api rc) h (rq\<lparr>rq_path := f, rq_account := acct\<rparr>) w))"
    and "\<And>h w acct f. R w (snd (handleBook (gw_server g) (rc_api rc) h (rq\<lparr>rq_path := f, rq_account := acct\<rparr>) w))"
    and "\<And>h w acct f. R w (snd (handleWS rc h (rq\<lparr>rq_path := f, rq_account := acct\<rparr>) w))"
  shows "R (ap_world (snd st)) (ap_world (snd (snd (gatewayHandler g rc path h rq st))))"
proof (cases rule: gatewayHandler_cases [where g = g and rc = rc and path = path and h = h and rq = rq and st = st])
  case preflight
  then show ?thesis by (simp add: refl)
next
  case (routed h')
  note rules = relates_rules [where R = "\<lambda>a a'. R (ap_world a) (ap_world a')", OF refl]
  have "relates (\<lambda>a a'. R (ap_world a) (ap_world a')) (ServeMux (Routes g rc (ap_sim (snd st))) path) rq"
  proof (rule relates_mux_hit [where R = "\<lambda>a a'. R (ap_world a) (ap_world a')"])
    fix r f assume r: "r \<in> set (Routes g rc (ap_sim (snd st)))" "methodMatches (fst r) (rq_method rq)" "matchSegs (fst (snd r)) path \<noteq> None"
    have "\<not> (fst r = ''POST'' \<and> fst (snd r) = [Lit ''orders''])"
    proof
      assume h: "fst r = ''POST'' \<and> fst (snd r) = [Lit ''orders'']"
      then have "rq_method rq = ''POST''" using r(2) by (simp add: methodMatches_def)
      moreover have "path = [''orders'']" using r(3) unfolding conjunct2 [OF h] by (rule lit_path [THEN iffD1])
      ultimately show False using other by simp
    qed
    then have "fst r \<noteq> ''POST'' \<or> fst (snd r) \<noteq> [Lit ''orders'']" by blast
    then show "relates (\<lambda>a a'. R (ap_world a) (ap_world a')) (snd (snd r)) (rq\<lparr>rq_path := f\<rparr>)"
      using r(1)
      by (auto simp: Routes_def Let_def lifted_world refl demo_exchange intro!: rules assms(3-5) split: if_splits option.splits)
  qed (rule refl)
  then show ?thesis unfolding routed(2) relates_def by blast
qed

section \<open>A request costs at most one engine call\<close>

text \<open>The engine afterwards is the engine before, or after one call of at most this volume.\<close>

definition one_call :: "int \<Rightarrow> LocalEngine \<Rightarrow> LocalEngine \<Rightarrow> bool" where
  "one_call v e e' \<longleftrightarrow> (\<exists>cs. e' = run e cs \<and> length cs \<le> 1 \<and> volume cs \<le> v)"

lemma one_call_refl: "0 \<le> v \<Longrightarrow> one_call v e e"
  unfolding one_call_def by (rule exI [of _ "[]"]) (simp add: volume_def)

lemma volume_single [simp]: "volume [] = 0" "volume [c] = call_volume c"
  by (simp_all add: volume_def)

definition requestVolume :: "('s, 'r, 'w) Server \<Rightarrow> HttpRequest \<Rightarrow> int" where
  "requestVolume s rq = (case srv_decodeOrder s (rq_body rq) of Inl err \<Rightarrow> 0 | Inr o0 \<Rightarrow> order_volume o0)"

lemma requestVolume_nonneg [simp]: "0 \<le> requestVolume s rq"
  by (simp add: requestVolume_def split: sum.split)

lemma requestVolume_frame [simp]:
  "requestVolume s (rq\<lparr>rq_account := a\<rparr>) = requestVolume s rq" "requestVolume s (rq\<lparr>rq_path := f\<rparr>) = requestVolume s rq"
  "requestVolume (s\<lparr>srv_risk := r\<rparr>) rq = requestVolume s rq"
  by (simp_all add: requestVolume_def)

lemma order_volume_attributed [simp]: "order_volume (attributed rq o0) = order_volume o0"
  by (simp add: attributed_def order_volume_def passes_guards_def)

lemma submitCall_cost: "length (submitCall s ch rq) \<le> 1 \<and> volume (submitCall s ch rq) \<le> requestVolume s rq"
  by (simp add: submitCall_def requestVolume_def call_volume_def split: sum.split)

lemma handlers_one_call:
  assumes "srv_eng s = localOps" and v: "0 \<le> v"
  shows "requestVolume s rq \<le> v \<Longrightarrow> one_call v (wd_engine w) (wd_engine (snd (handleSubmit s ch h rq w)))"
    and "one_call v (wd_engine w) (wd_engine (snd (handleCancel s ch h rq w)))"
    and "one_call v (wd_engine w) (wd_engine (snd (handleBook s ch h rq w)))"
    and "one_call v (wd_engine w) (wd_engine (snd (handleAccount s ch h rq w)))"
    and "one_call v (wd_engine w) (wd_engine (snd (handleWS rc h rq w)))"
proof -
  have free: "one_call v (wd_engine w) (run (wd_engine w) cs)" if "length cs \<le> 1" "volume cs \<le> v" for cs
    unfolding one_call_def using that by blast
  have reads: "length (bookCall s ch sy d w) \<le> 1 \<and> volume (bookCall s ch sy d w) \<le> v" for sy d
    using v by (auto simp: bookCall_def call_volume_def split: option.split prod.split)
  show "requestVolume s rq \<le> v \<Longrightarrow> one_call v (wd_engine w) (wd_engine (snd (handleSubmit s ch h rq w)))"
    unfolding handleSubmit_engine [OF assms(1)] using submitCall_cost [of s ch rq] by (intro free) auto
  show "one_call v (wd_engine w) (wd_engine (snd (handleCancel s ch h rq w)))"
    unfolding handleCancel_engine [OF assms(1)] using v by (intro free) (auto simp: call_volume_def)
  show "one_call v (wd_engine w) (wd_engine (snd (handleBook s ch h rq w)))"
    unfolding handleBook_engine [OF assms(1)] using v reads by (intro free) auto
  show "one_call v (wd_engine w) (wd_engine (snd (handleAccount s ch h rq w)))"
    using one_call_refl [OF v] by simp
  show "one_call v (wd_engine w) (wd_engine (snd (handleWS rc h rq w)))"
    using one_call_refl [OF v] by (simp add: handleWS_def split: option.split)
qed

definition engine_of :: "('s, 'r, 'w, 'u, 'g) App \<Rightarrow> 's" where
  "engine_of a = wd_engine (ap_world a)"

lemma request_one_call:
  assumes "srv_eng (gw_server g) = localOps"
  shows "one_call (requestVolume (gw_server g) rq) (engine_of (snd st))
    (engine_of (snd (snd (gatewayHandler g rc path h rq st))))"
  unfolding engine_of_def
  by (rule chain_world [where R = "\<lambda>w w'. one_call (requestVolume (gw_server g) rq) (wd_engine w) (wd_engine w')"])
    (simp_all add: one_call_refl handlers_one_call [OF assms requestVolume_nonneg])

section \<open>A tick costs at most seven submits per symbol\<close>

lemma engine_inv_mono:
  assumes "engine_inv n V e" and "m \<le> n" and "V \<le> W"
  shows "engine_inv m W e"
  using assms counter_room_le ledger_ok_mono unfolding engine_inv_def by blast

lemma engine_inv_submit:
  assumes "engine_inv (Suc n) V e" and "order_volume o' \<le> v" and "V + v < 2 ^ 63"
  shows "engine_inv n (V + v) (snd (SubmitOrder e ctxErr o' now))"
proof -
  have "engine_inv n (V + order_volume o') (perform e (Submit ctxErr o' now))"
    using engine_inv_perform [OF assms(1), of "Submit ctxErr o' now"] assms(2,3) by (simp add: call_volume_def)
  then show ?thesis using engine_inv_mono [of n _ _ n "V + v"] assms(2) by simp
qed

text \<open>Cancelling and reading cost nothing.\<close>

lemma engine_inv_free:
  assumes "engine_inv n V e"
  shows "engine_inv n V (snd (CancelOrder e ctxErr c syms))" and "engine_inv n V (snd (GetBook e ctxErr r now bk ak))"
proof -
  have e: "books_ok e" "counter_room (0 + n) e" "ledger_ok V (le_accounts e)" using assms by (simp_all add: engine_inv_def)
  note c = CancelOrder_books [OF e(1), of ctxErr c syms] and g = GetBook_books [OF e(1), of ctxErr r now bk ak]
  show "engine_inv n V (snd (CancelOrder e ctxErr c syms))"
    using c(1) draws_room [OF c(2) e(2)] e(3) by (simp add: engine_inv_def CancelOrder_accounts)
  show "engine_inv n V (snd (GetBook e ctxErr r now bk ak))"
    using g(1) draws_room [OF g(2) e(2)] e(3) by (simp add: engine_inv_def GetBook_accounts)
qed

text \<open>\<open>Intn(n)\<close> is below \<open>n\<close>.\<close>

definition tick_local :: "(LocalEngine, 'g) simTick \<Rightarrow> bool" where
  "tick_local tk \<longleftrightarrow> tk_eng tk = localOps \<and> (\<forall>n g. 0 < n \<longrightarrow> fst (tk_intn tk n g) < n)"

lemma draw_bound: "tick_local tk \<Longrightarrow> 0 < n \<Longrightarrow> fst (draw tk n m) < n"
  by (simp add: tick_local_def draw_def case_prod_beta Let_def)

lemma small_quantity: "k < 40 \<Longrightarrow> sint (10 + of_nat k :: i64) \<le> 49" "k < 20 \<Longrightarrow> sint (5 + of_nat k :: i64) \<le> 24"
proof -
  have s: "sint (of_nat j :: i64) = int j" if "j < 100" for j
    using sint_i64_eq [of "int j"] that by simp
  show "k < 40 \<Longrightarrow> sint (10 + of_nat k :: i64) \<le> 49" using s [of "10 + k"] by simp
  show "k < 20 \<Longrightarrow> sint (5 + of_nat k :: i64) \<le> 24" using s [of "5 + k"] by simp
qed

lemma simOrder_volume: "sint qty \<le> v \<Longrightarrow> 0 \<le> v \<Longrightarrow> order_volume (simOrder acct s sd ty price qty) \<le> v"
  by (simp add: order_volume_def simOrder_def)

lemma cancelQuotes_engine:
  "tick_local tk \<Longrightarrow> engine_inv n V e \<Longrightarrow> engine_inv n V (cancelQuotes tk s ids e)"
  by (induction ids arbitrary: e) (simp_all add: tick_local_def engine_inv_free)

lemma postQuote_engine:
  assumes "tick_local tk" and "engine_inv (Suc n) V (snd me)" and "sint qty \<le> 49" and "V + 49 < 2 ^ 63"
  shows "engine_inv n (V + 49) (snd (postQuote tk s sd price qty me))"
proof -
  have "order_volume (simOrder simMaker s sd OrderTypeLimit price qty) \<le> 49"
    using assms(3) by (intro simOrder_volume) simp_all
  from engine_inv_submit [OF assms(2) this assms(4)] show ?thesis
    using assms(1) by (simp add: postQuote_def tick_local_def split: prod.split sum.split) (metis snd_conv)
qed

lemma postLevel_engine:
  assumes tk: "tick_local tk" and inv: "engine_inv (Suc (Suc n)) V (snd me)" and V: "V + 98 < 2 ^ 63"
  shows "engine_inv n (V + 98) (snd (postLevel tk s mid i me))"
proof -
  obtain k m where d: "draw tk 40 (fst me) = (k, m)" by force
  let ?qty = "10 + of_nat k :: i64"
  have q: "sint ?qty \<le> 49" using draw_bound [OF tk, of 40 "fst me"] d by (intro small_quantity) simp
  have "engine_inv (Suc n) (V + 49) (snd (postQuote tk s SideBuy (mid - i) ?qty (m, snd me)))"
    using inv V by (intro postQuote_engine [OF tk _ q]) simp_all
  from postQuote_engine [OF tk this q, of s SideSell "mid + i"] V show ?thesis by (simp add: postLevel_def d Let_def add.commute)
qed

lemma postLevels_engine:
  assumes tk: "tick_local tk" and inv: "engine_inv (n + 6) V (snd me)" and V: "V + 294 < 2 ^ 63"
  shows "engine_inv n (V + 294) (snd (postLevels tk s mid me))"
proof -
  have lv: "postLevels tk s mid me = postLevel tk s mid 3 (postLevel tk s mid 2 (postLevel tk s mid 1 me))"
    by (simp add: postLevels_def simLevels_def upt_rec)
  have "engine_inv (Suc (Suc (n + 4))) V (snd me)" using inv by (simp add: numeral_eq_Suc)
  from postLevel_engine [OF tk this, of s mid 1] V
  have "engine_inv (Suc (Suc (n + 2))) (V + 98) (snd (postLevel tk s mid 1 me))" by (simp add: numeral_eq_Suc)
  from postLevel_engine [OF tk this, of s mid 2] V
  have "engine_inv (Suc (Suc n)) (V + 196) (snd (postLevel tk s mid 2 (postLevel tk s mid 1 me)))"
    by (simp add: numeral_eq_Suc add.assoc)
  from postLevel_engine [OF tk this, of s mid 3] V show ?thesis unfolding lv by (simp add: add.assoc)
qed

lemma takerTurn_engine:
  assumes tk: "tick_local tk" and inv: "engine_inv (Suc n) V (snd me)" and V: "V + 24 < 2 ^ 63"
  shows "engine_inv n (V + 24) (snd (snd (takerTurn tk s me)))"
proof -
  obtain k m where d: "draw tk 100 (fst me) = (k, m)" by force
  obtain o' m1 where o': "takerOrder tk s m = (o', m1)" by force
  have "\<exists>acct sd j. o' = simOrder acct s sd OrderTypeMarket 0 (5 + of_nat j) \<and> j < 20"
    using o' draw_bound [OF tk, of 20] by (auto simp: takerOrder_def case_prod_beta Let_def split: if_splits)
  then have "order_volume o' \<le> 24" using small_quantity(2) simOrder_volume by auto
  from engine_inv_submit [OF inv this V, of "tk_ctxErr tk" "tk_now tk"]
  have sub: "engine_inv n (V + 24) (snd (SubmitOrder (snd me) (tk_ctxErr tk) o' (tk_now tk)))" .
  have "engine_inv n (V + 24) (snd me)" by (rule engine_inv_mono [OF inv]) simp_all
  then show ?thesis using sub tk
    by (auto simp: takerTurn_def d o' Let_def tick_local_def split: prod.split sum.split)
qed

lemma stepSymbol_engine:
  assumes tk: "tick_local tk" and inv: "engine_inv (7 + n) V (snd me)" and V: "V + 318 < 2 ^ 63"
  shows "engine_inv n (V + 318) (snd (snd (stepSymbol tk s me)))"
proof -
  obtain mid m1 where w: "walkMid tk s (fst me) = (mid, m1)" by force
  let ?me = "(m1\<lparr>ms_quotes := (ms_quotes m1)(s \<mapsto> [])\<rparr>, cancelQuotes tk s (quotes_of m1 s) (snd me))"
  have "engine_inv (Suc n + 6) V (snd ?me)" using cancelQuotes_engine [OF tk inv] by simp
  from postLevels_engine [OF tk this, of s mid] V
  have "engine_inv (Suc n) (V + 294) (snd (postLevels tk s mid ?me))" by simp
  from takerTurn_engine [OF tk this, of s] V show ?thesis
    by (simp add: stepSymbol_def w Let_def add.assoc)
qed

lemma stepSymbols_engine:
  assumes tk: "tick_local tk" and "engine_inv (7 * length ss + n) V (snd me)"
    and "V + 318 * int (length ss) < 2 ^ 63"
  shows "engine_inv n (V + 318 * int (length ss)) (snd (snd (stepSymbols tk ss me)))"
  using assms(2,3)
proof (induction ss arbitrary: V me)
  case (Cons s ss)
  have inv: "engine_inv (7 + (7 * length ss + n)) V (snd me)" using Cons.prems(1) by (simp add: algebra_simps)
  have "V + 318 < 2 ^ 63" using Cons.prems(2) by simp
  from stepSymbol_engine [OF tk inv this, of s]
  have "engine_inv n (V + 318 + 318 * int (length ss)) (snd (snd (stepSymbols tk ss (snd (stepSymbol tk s me)))))"
    using Cons.prems(2) by (intro Cons.IH) (simp_all add: algebra_simps)
  then show ?case by (simp add: case_prod_beta Let_def algebra_simps)
qed simp

definition tickVolume :: "'g marketSim \<Rightarrow> int" where
  "tickVolume m = 318 * int (length (ms_syms m))"

lemma simStep_engine:
  assumes tk: "tick_local tk" and inv: "engine_inv (7 * length (ms_syms m) + n) V e" and V: "V + tickVolume m < 2 ^ 63"
  shows "engine_inv n (V + tickVolume m) (snd (snd (simStep tk (m, e))))"
proof (cases "ms_paused m")
  case True
  then show ?thesis using engine_inv_mono [OF inv, of n] by (simp add: simStep_def tickVolume_def)
next
  case False
  then show ?thesis
    using stepSymbols_engine [OF tk, of "ms_syms m" n V "(m, e)"] inv V by (simp add: simStep_def tickVolume_def)
qed

lemma refreshBooks_engine:
  assumes "srv_eng s = localOps" and "engine_inv n V (wd_engine w)"
  shows "engine_inv n V (wd_engine (refreshBooks s ch xs w))"
  using assms(2)
proof (induction xs arbitrary: w)
  case (Cons x xs)
  have "engine_inv n V (wd_engine (broadcastBook s (ch x) x w))"
    using Cons.prems unfolding broadcastBook_engine [OF assms(1)] bookCall_def
    by (simp add: engine_inv_free split: option.split prod.split)
  from Cons.IH [OF this] show ?case by simp
qed simp

lemma runTask_engine:
  assumes "srv_eng s = localOps" and "engine_inv n V (wd_engine w)"
  shows "engine_inv n V (wd_engine (runTask s ch k w))"
  using assms(2) serve_engine [OF assms(1), of "RunFanOut ch k" w]
  by (simp add: bookCall_def engine_inv_free split: option.split prod.split)

lemma broadcastBatches_engine [simp]: "wd_engine (broadcastBatches s bs w) = wd_engine w"
  by (induction s bs w rule: broadcastBatches.induct) simp_all

lemma simTurn_engine:
  assumes "srv_eng s = localOps" and "tick_local tk" and "engine_inv (7 * length (ms_syms m) + n) V (wd_engine w)"
    and "V + tickVolume m < 2 ^ 63"
  shows "engine_inv n (V + tickVolume m) (wd_engine (snd (simTurn s tk ch syms (m, w))))"
proof -
  obtain bs m' e where st: "simStep tk (m, wd_engine w) = (bs, m', e)" by (metis prod_cases3)
  have "engine_inv n (V + tickVolume m) e" using simStep_engine [OF assms(2-4)] st by simp
  then show ?thesis by (simp add: simTurn_def st Let_def refreshBooks_engine [OF assms(1)])
qed

end
