(* ===== verification/Metrics.thy ===== *)
theory Metrics
  imports WiringProps
begin

text \<open>
  The Prometheus instruments of \<open>gateway/internal/metrics/metrics.go\<close> and what they read. The
  program's updates are the list of a world's \<open>wd_metrics\<close>, oldest first; the value of a counter is
  the number of its updates. The registry is the client library's: registering an instrument whose
  name is invalid or already taken panics, as documented. The library's default buckets are an
  argument.
\<close>

section \<open>The instruments\<close>

datatype 'f instrumentKind = CounterKind | GaugeKind | HistogramKind "'f list"

record 'f instrument =
  in_Name :: string
  in_Help :: string
  in_Kind :: "'f instrumentKind"
  in_Labels :: "string list"

definition OrderSubmitTotal :: "'f instrument" where
  "OrderSubmitTotal = \<lparr>in_Name = ''oex_gateway_order_submit_total'',
     in_Help = ''Total order submissions, labelled by outcome status.'', in_Kind = CounterKind, in_Labels = [''status'']\<rparr>"

definition OrderLatencySeconds :: "'f list \<Rightarrow> 'f instrument" where
  "OrderLatencySeconds defBuckets = \<lparr>in_Name = ''oex_gateway_order_latency_seconds'',
     in_Help = ''End-to-end order submission latency in seconds.'', in_Kind = HistogramKind defBuckets, in_Labels = []\<rparr>"

definition RiskGateRejectTotal :: "'f instrument" where
  "RiskGateRejectTotal = \<lparr>in_Name = ''oex_gateway_risk_gate_reject_total'',
     in_Help = ''Orders rejected by the in-memory risk gate (velocity / exposure limit).'', in_Kind = CounterKind, in_Labels = []\<rparr>"

definition WSClientsGauge :: "'f instrument" where
  "WSClientsGauge = \<lparr>in_Name = ''oex_gateway_ws_clients'',
     in_Help = ''Current number of connected WebSocket clients.'', in_Kind = GaugeKind, in_Labels = []\<rparr>"

definition TradesBroadcastTotal :: "'f instrument" where
  "TradesBroadcastTotal = \<lparr>in_Name = ''oex_gateway_trades_broadcast_total'',
     in_Help = ''Trade events broadcast to WebSocket clients.'', in_Kind = CounterKind, in_Labels = []\<rparr>"

definition RiskSignalsTotal :: "'f instrument" where
  "RiskSignalsTotal = \<lparr>in_Name = ''oex_gateway_risk_signals_total'',
     in_Help = ''Risk signals consumed from the risk-signals Kafka topic.'', in_Kind = CounterKind, in_Labels = [''action'']\<rparr>"

text \<open>Registering one instrument after the other on the default registry, or the panic.\<close>

definition name_char :: "char \<Rightarrow> bool" where
  "name_char c \<longleftrightarrow> c \<in> set ''abcdefghijklmnopqrstuvwxyzABCDEFGHIJKLMNOPQRSTUVWXYZ_:0123456789''"

definition validName :: "string \<Rightarrow> bool" where
  "validName s \<longleftrightarrow> (case s of [] \<Rightarrow> False | c # cs \<Rightarrow> list_all name_char s \<and> \<not> is_digit c)"

fun registerAll :: "'f instrument list \<Rightarrow> 'f instrument list \<Rightarrow> error + 'f instrument list" where
  "registerAll [] reg = Inr reg"
| "registerAll (i # is) reg =
     (if \<not> validName (in_Name i) then Inl ''descriptor is invalid''
      else if in_Name i \<in> in_Name ` set reg then Inl ''duplicate metrics collector registration attempted''
      else registerAll is (reg @ [i]))"

definition gatewayInstruments :: "'f list \<Rightarrow> 'f instrument list" where
  "gatewayInstruments defBuckets = [OrderSubmitTotal, OrderLatencySeconds defBuckets, RiskGateRejectTotal,
     WSClientsGauge, TradesBroadcastTotal, RiskSignalsTotal]"

lemmas instrument_defs = OrderSubmitTotal_def OrderLatencySeconds_def RiskGateRejectTotal_def WSClientsGauge_def
  TradesBroadcastTotal_def RiskSignalsTotal_def

text \<open>Importing the package never panics.\<close>

lemma instruments_register: "registerAll (gatewayInstruments bs) [] = Inr (gatewayInstruments bs)"
  by (simp add: gatewayInstruments_def instrument_defs validName_def name_char_def is_digit_def)

section \<open>Reading the counters\<close>

definition submitTotal :: "string \<Rightarrow> metric list \<Rightarrow> nat" where
  "submitTotal status ms = count_list ms (OrderSubmitted status)"

definition submits :: "metric list \<Rightarrow> string list" where
  "submits ms = concat (map (\<lambda>m. case m of OrderSubmitted s \<Rightarrow> [s] | _ \<Rightarrow> []) ms)"

definition latencyCount :: "metric list \<Rightarrow> nat" where
  "latencyCount ms = count_list ms OrderLatency"

definition riskRejects :: "metric list \<Rightarrow> nat" where
  "riskRejects ms = count_list ms RiskGateReject"

definition signalActions :: "metric list \<Rightarrow> string list" where
  "signalActions ms = concat (map (\<lambda>m. case m of SignalCounted a \<Rightarrow> [a] | _ \<Rightarrow> []) ms)"

lemma submits_append [simp]: "submits [] = []" "submits (ms @ ms') = submits ms @ submits ms'"
  by (simp_all add: submits_def)

lemma signalActions_append [simp]: "signalActions [] = []" "signalActions (ms @ ms') = signalActions ms @ signalActions ms'"
  by (simp_all add: signalActions_def)

text \<open>The labels the handler can produce with the in-process engine.\<close>

definition outcomeLabels :: "string set" where
  "outcomeLabels = {StatusAccepted, StatusPartiallyFilled, StatusFilled, StatusRejected, ''gateway_error'', ''risk_blocked''}"

text \<open>Updates that keep the instruments consistent with each other.\<close>

definition balanced :: "metric list \<Rightarrow> bool" where
  "balanced ms \<longleftrightarrow> latencyCount ms = length (submits ms) \<and> riskRejects ms = submitTotal ''risk_blocked'' ms \<and>
     set (submits ms) \<subseteq> outcomeLabels"

lemma balanced_append: "balanced ms \<Longrightarrow> balanced ms' \<Longrightarrow> balanced (ms @ ms')"
  by (simp add: balanced_def latencyCount_def riskRejects_def submitTotal_def)

lemma balanced_nil [simp]: "balanced []"
  by (simp add: balanced_def latencyCount_def riskRejects_def submitTotal_def)

lemma balanced_others [simp]: "balanced [TradeBroadcast]" "balanced [SignalCounted a]"
  by (simp_all add: balanced_def latencyCount_def riskRejects_def submitTotal_def submits_def)

text \<open>The step from \<open>w\<close> to \<open>w'\<close> made balanced updates, which count orders under the labels \<open>ls\<close>.\<close>

definition counts_balanced :: "string list \<Rightarrow> ('s, 'r, 'w) World \<Rightarrow> ('s, 'r, 'w) World \<Rightarrow> bool" where
  "counts_balanced ls w w' \<longleftrightarrow>
     (\<exists>ms. wd_metrics w' = wd_metrics w @ ms \<and> balanced ms \<and> submits ms = ls \<and> signalActions ms = [])"

lemma counts_balanced_refl: "wd_metrics w' = wd_metrics w \<Longrightarrow> counts_balanced [] w w'"
  by (auto simp: counts_balanced_def)

lemma counts_balanced_trans: "counts_balanced [] w w' \<Longrightarrow> counts_balanced [] w' w'' \<Longrightarrow> counts_balanced [] w w''"
  unfolding counts_balanced_def by (metis append_assoc append_Nil balanced_append signalActions_append(2) submits_append(2))

lemma submitLocked_status:
  "ack_Status (fst (submitLocked oid o' now e)) \<in> {StatusAccepted, StatusPartiallyFilled, StatusFilled, StatusRejected}"
proof -
  have "\<exists>t q f r. ack_Status (fst (submitLocked oid o' now e)) = statusFor t q f r"
    by (auto simp: submitLocked_def case_prod_beta Let_def)
  then show ?thesis using statusFor_range by metis
qed

lemma local_status:
  assumes "fst (SubmitOrder e ctxErr o' now) = Inr ack"
  shows "ack_Status ack \<in> {StatusAccepted, StatusPartiallyFilled, StatusFilled, StatusRejected}"
proof (cases rule: SubmitOrder_cases [where ctxErr = ctxErr and o' = o'])
  case (err err)
  then show ?thesis using assms by (simp add: SubmitOrder_err)
next
  case refused
  then show ?thesis using assms by (auto simp: SubmitOrder_refused)
next
  case locked
  then have "ack = fst (submitLocked (fst (nextOrderID e)) o' now (snd (nextOrderID e)))"
    using assms by (simp add: SubmitOrder_locked)
  then show ?thesis using submitLocked_status by simp
qed

text \<open>Every acknowledgement of the engine has an order id; the gate's refusal has none.\<close>

lemma local_id:
  assumes "fst (SubmitOrder e ctxErr o' now) = Inr ack"
  shows "ack_OrderID ack \<noteq> ''''"
proof (cases rule: SubmitOrder_cases [where ctxErr = ctxErr and o' = o'])
  case (err err)
  then show ?thesis using assms by (simp add: SubmitOrder_err)
next
  case refused
  then show ?thesis using assms by (auto simp: SubmitOrder_refused nextOrderID_def)
next
  case locked
  then have "ack = fst (submitLocked (fst (nextOrderID e)) o' now (snd (nextOrderID e)))"
    using assms by (simp add: SubmitOrder_locked)
  then show ?thesis by (auto simp: submitLocked_def nextOrderID_def case_prod_beta Let_def)
qed

text \<open>
  Under which label an answer of POST /orders says that the order was decided: by the gate, by the
  engine, or not at all because the engine failed. An answer without a decision has no label.
\<close>

definition orderLabel :: "Response \<Rightarrow> string list" where
  "orderLabel rsp =
     (case rsp_body rsp of
        AckBody ack \<Rightarrow> [if ack_OrderID ack = '''' then ''risk_blocked'' else ack_Status ack]
      | _ \<Rightarrow> if rsp_status rsp = 502 then [''gateway_error''] else [])"

lemma submit_updates:
  "balanced [RiskGateReject, OrderSubmitted ''risk_blocked'', OrderLatency]"
  "balanced [OrderLatency, OrderSubmitted ''gateway_error'']"
  "s \<in> {StatusAccepted, StatusPartiallyFilled, StatusFilled, StatusRejected} \<Longrightarrow> balanced [OrderLatency, OrderSubmitted s]"
  by (auto simp: balanced_def latencyCount_def riskRejects_def submitTotal_def submits_def outcomeLabels_def status_defs)

lemma handleSubmit_counts:
  assumes "srv_eng s = localOps"
  shows "counts_balanced (orderLabel (fst (handleSubmit s ch h rq w))) w (snd (handleSubmit s ch h rq w))"
proof -
  have one: "counts_balanced ls w w'" if "wd_metrics w' = wd_metrics w @ ms" "balanced ms" "signalActions ms = []" "submits ms = ls" for w' ms ls
    unfolding counts_balanced_def using that by blast
  have none: "signalActions [OrderLatency, OrderSubmitted l] = []"
    "signalActions [RiskGateReject, OrderSubmitted l, OrderLatency] = []" for l
    by (simp_all add: signalActions_def)
  have ls: "submits [OrderLatency, OrderSubmitted l] = [l]" "submits [RiskGateReject, OrderSubmitted l, OrderLatency] = [l]" for l
    by (simp_all add: submits_def)
  show ?thesis
  proof (cases "srv_decodeOrder s (rq_body rq)")
    case (Inl err)
    then show ?thesis by (simp add: handleSubmit_def counts_balanced_refl orderLabel_def)
  next
    case (Inr o0)
    let ?o = "attributed rq o0"
    obtain blocked reason where r: "srv_risk s (no_AccountID ?o) = (blocked, reason)" by force
    obtain ans e where a: "SubmitOrder (wd_engine w) (ch_ctxErr ch) ?o (ch_now ch) = (ans, e)" by force
    consider "no_Symbol o0 = ''''" | "no_Symbol o0 \<noteq> ''''" blocked | err where "no_Symbol o0 \<noteq> ''''" "\<not> blocked" "ans = Inl err"
      | ack where "no_Symbol o0 \<noteq> ''''" "\<not> blocked" "ans = Inr ack" by (cases ans) auto
    then show ?thesis
    proof cases
      case 1
      then show ?thesis using Inr by (simp add: handleSubmit_def counts_balanced_refl orderLabel_def)
    next
      case 2
      then show ?thesis using Inr r
        by (intro one [OF _ submit_updates(1) none(2)])
          (simp_all add: handleSubmit_def count_metrics_def orderLabel_def ls ack_zero_def Let_def)
    next
      case 3
      then show ?thesis using Inr r a assms
        by (intro one [OF _ submit_updates(2) none(1)]) (simp_all add: handleSubmit_def count_metrics_def orderLabel_def ls)
    next
      case 4
      then have "ack_Status ack \<in> {StatusAccepted, StatusPartiallyFilled, StatusFilled, StatusRejected}"
        using local_status [of "wd_engine w" "ch_ctxErr ch" ?o "ch_now ch" ack] a by simp
      then have "balanced [OrderLatency, OrderSubmitted (ack_Status ack)]" by (rule submit_updates)
      moreover have "ack_OrderID ack \<noteq> ''''" using local_id [of "wd_engine w" "ch_ctxErr ch" ?o "ch_now ch" ack] 4 a by simp
      ultimately show ?thesis using 4 Inr r a assms
        by (intro one [OF _ _ none(1)]) (simp_all add: handleSubmit_def count_metrics_def orderLabel_def ls Let_def)
    qed
  qed
qed

section \<open>The other handlers and the fan-outs\<close>

lemma quiet_metrics [simp]:
  "wd_metrics (snd (handleCancel s ch h rq w)) = wd_metrics w"
  "wd_metrics (snd (handleBook s ch h rq w)) = wd_metrics w"
  "wd_metrics (snd (handleWS rc h rq w)) = wd_metrics w"
  "wd_metrics (broadcastBook s ch symbol w) = wd_metrics w"
  by (auto simp: handleCancel_def handleBook_def handleWS_def broadcastBook_def broadcast_def Let_def
      split: option.split sum.split prod.split)

lemma broadcastTrades_counts: "counts_balanced [] w (broadcastTrades s ts w)"
proof (induction s ts w rule: broadcastTrades.induct)
  case (2 s t ts w)
  have "counts_balanced [] w (count_metrics [TradeBroadcast] (broadcast s (TradeMsg t) w))"
    by (auto simp: counts_balanced_def count_metrics_def broadcast_def signalActions_def submits_def)
  from counts_balanced_trans [OF this "2.IH"] show ?case by simp
qed (simp add: counts_balanced_refl)

lemma runTask_counts: "counts_balanced [] w (runTask s ch k w)"
proof -
  have "counts_balanced [] w' (broadcastFills s ch ts sy w')" for w' ts sy
    unfolding broadcastFills_def
    by (rule counts_balanced_trans [OF broadcastTrades_counts [of w' s ts]]) (simp add: counts_balanced_refl)
  from this [of "w\<lparr>wd_tasks := take k (wd_tasks w) @ drop (Suc k) (wd_tasks w)\<rparr>" "fst (wd_tasks w ! k)" "snd (wd_tasks w ! k)"]
  show ?thesis
    by (cases "k < length (wd_tasks w)") (simp_all add: runTask_def case_prod_beta Let_def counts_balanced_def)
qed

lemma refreshBooks_metrics [simp]: "wd_metrics (refreshBooks s ch xs w) = wd_metrics w"
  by (induction s ch xs w rule: refreshBooks.induct) simp_all

lemma broadcastBatches_counts: "counts_balanced [] w (broadcastBatches s bs w)"
proof (induction s bs w rule: broadcastBatches.induct)
  case (2 s b bs w)
  from counts_balanced_trans [OF broadcastTrades_counts "2.IH"] show ?case by simp
qed (simp add: counts_balanced_refl)

lemma simTurn_counts: "counts_balanced [] w (snd (simTurn s tk ch syms (m, w)))"
proof -
  obtain bs m' e where st: "simStep tk (m, wd_engine w) = (bs, m', e)" by (metis prod_cases3)
  have "counts_balanced [] (w\<lparr>wd_engine := e\<rparr>) (refreshBooks s ch syms (broadcastBatches s bs (w\<lparr>wd_engine := e\<rparr>)))"
    by (rule counts_balanced_trans [OF broadcastBatches_counts [of _ s bs]]) (simp add: counts_balanced_refl)
  then show ?thesis by (simp add: simTurn_def st Let_def counts_balanced_def)
qed

end
