(* ===== verification/Process.thy ===== *)
theory Process
  imports System Metrics
begin

text \<open>
  The whole process after \<open>main\<close> has booted it with the in-process engine: HTTP requests through the
  chain, fan-out goroutines, ticks of the simulator, the two Kafka consumers, the hub's loop and the
  pumps of its clients, interleaved in any order. Each step is the model of the code that runs; the
  history records what happened, for the properties to speak of. Each part keeps its invariant.
\<close>

section \<open>The state and the consumers' turns\<close>

record ('r, 'w, 'u, 'g) Process =
  pc_limiter :: "RateLimiter"
  pc_app :: "(LocalEngine, 'r, 'w, 'u, 'g) App"
  pc_gate :: Gate

text \<open>What the consumers need of the libraries: the two protobuf decoders and the JSON encoder.\<close>

record Feeds =
  fd_signal :: "string \<Rightarrow> error + PbRiskSignal"
  fd_numText :: "i32 \<Rightarrow> string"
  fd_trade :: "string \<Rightarrow> error + PbTrade"
  fd_riskJson :: "riskWsEnvelope \<Rightarrow> error + string"
  fd_tapeJson :: "tradeEnvelope \<Rightarrow> error + string"

definition world_of :: "('r, 'w, 'u, 'g) Process \<Rightarrow> (LocalEngine, 'r, 'w) World" where
  "world_of p = ap_world (pc_app p)"

definition with_world ::
  "(LocalEngine, 'r, 'w) World \<Rightarrow> ('r, 'w, 'u, 'g) Process \<Rightarrow> ('r, 'w, 'u, 'g) Process" where
  "with_world w p = p\<lparr>pc_app := (pc_app p)\<lparr>ap_world := w\<rparr>\<rparr>"

text \<open>One message of the risk-signals topic, and one of the trades topic.\<close>

definition signalTurn :: "Feeds \<Rightarrow> string \<Rightarrow> ('r, 'w, 'u, 'g) Process \<Rightarrow> ('r, 'w, 'u, 'g) Process" where
  "signalTurn fd value p =
     (case fd_signal fd value of
        Inl derr \<Rightarrow> p
      | Inr sig \<Rightarrow>
          let st = riskHandle (fd_numText fd) True sig \<lparr>rs_gate = pc_gate p, rs_broadcast = [], rs_counted = []\<rparr>;
              w = count_metrics (map SignalCounted (rs_counted st)) (world_of p);
              hub = fold (Broadcast (fd_riskJson fd)) (rs_broadcast st) (wd_hub w)
          in (with_world (w\<lparr>wd_hub := hub\<rparr>) p)\<lparr>pc_gate := rs_gate st\<rparr>)"

definition tapeTurn :: "Feeds \<Rightarrow> string \<Rightarrow> ('r, 'w, 'u, 'g) Process \<Rightarrow> ('r, 'w, 'u, 'g) Process" where
  "tapeTurn fd value p =
     (case decodeTrade (fd_trade fd) value of
        Inl derr \<Rightarrow> p
      | Inr envelope \<Rightarrow>
          let st = tapeHandle envelope \<lparr>ts_broadcast = [], ts_counted = 0\<rparr>;
              w = count_metrics (replicate (ts_counted st) TradeBroadcast) (world_of p)
          in with_world (w\<lparr>wd_hub := fold (Broadcast (fd_tapeJson fd)) (ts_broadcast st) (wd_hub w)\<rparr>) p)"

text \<open>The gateway as a request finds it: its risk gate is the consumer's.\<close>

definition gated :: "('s, 'r, 'w, 'u) Gateway \<Rightarrow> Gate \<Rightarrow> ('s, 'r, 'w, 'u) Gateway" where
  "gated g gate = g\<lparr>gw_server := (gw_server g)\<lparr>srv_risk := GateBlocked gate\<rparr>\<rparr>"

section \<open>Reachable states\<close>

text \<open>
  The history: engine calls there is room for, quantity asked for, signals consumed, messages fanned
  out and since when each client is connected, and the engine after every step that may have changed
  it, and the answers that were given to POST /orders. The cache starts cold, and its entries may
  disappear at any time.
\<close>

record History =
  hy_room :: nat
  hy_volume :: int
  hy_signals :: "PbRiskSignal list"
  hy_sent :: "string list"
  hy_since :: "nat \<rightharpoonup> nat"
  hy_engines :: "LocalEngine list"
  hy_orders :: "Response list"

definition booted :: "nat \<Rightarrow> LocalEngine \<Rightarrow> History" where
  "booted n e = \<lparr>hy_room = n, hy_volume = 0, hy_signals = [], hy_sent = [], hy_since = Map.empty, hy_engines = [e], hy_orders = []\<rparr>"

definition logged :: "('r, 'w, 'u, 'g) Process \<Rightarrow> History \<Rightarrow> History" where
  "logged p hy = hy\<lparr>hy_engines := hy_engines hy @ [wd_engine (world_of p)]\<rparr>"

definition decodedOf :: "(string \<Rightarrow> error + 'm) \<Rightarrow> string \<Rightarrow> 'm list" where
  "decodedOf dec v = (case dec v of Inl err \<Rightarrow> [] | Inr m \<Rightarrow> [m])"

inductive process_reach ::
  "Strconv \<Rightarrow> 'r RedisClient \<Rightarrow> env \<Rightarrow> bootOutcome \<Rightarrow>
   (LocalEngine, 'r, 'w, 'u) Gateway \<Rightarrow> Feeds \<Rightarrow> History \<Rightarrow> ('r, 'w, 'u, 'g) Process \<Rightarrow> bool"
  for sc rdb env bo g fd where
  boots: "boot sc rdb env bo = Inr wr \<Longrightarrow> wr_engine wr = InProcess seeds \<Longrightarrow> gw_config g = wr_config wr \<Longrightarrow>
    srv_cache (gw_server g) = Some (wr_cache wr) \<Longrightarrow> map_option au_tokens (gw_auth g) = wr_tokens wr \<Longrightarrow>
    (\<And>k v. rd_Get rdb k (wd_redis (world_of p)) \<noteq> Inr v) \<Longrightarrow> pc_limiter p = wr_limiter wr \<Longrightarrow> pc_gate p = wr_gate wr \<Longrightarrow> wd_hub (world_of p) = wr_hub wr \<Longrightarrow>
    wd_engine (world_of p) = NewLocalEngine seeds \<Longrightarrow> wd_metrics (world_of p) = [] \<Longrightarrow> wd_tasks (world_of p) = [] \<Longrightarrow>
    ap_sim (pc_app p) = map_option (\<lambda>(syms, every). newMarketSim syms rng) (wr_sim wr) \<Longrightarrow> n < 2 ^ 62 \<Longrightarrow>
    process_reach sc rdb env bo g fd (booted n (NewLocalEngine seeds)) p"
| request: "process_reach sc rdb env bo g fd hy p \<Longrightarrow> hy_room hy = Suc n \<Longrightarrow>
    hy_volume hy + requestVolume (gw_server g) rq < 2 ^ 63 \<Longrightarrow> hb_objects (wd_hub (world_of p)) (rc_client rc) = None \<Longrightarrow>
    gatewayHandler (gated g (pc_gate p)) rc path h rq (pc_limiter p, pc_app p) = (rsp, rl, a) \<Longrightarrow>
    p' = p\<lparr>pc_limiter := rl, pc_app := a\<rparr> \<Longrightarrow>
    hy' = logged p' (hy\<lparr>hy_room := n, hy_volume := hy_volume hy + requestVolume (gw_server g) rq,
      hy_since := (if wd_hub (world_of p') = wd_hub (world_of p) then hy_since hy
                   else (hy_since hy)(rc_client rc \<mapsto> length (hy_sent hy))),
      hy_orders := hy_orders hy @ (if path = [''orders''] \<and> rq_method rq = ''POST'' then [rsp] else [])\<rparr>) \<Longrightarrow>
    process_reach sc rdb env bo g fd hy' p'"
| fan_out: "process_reach sc rdb env bo g fd hy p \<Longrightarrow> p' = with_world (runTask (gw_server g) ch k (world_of p)) p \<Longrightarrow>
    process_reach sc rdb env bo g fd (logged p' hy) p'"
| sim_tick: "process_reach sc rdb env bo g fd hy p \<Longrightarrow> ap_sim (pc_app p) = Some m \<Longrightarrow>
    hy_room hy = 7 * length (ms_syms m) + n \<Longrightarrow> tick_local tk \<Longrightarrow> hy_volume hy + tickVolume m < 2 ^ 63 \<Longrightarrow>
    simTurn (gw_server g) tk chs (ms_syms m) (m, world_of p) = (m', w) \<Longrightarrow>
    p' = p\<lparr>pc_app := (pc_app p)\<lparr>ap_world := w, ap_sim := Some m'\<rparr>\<rparr> \<Longrightarrow>
    process_reach sc rdb env bo g fd (logged p' (hy\<lparr>hy_room := n, hy_volume := hy_volume hy + tickVolume m\<rparr>)) p'"
| signal: "process_reach sc rdb env bo g fd hy p \<Longrightarrow>
    process_reach sc rdb env bo g fd (hy\<lparr>hy_signals := hy_signals hy @ decodedOf (fd_signal fd) value\<rparr>) (signalTurn fd value p)"
| tape: "process_reach sc rdb env bo g fd hy p \<Longrightarrow> process_reach sc rdb env bo g fd hy (tapeTurn fd value p)"
| deliver: "process_reach sc rdb env bo g fd hy p \<Longrightarrow> hb_broadcast (wd_hub (world_of p)) = msg # rest \<Longrightarrow>
    mset ks = mset (hb_clients (wd_hub (world_of p))) \<Longrightarrow> hubDeliver ks (wd_hub (world_of p)) = Inr hub \<Longrightarrow>
    process_reach sc rdb env bo g fd (hy\<lparr>hy_sent := hy_sent hy @ [msg]\<rparr>) (with_world ((world_of p)\<lparr>wd_hub := hub\<rparr>) p)"
| leave: "process_reach sc rdb env bo g fd hy p \<Longrightarrow> hb_objects (wd_hub (world_of p)) c \<noteq> None \<Longrightarrow>
    readPump False c (wd_hub (world_of p)) = Inr hub \<Longrightarrow>
    process_reach sc rdb env bo g fd hy (with_world ((world_of p)\<lparr>wd_hub := hub\<rparr>) p)"
| pump: "process_reach sc rdb env bo g fd hy p \<Longrightarrow> hub = writePump ok c (wd_hub (world_of p)) \<Longrightarrow>
    process_reach sc rdb env bo g fd hy (with_world ((world_of p)\<lparr>wd_hub := hub\<rparr>) p)"
| lapse: "process_reach sc rdb env bo g fd hy p \<Longrightarrow>
    (\<And>k v. rd_Get rdb k r = Inr v \<Longrightarrow> rd_Get rdb k (wd_redis (world_of p)) = Inr v) \<Longrightarrow>
    process_reach sc rdb env bo g fd hy (with_world ((world_of p)\<lparr>wd_redis := r\<rparr>) p)"
| ping: "process_reach sc rdb env bo g fd hy p \<Longrightarrow> hub = pingPump ok c (wd_hub (world_of p)) \<Longrightarrow>
    process_reach sc rdb env bo g fd hy (with_world ((world_of p)\<lparr>wd_hub := hub\<rparr>) p)"

lemma world_of_simps [simp]:
  "world_of (with_world w p) = w" "world_of (p\<lparr>pc_gate := gt\<rparr>) = world_of p" "pc_gate (with_world w p) = pc_gate p"
  "world_of (p\<lparr>pc_limiter := rl, pc_app := a\<rparr>) = ap_world a" "world_of (p\<lparr>pc_app := a\<rparr>) = ap_world a"
  "pc_app (with_world w p) = (pc_app p)\<lparr>ap_world := w\<rparr>"
  by (simp_all add: world_of_def with_world_def)

lemma logged_simps [simp]:
  "hy_room (logged p hy) = hy_room hy" "hy_volume (logged p hy) = hy_volume hy" "hy_signals (logged p hy) = hy_signals hy"
  "hy_sent (logged p hy) = hy_sent hy" "hy_since (logged p hy) = hy_since hy"
  "hy_engines (logged p hy) = hy_engines hy @ [wd_engine (world_of p)]" "hy_orders (logged p hy) = hy_orders hy"
  by (simp_all add: logged_def)

lemma booted_simps [simp]:
  "hy_room (booted n e) = n" "hy_volume (booted n e) = 0" "hy_signals (booted n e) = []" "hy_sent (booted n e) = []"
  "hy_since (booted n e) = Map.empty" "hy_engines (booted n e) = [e]" "hy_orders (booted n e) = []"
  by (simp_all add: booted_def)

lemma gated_simps [simp]:
  "srv_eng (gw_server (gated g gt)) = srv_eng (gw_server g)" "srv_cache (gw_server (gated g gt)) = srv_cache (gw_server g)"
  "srv_codec (gw_server (gated g gt)) = srv_codec (gw_server g)" "srv_risk (gw_server (gated g gt)) = GateBlocked gt"
  "srv_decodeOrder (gw_server (gated g gt)) = srv_decodeOrder (gw_server g)"
  "requestVolume (gw_server (gated g gt)) rq = requestVolume (gw_server g) rq"
  "gw_jwt (gated g gt) = gw_jwt g" "gw_config (gated g gt) = gw_config g"
  by (simp_all add: gated_def requestVolume_def)

section \<open>The engine\<close>

lemma one_call_inv:
  assumes "one_call v e e'" and "engine_inv (Suc n) V e" and "V + v < 2 ^ 63"
  shows "engine_inv n (V + v) e'"
proof -
  obtain cs where cs: "e' = run e cs" "length cs \<le> 1" "volume cs \<le> v" using assms(1) by (auto simp: one_call_def)
  have "engine_inv (n + length cs) V e" by (rule engine_inv_mono [OF assms(2)]) (use cs(2) in simp_all)
  then have "engine_inv n (V + volume cs) e'"
    unfolding cs(1) using cs(3) assms(3) by (intro engine_inv_run) simp_all
  then show ?thesis by (rule engine_inv_mono) (use cs(3) in simp_all)
qed

lemma consumer_turns [simp]:
  "wd_engine (world_of (signalTurn fd v p)) = wd_engine (world_of p)" "wd_engine (world_of (tapeTurn fd v p)) = wd_engine (world_of p)"
  "wd_redis (world_of (signalTurn fd v p)) = wd_redis (world_of p)" "wd_redis (world_of (tapeTurn fd v p)) = wd_redis (world_of p)"
  "pc_gate (tapeTurn fd v p) = pc_gate p"
  by (simp_all add: signalTurn_def tapeTurn_def Let_def split: sum.split)

lemma process_engine:
  assumes eng: "srv_eng (gw_server g) = localOps" and "process_reach sc rdb env bo g fd hy p"
  shows "engine_inv (hy_room hy) (hy_volume hy) (wd_engine (world_of p))"
  using assms(2)
proof (induction rule: process_reach.induct)
  case (boots wr seeds p rng n)
  have "seeds = demoSymbols" using boot_engine [OF boots(1,2)] .
  then have "engine_inv n 0 (NewLocalEngine seeds)" using boots(14) by (intro engine_inv_new) (simp add: demoSymbols_def)
  then show ?case using boots(10) by simp
next
  case (request hy p n rq rc path h rsp rl a p' hy')
  have "srv_eng (gw_server (gated g (pc_gate p))) = localOps" using eng by simp
  from request_one_call [OF this, of rq "(pc_limiter p, pc_app p)" rc path h]
  have "one_call (requestVolume (gw_server g) rq) (wd_engine (world_of p)) (wd_engine (world_of p'))"
    using request.hyps(5,6) by (simp add: engine_of_def world_of_def)
  moreover have "engine_inv (Suc n) (hy_volume hy) (wd_engine (world_of p))" using request.IH request.hyps(2) by simp
  ultimately show ?case using one_call_inv request.hyps(3,7) by fastforce
next
  case (fan_out hy p p' ch k)
  then show ?case using runTask_engine [OF eng] by simp
next
  case (sim_tick hy p m n tk chs m' w p')
  have "engine_inv (7 * length (ms_syms m) + n) (hy_volume hy) (wd_engine (world_of p))"
    using sim_tick.IH sim_tick.hyps(3) by simp
  from simTurn_engine [OF eng sim_tick.hyps(4) this sim_tick.hyps(5), of chs "ms_syms m"]
  show ?case using sim_tick.hyps(6,7) by simp
qed simp_all

section \<open>The hub\<close>

text \<open>What producers do to the hub: queue messages, each marshalled or not.\<close>

definition hub_queues :: "Hub \<Rightarrow> Hub \<Rightarrow> bool" where
  "hub_queues h h' \<longleftrightarrow> (\<exists>ms. h' = fold (Broadcast (\<lambda>m. m)) ms h)"

lemma hub_queues_refl [simp]: "hub_queues h h"
  unfolding hub_queues_def by (rule exI [of _ "[]"]) simp

lemma hub_queues_trans: "hub_queues h h' \<Longrightarrow> hub_queues h' h'' \<Longrightarrow> hub_queues h h''"
  unfolding hub_queues_def by (metis comp_apply fold_append)

lemma hub_queues_Broadcast: "hub_queues h (Broadcast marshal v h)"
  unfolding hub_queues_def by (rule exI [of _ "[marshal v]"]) (simp add: Broadcast_def)

lemma hub_queues_fold: "hub_queues h (fold (Broadcast marshal) vs h)"
proof (induction vs arbitrary: h)
  case (Cons v vs)
  show ?case using hub_queues_trans [OF hub_queues_Broadcast Cons.IH [of "Broadcast marshal v h"]] by simp
qed simp

lemma hub_reach_queues: "hub_queues h h' \<Longrightarrow> hub_reach h sent since \<Longrightarrow> hub_reach h' sent since"
proof -
  have "hub_reach h sent since \<Longrightarrow> hub_reach (fold (Broadcast (\<lambda>m. m)) ms h) sent since" for ms
    by (induction ms arbitrary: h) (simp_all add: queue)
  then show "hub_queues h h' \<Longrightarrow> hub_reach h sent since \<Longrightarrow> hub_reach h' sent since" by (auto simp: hub_queues_def)
qed

lemma fan_out_queues:
  "hub_queues (wd_hub w) (wd_hub (broadcastTrades s ts w))" "hub_queues (wd_hub w) (wd_hub (broadcastBook s ch sy w))"
proof -
  show "hub_queues (wd_hub w) (wd_hub (broadcastTrades s ts w))"
  proof (induction s ts w rule: broadcastTrades.induct)
    case (2 s t ts w)
    show ?case using hub_queues_trans [OF hub_queues_Broadcast "2.IH" [simplified]] by simp
  qed simp
  show "hub_queues (wd_hub w) (wd_hub (broadcastBook s ch sy w))"
    by (auto simp: broadcastBook_def hub_queues_Broadcast split: option.split sum.split prod.split)
qed

lemma runTask_queues: "hub_queues (wd_hub w) (wd_hub (runTask s ch k w))"
proof -
  have "hub_queues (wd_hub w') (wd_hub (broadcastFills s ch ts sy w'))" for w' ts sy
    unfolding broadcastFills_def by (rule hub_queues_trans [OF fan_out_queues(1) [of w' s ts] fan_out_queues(2)])
  from this [of "w\<lparr>wd_tasks := take k (wd_tasks w) @ drop (Suc k) (wd_tasks w)\<rparr>" "fst (wd_tasks w ! k)" "snd (wd_tasks w ! k)"]
  show ?thesis by (cases "k < length (wd_tasks w)") (simp_all add: runTask_def case_prod_beta Let_def)
qed

lemma simTurn_queues: "hub_queues (wd_hub w) (wd_hub (snd (simTurn s tk ch syms (m, w))))"
proof -
  have books: "hub_queues (wd_hub w) (wd_hub (refreshBooks s ch xs w))" for xs w
  proof (induction s ch xs w rule: refreshBooks.induct)
    case (2 s ch x xs w)
    show ?case using hub_queues_trans [OF fan_out_queues(2) "2.IH"] by simp
  qed simp
  have batches: "hub_queues (wd_hub w) (wd_hub (broadcastBatches s bs w))" for bs w
  proof (induction s bs w rule: broadcastBatches.induct)
    case (2 s b bs w)
    show ?case using hub_queues_trans [OF fan_out_queues(1) "2.IH"] by simp
  qed simp
  obtain bs m' e where st: "simStep tk (m, wd_engine w) = (bs, m', e)" by (metis prod_cases3)
  have "hub_queues (wd_hub (w\<lparr>wd_engine := e\<rparr>))
      (wd_hub (refreshBooks s ch syms (broadcastBatches s bs (w\<lparr>wd_engine := e\<rparr>))))"
    by (rule hub_queues_trans [OF batches [of _ bs] books])
  then show ?thesis by (simp add: simTurn_def st Let_def)
qed

lemma consumers_queue:
  "hub_queues (wd_hub (world_of p)) (wd_hub (world_of (signalTurn fd v p)))"
  "hub_queues (wd_hub (world_of p)) (wd_hub (world_of (tapeTurn fd v p)))"
  by (simp_all add: signalTurn_def tapeTurn_def Let_def hub_queues_fold split: sum.split)

text \<open>A request leaves the hub alone, or connects its client.\<close>

definition connects :: "nat \<Rightarrow> ('s, 'r, 'w) World \<Rightarrow> ('s, 'r, 'w) World \<Rightarrow> bool" where
  "connects c w w' \<longleftrightarrow> wd_hub w' = wd_hub w \<or> wd_hub w' = serveWS c (wd_hub w)"

lemma handlers_hub:
  "wd_hub (snd (handleSubmit s ch h rq w)) = wd_hub w" "wd_hub (snd (handleCancel s ch h rq w)) = wd_hub w"
  "wd_hub (snd (handleBook s ch h rq w)) = wd_hub w"
  by (auto simp: handleSubmit_def handleCancel_def handleBook_def Let_def split: option.split sum.split prod.split)

lemma request_connects:
  "connects (rc_client rc) (ap_world (snd st)) (ap_world (snd (snd (gatewayHandler g rc path h rq st))))"
  by (rule chain_world) (auto simp: connects_def handlers_hub handleWS_def split: option.split)

lemma process_hub:
  assumes "process_reach sc rdb env bo g fd hy p"
  shows "hub_reach (wd_hub (world_of p)) (hy_sent hy) (hy_since hy)"
  using assms
proof (induction rule: process_reach.induct)
  case (boots wr seeds p rng n)
  have "wr_hub wr = NewHub" using boots(1) by (auto simp: boot_def Load_def split: option.splits sum.splits)
  then show ?case using boots(9) hub_reach.start by simp
next
  case (request hy p n rq rc path h rsp rl a p' hy')
  have "connects (rc_client rc) (world_of p) (world_of p')"
    using request_connects [of rc "(pc_limiter p, pc_app p)" "gated g (pc_gate p)" path h rq] request.hyps(5,6)
    by (simp add: world_of_def)
  then show ?case using request.IH connect [OF request.IH request.hyps(4)] request.hyps(7)
    by (auto simp: connects_def)
next
  case (fan_out hy p p' ch k)
  then show ?case using hub_reach_queues [OF runTask_queues] by simp
next
  case (sim_tick hy p m n tk chs m' w p')
  then show ?case using hub_reach_queues [OF simTurn_queues [of "world_of p" "gw_server g" tk chs "ms_syms m" m]] by simp
next
  case (signal hy p v)
  then show ?case using hub_reach_queues [OF consumers_queue(1)] by simp
next
  case (tape hy p v)
  show ?case using tape.IH by (rule hub_reach_queues [OF consumers_queue(2)])
next
  case (deliver hy p msg rest ks hub)
  then show ?case using hub_reach.deliver by simp
next
  case (leave hy p c hub)
  then show ?case using hub_reach.leave by (simp add: readPump_def)
next
  case (pump hy p hub ok c)
  then show ?case using hub_reach.pump by simp
next
  case (ping hy p hub ok c)
  then show ?case using hub_reach.ping by simp
qed simp

section \<open>The gate and the counters\<close>

text \<open>The order route behind its middleware.\<close>

lemma orders_mux:
  assumes "rq_method rq = ''POST''"
  shows "ServeMux (Routes g rc sim) [''orders''] h rq st =
    protect (gw_jwt g) (cf_JWTSecret (gw_config g)) (rc_now rc) (on_world (handleSubmit (gw_server g) (rc_api rc))) h
      (rq\<lparr>rq_path := \<lambda>k. ''''\<rparr>) st"
  using assms by (cases "gw_auth g") (simp_all add: ServeMux_def Routes_def methodMatches_def Let_def)

lemma orders_route:
  assumes "rq_method rq = ''POST''"
  obtains h' where "gatewayHandler g rc [''orders''] h rq st =
    protect (gw_jwt g) (cf_JWTSecret (gw_config g)) (rc_now rc) (on_world (handleSubmit (gw_server g) (rc_api rc))) h'
      (rq\<lparr>rq_path := \<lambda>k. ''''\<rparr>) st"
proof (cases rule: gatewayHandler_cases [where g = g and rc = rc and path = "[''orders'']" and h = h and rq = rq and st = st])
  case preflight
  then show ?thesis using assms by simp
next
  case (routed h')
  show ?thesis by (rule that [of h']) (simp only: routed(2) orders_mux [OF assms])
qed

lemma protect_orders:
  "(\<exists>acct. fst (protect jw secret now (on_world hnd) h rq st) = fst (hnd h (rq\<lparr>rq_account := acct\<rparr>) (ap_world (snd st))) \<and>
      ap_world (snd (snd (protect jw secret now (on_world hnd) h rq st))) = snd (hnd h (rq\<lparr>rq_account := acct\<rparr>) (ap_world (snd st)))) \<or>
   (orderLabel (fst (protect jw secret now (on_world hnd) h rq st)) = [] \<and>
      ap_world (snd (snd (protect jw secret now (on_world hnd) h rq st))) = ap_world (snd st))"
proof (cases "fst (Allow (fst st) now (clientIP rq))")
  case True
  then show ?thesis
    by (auto simp: protect_def limited_state jwtMiddleware_def unauthorized_def httpError_def on_world_def orderLabel_def
        case_prod_beta Let_def split: sum.split)
next
  case False
  then show ?thesis
    by (simp add: protect_def rateMiddleware_def case_prod_beta Let_def httpError_def orderLabel_def)
qed

lemma request_counts:
  assumes eng: "srv_eng (gw_server g) = localOps"
  shows "counts_balanced (if path = [''orders''] \<and> rq_method rq = ''POST'' then orderLabel (fst (gatewayHandler g rc path h rq st)) else [])
    (ap_world (snd st)) (ap_world (snd (snd (gatewayHandler g rc path h rq st))))"
proof (cases "path = [''orders''] \<and> rq_method rq = ''POST''")
  case False
  have "counts_balanced [] (ap_world (snd st)) (ap_world (snd (snd (gatewayHandler g rc path h rq st))))"
    by (rule chain_world_no_order [where R = "counts_balanced []"]) (use False in \<open>auto simp: counts_balanced_refl\<close>)
  then show ?thesis unfolding if_not_P [OF False] .
next
  case True
  let ?hnd = "handleSubmit (gw_server g) (rc_api rc)" and ?rq = "rq\<lparr>rq_path := \<lambda>k. ''''\<rparr>"
  obtain h' where a: "gatewayHandler g rc path h rq st =
      protect (gw_jwt g) (cf_JWTSecret (gw_config g)) (rc_now rc) (on_world ?hnd) h' ?rq st"
    using orders_route True by metis
  have "counts_balanced (orderLabel (fst (gatewayHandler g rc path h rq st))) (ap_world (snd st))
      (ap_world (snd (snd (gatewayHandler g rc path h rq st))))"
    unfolding a
    using protect_orders [of "gw_jwt g" "cf_JWTSecret (gw_config g)" "rc_now rc" ?hnd h' ?rq st] handleSubmit_counts [OF eng]
    by (metis counts_balanced_refl)
  then show ?thesis unfolding if_P [OF True] .
qed

lemma process_gate:
  assumes "process_reach sc rdb env bo g fd hy p"
  shows "pc_gate p = fold GateApply (hy_signals hy) NewGate"
  using assms
proof (induction rule: process_reach.induct)
  case (boots wr seeds p rng n)
  have "wr_gate wr = NewGate" using boots(1) by (auto simp: boot_def Load_def split: option.splits sum.splits)
  then show ?case using boots(8) by simp
next
  case (signal hy p v)
  then show ?case by (simp add: signalTurn_def decodedOf_def riskHandle_def Let_def split: sum.split)
qed (simp_all add: with_world_def)

lemma process_counts:
  assumes eng: "srv_eng (gw_server g) = localOps" and "process_reach sc rdb env bo g fd hy p"
  shows "balanced (wd_metrics (world_of p)) \<and>
    submits (wd_metrics (world_of p)) = concat (map orderLabel (hy_orders hy)) \<and>
    signalActions (wd_metrics (world_of p)) = map (\<lambda>s. SignalAction_String (fd_numText fd) (prs_Action s)) (hy_signals hy)"
  using assms(2)
proof (induction rule: process_reach.induct)
  case (request hy p n rq rc path h rsp rl a p' hy')
  have "counts_balanced (if path = [''orders''] \<and> rq_method rq = ''POST'' then orderLabel rsp else []) (world_of p) (world_of p')"
  proof -
    have "srv_eng (gw_server (gated g (pc_gate p))) = localOps" using eng by simp
    from request_counts [OF this, of path rq rc h "(pc_limiter p, pc_app p)"] show ?thesis
      unfolding request.hyps(5,6) world_of_simps by (simp only: fst_conv snd_conv world_of_def)
  qed
  then show ?case using request.IH request.hyps(7) by (auto simp: counts_balanced_def balanced_append)
next
  case (fan_out hy p p' ch k)
  then show ?case using runTask_counts [of "world_of p" "gw_server g" ch k] by (auto simp: counts_balanced_def balanced_append)
next
  case (sim_tick hy p m n tk chs m' w p')
  then show ?case using simTurn_counts [of "world_of p" "gw_server g" tk chs "ms_syms m" m]
    by (auto simp: counts_balanced_def balanced_append)
next
  case (signal hy p v)
  then show ?case
    by (auto simp: signalTurn_def decodedOf_def riskHandle_def count_metrics_def balanced_append Let_def signalActions_def submits_def
        split: sum.split)
next
  case (tape hy p v)
  then show ?case
    by (auto simp: tapeTurn_def tapeHandle_def count_metrics_def balanced_append Let_def signalActions_def submits_def split: sum.split)
qed simp_all

section \<open>The cache\<close>

text \<open>A snapshot the engine gives in this state for its symbol at this depth.\<close>

definition answered :: "LocalEngine \<Rightarrow> i32 \<Rightarrow> BookSnapshot \<Rightarrow> bool" where
  "answered e d snap \<longleftrightarrow>
     (\<exists>now bk ak. fst (GetBook e None \<lparr>br_Symbol = bs_Symbol snap, br_Depth = d\<rparr> now bk ak) = Inr snap)"

lemma GetBook_orders [simp]: "orders_of (snd (GetBook e ctxErr r now bk ak)) = orders_of e"
  by (auto simp: GetBook_engine book_def orders_of_def Let_def fun_eq_iff split: option.split)

lemma GetBook_same: "orders_of e = orders_of e' \<Longrightarrow> fst (GetBook e None r now bk ak) = fst (GetBook e' None r now bk ak)"
proof -
  have "ob_orders (fst (book e s)) = orders_of e s" for e s by (simp add: book_def orders_of_def Let_def split: option.split)
  then show "orders_of e = orders_of e' \<Longrightarrow> ?thesis" by (simp add: GetBook_def case_prod_beta Let_def)
qed

lemma answered_same: "orders_of e = orders_of e' \<Longrightarrow> answered e d snap = answered e' d snap"
  using GetBook_same [of e e'] by (simp add: answered_def)

lemma GetBook_answered:
  assumes "GetBook e ctxErr \<lparr>br_Symbol = sy, br_Depth = d\<rparr> now bk ak = (Inr snap, e')"
  shows "answered e' d snap" and "bs_Symbol snap = sy"
proof -
  have none: "ctxErr = None" using assms by (cases ctxErr) (auto simp: GetBook_def)
  show sy: "bs_Symbol snap = sy" using assms by (auto simp: none GetBook_def case_prod_beta Let_def)
  have "orders_of e' = orders_of e" using GetBook_orders [of e ctxErr "\<lparr>br_Symbol = sy, br_Depth = d\<rparr>" now bk ak] assms by simp
  moreover have "answered e d snap" unfolding answered_def using assms none sy by (metis fst_conv)
  ultimately show "answered e' d snap" using answered_same by blast
qed

text \<open>What a step stores in the cache: answers of the engine as the step leaves it.\<close>

definition put_all :: "snapCodec \<Rightarrow> 'r Cache option \<Rightarrow> (i32 \<times> BookSnapshot) list \<Rightarrow> 'r \<Rightarrow> 'r" where
  "put_all js c = fold (\<lambda>(d, snap) r. CacheSetBook js c r d snap)"

lemma put_all_simps [simp]:
  "put_all js c [] r = r" "put_all js c [(d, snap)] r = CacheSetBook js c r d snap"
  "put_all js c (ps @ qs) r = put_all js c qs (put_all js c ps r)"
  by (simp_all add: put_all_def)

definition stores :: "('s, 'r, 'w) Server \<Rightarrow> (LocalEngine, 'r, 'v) World \<Rightarrow> (LocalEngine, 'r, 'v) World \<Rightarrow> bool" where
  "stores s w w' \<longleftrightarrow> (\<exists>ps. wd_redis w' = put_all (srv_codec s) (srv_cache s) ps (wd_redis w) \<and>
     (\<forall>(d, snap)\<in>set ps. answered (wd_engine w') d snap))"

lemma stores_none: "wd_redis w' = wd_redis w \<Longrightarrow> stores s w w'"
  unfolding stores_def by (rule exI [of _ "[]"]) simp

lemma stores_one:
  "wd_redis w' = CacheSetBook (srv_codec s) (srv_cache s) (wd_redis w) d snap \<Longrightarrow> answered (wd_engine w') d snap \<Longrightarrow> stores s w w'"
  unfolding stores_def by (rule exI [of _ "[(d, snap)]"]) simp

lemma stores_trans:
  assumes "stores s w w'" and "stores s w' w''" and "orders_of (wd_engine w'') = orders_of (wd_engine w')"
  shows "stores s w w''"
proof -
  obtain ps qs where p: "wd_redis w' = put_all (srv_codec s) (srv_cache s) ps (wd_redis w)"
      "\<forall>(d, snap)\<in>set ps. answered (wd_engine w') d snap"
    and q: "wd_redis w'' = put_all (srv_codec s) (srv_cache s) qs (wd_redis w')"
      "\<forall>(d, snap)\<in>set qs. answered (wd_engine w'') d snap"
    using assms(1,2) unfolding stores_def by blast
  have "wd_redis w'' = put_all (srv_codec s) (srv_cache s) (ps @ qs) (wd_redis w)" using p(1) q(1) by simp
  moreover have "\<forall>(d, snap)\<in>set (ps @ qs). answered (wd_engine w'') d snap"
    using p(2) q(2) answered_same [OF assms(3)] by auto
  ultimately show ?thesis unfolding stores_def by blast
qed

lemma handlers_store:
  assumes "srv_eng s = localOps"
  shows "stores s w (snd (handleSubmit s ch h rq w))" and "stores s w (snd (handleCancel s ch h rq w))"
    and "stores s w (snd (handleBook s ch h rq w))" and "stores s w (snd (handleWS rc h rq w))"
proof -
  show "stores s w (snd (handleSubmit s ch h rq w))"
    by (rule stores_none) (auto simp: handleSubmit_def Let_def split: sum.split prod.split)
  show "stores s w (snd (handleCancel s ch h rq w))"
    by (rule stores_none) (auto simp: handleCancel_def Let_def split: sum.split prod.split)
  show "stores s w (snd (handleWS rc h rq w))" by (rule stores_none) (auto simp: handleWS_def split: option.split)
  obtain now bk ak where ch: "ch_book ch = (now, bk, ak)" by (metis prod_cases3)
  show "stores s w (snd (handleBook s ch h rq w))"
    by (auto simp: handleBook_def assms ch Let_def GetBook_answered stores_none
        intro: stores_one split: sum.split prod.split option.split)
qed

lemma broadcastBook_store:
  assumes "srv_eng s = localOps"
  shows "stores s w (broadcastBook s ch sy w)" and "orders_of (wd_engine (broadcastBook s ch sy w)) = orders_of (wd_engine w)"
proof -
  obtain now bk ak where ch: "ch_book ch = (now, bk, ak)" by (metis prod_cases3)
  show "stores s w (broadcastBook s ch sy w)"
    by (auto simp: broadcastBook_def assms ch GetBook_answered stores_none
        intro: stores_one split: sum.split prod.split option.split)
  show "orders_of (wd_engine (broadcastBook s ch sy w)) = orders_of (wd_engine w)"
    using GetBook_orders by (auto simp: broadcastBook_engine [OF assms] bookCall_def ch split: option.split)
qed

lemma runTask_store:
  assumes "srv_eng s = localOps"
  shows "stores s w (runTask s ch k w)"
proof (cases "k < length (wd_tasks w)")
  case True
  let ?w = "broadcastTrades s (fst (wd_tasks w ! k)) (w\<lparr>wd_tasks := take k (wd_tasks w) @ drop (Suc k) (wd_tasks w)\<rparr>)"
  have "runTask s ch k w = broadcastBook s ch (snd (wd_tasks w ! k)) ?w"
    using True by (simp add: runTask_def broadcastFills_def case_prod_beta Let_def)
  then show ?thesis using broadcastBook_store(1) [OF assms, of ?w ch "snd (wd_tasks w ! k)"] by (simp add: stores_def)
next
  case False
  then show ?thesis by (simp add: runTask_def stores_none)
qed

lemma refreshBooks_store:
  assumes "srv_eng s = localOps"
  shows "stores s w (refreshBooks s ch xs w) \<and> orders_of (wd_engine (refreshBooks s ch xs w)) = orders_of (wd_engine w)"
proof (induction xs arbitrary: w)
  case (Cons x xs)
  then show ?case
    using stores_trans [OF broadcastBook_store(1) [OF assms, of w "ch x" x]] broadcastBook_store(2) [OF assms, of "ch x" x w]
    by simp
qed (simp add: stores_none)

lemma broadcastBatches_redis [simp]: "wd_redis (broadcastBatches s bs w) = wd_redis w"
  by (induction s bs w rule: broadcastBatches.induct) simp_all

lemma simTurn_store:
  assumes "srv_eng s = localOps"
  shows "stores s w (snd (simTurn s tk ch syms (m, w)))"
proof -
  obtain bs m' e where st: "simStep tk (m, wd_engine w) = (bs, m', e)" by (metis prod_cases3)
  have "stores s (broadcastBatches s bs (w\<lparr>wd_engine := e\<rparr>))
      (refreshBooks s ch syms (broadcastBatches s bs (w\<lparr>wd_engine := e\<rparr>)))"
    using refreshBooks_store [OF assms] by blast
  then have refreshed: "stores s w (refreshBooks s ch syms (broadcastBatches s bs (w\<lparr>wd_engine := e\<rparr>)))"
    by (simp add: stores_def)
  show ?thesis
    using refreshed stores_none [of "w\<lparr>wd_engine := e\<rparr>" w s] by (simp add: simTurn_def st Let_def)
qed

lemma cache_reach_puts:
  assumes "cache_reach js R ttl r stored"
  shows "cache_reach js R ttl (put_all js (Some \<lparr>ca_rdb = Some R, ca_ttl = ttl\<rparr>) ps r) (stored @ ps)"
proof (induction ps rule: rev_induct)
  case (snoc p ps)
  obtain d snap where p: "p = (d, snap)" by force
  from put [OF snoc, of d snap] show ?case by (simp add: p)
qed (use assms in simp)

text \<open>The cache of a reachable process holds only answers of engines it has been through.\<close>

definition cache_true ::
  "snapCodec \<Rightarrow> 'r RedisClient \<Rightarrow> i64 \<Rightarrow> LocalEngine list \<Rightarrow> 'r \<Rightarrow> bool" where
  "cache_true js R ttl es r \<longleftrightarrow> (\<exists>stored. cache_reach js R ttl r stored \<and>
     (\<forall>(d, snap)\<in>set stored. \<exists>e\<in>set es. answered e d snap))"

lemma cache_true_stores:
  assumes "cache_true (srv_codec s) R ttl es (wd_redis w)" and "stores s w w'"
    and "srv_cache s = Some \<lparr>ca_rdb = Some R, ca_ttl = ttl\<rparr>"
  shows "cache_true (srv_codec s) R ttl (es @ [wd_engine w']) (wd_redis w')"
proof -
  obtain stored where st: "cache_reach (srv_codec s) R ttl (wd_redis w) stored"
      "\<forall>(d, snap)\<in>set stored. \<exists>e\<in>set es. answered e d snap"
    using assms(1) by (auto simp: cache_true_def)
  obtain ps where ps: "wd_redis w' = put_all (srv_codec s) (srv_cache s) ps (wd_redis w)"
      "\<forall>(d, snap)\<in>set ps. answered (wd_engine w') d snap"
    using assms(2) by (auto simp: stores_def)
  have "cache_reach (srv_codec s) R ttl (wd_redis w') (stored @ ps)"
    using cache_reach_puts [OF st(1), of ps] by (simp add: ps(1) assms(3))
  moreover have "\<forall>(d, snap)\<in>set (stored @ ps). \<exists>e\<in>set (es @ [wd_engine w']). answered e d snap"
    using st(2) ps(2) by fastforce
  ultimately show ?thesis unfolding cache_true_def by blast
qed

lemma process_wired:
  "process_reach sc rdb env bo g fd hy p \<Longrightarrow>
   srv_cache (gw_server g) = Some \<lparr>ca_rdb = Some rdb, ca_ttl = word_of_int (cf_CacheTTL (gw_config g))\<rparr>"
proof (induction rule: process_reach.induct)
  case (boots wr seeds p rng n)
  then show ?case by (auto simp: boot_def Load_def CacheNew_def split: option.splits sum.splits)
qed simp_all

lemma process_cache:
  assumes eng: "srv_eng (gw_server g) = localOps" and run: "process_reach sc rdb env bo g fd hy p"
  shows "cache_true (srv_codec (gw_server g)) rdb (word_of_int (cf_CacheTTL (gw_config g))) (hy_engines hy) (wd_redis (world_of p))"
  using run
proof (induction rule: process_reach.induct)
  case (boots wr seeds p rng n)
  have "cache_reach (srv_codec (gw_server g)) rdb ttl (wd_redis (world_of p)) []" for ttl
    using boots(6) by (intro cold) auto
  then show ?case unfolding cache_true_def by force
next
  case (request hy p n rq rc path h rsp rl a p' hy')
  have "stores (gw_server (gated g (pc_gate p))) (ap_world (snd (pc_limiter p, pc_app p)))
      (ap_world (snd (snd (gatewayHandler (gated g (pc_gate p)) rc path h rq (pc_limiter p, pc_app p)))))"
    by (rule chain_world) (simp_all add: stores_none handlers_store eng)
  then have "stores (gw_server g) (world_of p) (world_of p')"
    using request.hyps(5,6) by (simp add: world_of_def stores_def)
  from cache_true_stores [OF request.IH this process_wired [OF request.hyps(1)]] show ?case by (simp add: request.hyps(7))
next
  case (fan_out hy p p' ch k)
  from cache_true_stores [OF fan_out.IH runTask_store [OF eng] process_wired [OF fan_out.hyps(1)], of ch k]
  show ?case by (simp add: fan_out.hyps(2))
next
  case (sim_tick hy p m n tk chs m' w p')
  from cache_true_stores [OF sim_tick.IH simTurn_store [OF eng] process_wired [OF sim_tick.hyps(1)], of tk chs "ms_syms m" m]
  show ?case by (simp add: sim_tick.hyps(6,7))
next
  case (lapse hy p r)
  let ?ttl = "word_of_int (cf_CacheTTL (gw_config g))"
  obtain stored where "cache_reach (srv_codec (gw_server g)) rdb ?ttl (wd_redis (world_of p)) stored"
      "\<forall>(d, snap)\<in>set stored. \<exists>e\<in>set (hy_engines hy). answered e d snap"
    using lapse.IH by (auto simp: cache_true_def)
  moreover from this(1) lapse.hyps(2) have "cache_reach (srv_codec (gw_server g)) rdb ?ttl r stored" by (rule cache_reach.lapse)
  ultimately show ?case unfolding cache_true_def by (intro exI [of _ stored]) simp
qed simp_all

end
