(* ===== verification/ProcessProps.thy ===== *)
theory ProcessProps
  imports Process
begin

text \<open>
  Properties of the running process: what holds in every state it reaches, with all its parts at
  work at once.
\<close>

section \<open>A sample process\<close>

definition sample_live :: "(LocalEngine, string \<rightharpoonup> string, kafkaMessage list, User list) Gateway" where
  "sample_live = sample_gateway\<lparr>gw_auth := None, gw_server := sample_server\<lparr>srv_cache :=
     Some \<lparr>ca_rdb = Some sample_redis, ca_ttl = word_of_int (cf_CacheTTL (loadConfig sample_strconv sample_env))\<rparr>,
     srv_codec := \<lparr>js_Marshal = (\<lambda>s. if s = sample_snapshot then Inr ''book'' else Inl ''unsupported''),
       js_Unmarshal = (\<lambda>raw. Inr sample_snapshot)\<rparr>\<rparr>\<rparr>"

definition sample_feeds :: Feeds where
  "sample_feeds = \<lparr>fd_signal = (\<lambda>v. Inr \<lparr>prs_Kind = 2, prs_AccountId = ''acct-1'', prs_Symbol = '''', prs_Score = 0,
       prs_Action = (if v = ''reject'' then SignalAction_REJECT else SignalAction_ALLOW), prs_Reason = v, prs_TsMillis = 0\<rparr>),
     fd_numText = (\<lambda>_. ''''), fd_trade = (\<lambda>v. Inl ''bad wire data''),
     fd_riskJson = (\<lambda>r. Inr (rw_Reason (rwe_Data r))), fd_tapeJson = (\<lambda>t. Inl ''unsupported'')\<rparr>"

definition sample_process :: "(string \<rightharpoonup> string, kafkaMessage list, User list, nat) Process" where
  "sample_process = \<lparr>pc_limiter = NewRateLimiter (Finite 20) 40,
     pc_app = \<lparr>ap_world = sample_world\<lparr>wd_engine := NewLocalEngine demoSymbols\<rparr>,
       ap_auth = \<lparr>aw_users = [], aw_seeds = []\<rparr>, ap_sim = Some (newMarketSim demoSymbols 3)\<rparr>, pc_gate = NewGate\<rparr>"

lemma sample_live_simps [simp]:
  "srv_eng (gw_server sample_live) = localOps" "gw_jwt sample_live = sample_jwt" "gw_auth sample_live = None"
  "gw_config sample_live = loadConfig sample_strconv sample_env"
  "srv_decodeOrder (gw_server sample_live) = srv_decodeOrder sample_server"
  by (simp_all add: sample_live_def sample_gateway_def sample_server_def)

lemma sample_process_reach:
  "process_reach sample_strconv sample_redis sample_env sample_outcome sample_live sample_feeds
     (booted 9 (NewLocalEngine demoSymbols)) sample_process"
proof -
  obtain wr where wr: "boot sample_strconv sample_redis sample_env sample_outcome = Inr wr" "wr_engine wr = InProcess demoSymbols"
      "wr_config wr = loadConfig sample_strconv sample_env" "wr_tokens wr = None" "wr_limiter wr = NewRateLimiter (Finite 20) 40"
      "wr_gate wr = NewGate" "wr_hub wr = NewHub" "\<exists>every. wr_sim wr = Some (demoSymbols, every)"
    by (rule sample_boot)
  obtain every where sim: "wr_sim wr = Some (demoSymbols, every)" using wr(8) by blast
  have cache: "wr_cache wr = \<lparr>ca_rdb = Some sample_redis, ca_ttl = word_of_int (cf_CacheTTL (loadConfig sample_strconv sample_env))\<rparr>"
    using wr(1) by (auto simp: boot_def Load_def CacheNew_def split: option.splits sum.splits)
  show ?thesis
    by (rule boots [OF wr(1,2), where rng = 3])
      (simp_all add: wr(3-7) sim cache sample_live_def sample_gateway_def sample_process_def world_of_def sample_world_def
        sample_redis_def)
qed

section \<open>The exchange\<close>

text \<open>C14: invariant, of the whole process. From the moment the gateway has booted with the in-process
  engine, whatever requests arrive over HTTP and however they are interleaved with fan-outs, ticks
  of the simulator, the consumers and the hub, the engine's books stay well formed and uncrossed
  between accounts and every account reconciles with its executions, as long as the counters and
  the quantities asked for fit an \<open>int64\<close>.\<close>

theorem system_keeps_the_exchange_sound:
  assumes "srv_eng (gw_server g) = localOps" and "process_reach sc rdb env bo g fd hy p"
  shows "books_ok (wd_engine (world_of p)) \<and> account_reconciles (le_accounts (wd_engine (world_of p))) acct"
  using process_engine [OF assms] by (simp add: engine_inv_def ledger_ok_def)

text \<open>The sample process after one request.\<close>

definition sample_served ::
  "string list \<Rightarrow> HttpRequest \<Rightarrow> (string \<rightharpoonup> string, kafkaMessage list, User list, nat) Process" where
  "sample_served path rq =
     (let (rsp, rl, a) = gatewayHandler (gated sample_live (pc_gate sample_process)) sample_req path Map.empty rq
            (pc_limiter sample_process, pc_app sample_process)
      in sample_process\<lparr>pc_limiter := rl, pc_app := a\<rparr>)"

lemma requestVolume_bound: "requestVolume s rq < 2 ^ 63"
  using sint_lt [where 'a = 64] by (simp add: requestVolume_def order_volume_def split: sum.split)

lemma sample_served_reach:
  obtains hy where "process_reach sample_strconv sample_redis sample_env sample_outcome sample_live sample_feeds hy
    (sample_served path rq)"
proof -
  obtain rsp rl a where r: "gatewayHandler (gated sample_live (pc_gate sample_process)) sample_req path Map.empty rq
      (pc_limiter sample_process, pc_app sample_process) = (rsp, rl, a)" by (metis prod_cases3)
  have vol: "hy_volume (booted 9 (NewLocalEngine demoSymbols)) + requestVolume (gw_server sample_live) rq < 2 ^ 63"
    using requestVolume_bound by simp
  have fresh: "hb_objects (wd_hub (world_of sample_process)) (rc_client sample_req) = None"
    by (simp add: sample_process_def world_of_def sample_world_def NewHub_def)
  have room: "hy_room (booted 9 (NewLocalEngine demoSymbols)) = Suc 8" by simp
  have after: "sample_served path rq = sample_process\<lparr>pc_limiter := rl, pc_app := a\<rparr>" by (simp add: sample_served_def r)
  show ?thesis by (rule that, rule request [OF sample_process_reach room vol fresh r after refl])
qed

definition sample_post :: HttpRequest where
  "sample_post = (sample_bearer ''A'')\<lparr>rq_method := ''POST'', rq_body := ''buy''\<rparr>"

definition sample_after :: "(string \<rightharpoonup> string, kafkaMessage list, User list, nat) Process" where
  "sample_after = sample_served [''orders''] sample_post"

lemma sample_after_reach:
  obtains hy where "process_reach sample_strconv sample_redis sample_env sample_outcome sample_live sample_feeds hy sample_after"
  unfolding sample_after_def by (rule sample_served_reach)

theorem system_keeps_the_exchange_sound_witness: "books_ok (wd_engine (world_of sample_after))"
proof -
  obtain hy where run: "process_reach sample_strconv sample_redis sample_env sample_outcome sample_live sample_feeds hy sample_after"
    by (rule sample_after_reach)
  have eng: "srv_eng (gw_server sample_live) = localOps" by simp
  from system_keeps_the_exchange_sound [OF eng run] show ?thesis by simp
qed

section \<open>The risk gate\<close>

lemma handleSubmit_flagged:
  assumes "srv_risk s (rq_account rq) = (True, reason)" and "rq_account rq \<noteq> ''''"
  shows "rsp_status (fst (handleSubmit s ch h rq w)) \<in> {400, 422}"
    and "wd_engine (snd (handleSubmit s ch h rq w)) = wd_engine w \<and> wd_tasks (snd (handleSubmit s ch h rq w)) = wd_tasks w \<and>
      wd_hub (snd (handleSubmit s ch h rq w)) = wd_hub w"
  using assms by (simp_all add: handleSubmit_def attributed_def Let_def split: sum.split)

lemma bearerToken_path: "bearerToken (rq\<lparr>rq_path := f\<rparr>) = bearerToken rq"
  by (simp add: bearerToken_def Let_def)

text \<open>C30: safety, across the risk consumer, the middleware and the handler. In every state the
  process reaches, an account whose latest consumed signal is a REJECT cannot trade: whatever order
  it posts with a valid token is answered 400, 422 or 429, and the engine, the hub and the pending
  fan-outs are as before.\<close>

theorem flagged_accounts_cannot_trade:
  fixes h :: headers
  assumes "process_reach sc rdb env bo g fd hy p"
    and "last_signal (cm_Subject claims) (hy_signals hy) = Some sig" and "prs_Action sig = SignalAction_REJECT"
    and "jw_Parse (gw_jwt g) (hmacKey (cf_JWTSecret (gw_config g))) (rc_now rc) (bearerToken rq) = Inr claims"
    and "bearerToken rq \<noteq> ''''" and "cm_Kind claims \<noteq> ''refresh''" and "cm_Subject claims \<noteq> ''''"
    and "rq_method rq = ''POST''"
    and "answer = gatewayHandler (gated g (pc_gate p)) rc [''orders''] h rq (pc_limiter p, pc_app p)"
  shows "rsp_status (fst answer) \<in> {400, 422, 429} \<and>
    wd_engine (ap_world (snd (snd answer))) = wd_engine (world_of p) \<and>
    wd_hub (ap_world (snd (snd answer))) = wd_hub (world_of p) \<and>
    wd_tasks (ap_world (snd (snd answer))) = wd_tasks (world_of p)"
proof -
  let ?rq = "rq\<lparr>rq_path := \<lambda>k. '''', rq_account := cm_Subject claims\<rparr>" and ?s = "gw_server (gated g (pc_gate p))"
  let ?hnd = "on_world (handleSubmit ?s (rc_api rc))" and ?secret = "cf_JWTSecret (gw_config g)"
  have "GateBlocked (pc_gate p) (cm_Subject claims) = (True, prs_Reason sig)"
    using process_gate [OF assms(1)] gate_fold [OF assms(7)] assms(2,3) by (simp add: verdict_def)
  then have "srv_risk ?s (rq_account ?rq) = (True, prs_Reason sig)" by simp
  note flagged = handleSubmit_flagged [OF this]
  obtain h' where a: "answer = protect (gw_jwt g) ?secret (rc_now rc) ?hnd h' (rq\<lparr>rq_path := \<lambda>k. ''''\<rparr>) (pc_limiter p, pc_app p)"
    using orders_route [OF assms(8), of "gated g (pc_gate p)" rc h "(pc_limiter p, pc_app p)"] unfolding assms(9) by auto
  have jwt: "jwtMiddleware (gw_jwt g) ?secret (rc_now rc) ?hnd h' (rq\<lparr>rq_path := \<lambda>k. ''''\<rparr>) w = ?hnd h' ?rq w" for w
    using assms(4-6) by (simp add: jwtMiddleware_def bearerToken_path Let_def)
  have hnd: "fst (?hnd h' ?rq a) = fst (handleSubmit ?s (rc_api rc) h' ?rq (ap_world a))"
    "ap_world (snd (?hnd h' ?rq a)) = snd (handleSubmit ?s (rc_api rc) h' ?rq (ap_world a))" for a
    by (simp_all add: on_world_def case_prod_beta Let_def)
  show ?thesis
  proof (cases "fst (Allow (pc_limiter p) (rc_now rc) (clientIP (rq\<lparr>rq_path := \<lambda>k. ''''\<rparr>)))")
    case True
    then show ?thesis using flagged assms(7) by (auto simp: a protect_def limited_state jwt hnd world_of_def)
  next
    case False
    then show ?thesis by (simp add: a protect_def limited_state world_of_def)
  qed
qed

theorem flagged_accounts_cannot_trade_witness:
  "rsp_status (fst (gatewayHandler (gated sample_live (pc_gate (signalTurn sample_feeds ''reject'' sample_process))) sample_req
     [''orders''] Map.empty sample_post (pc_limiter sample_process, pc_app (signalTurn sample_feeds ''reject'' sample_process))))
     \<in> {400, 422, 429}"
proof -
  let ?p = "signalTurn sample_feeds ''reject'' sample_process"
  let ?sig = "projr (fd_signal sample_feeds ''reject'')" and ?hy = "(booted 9 (NewLocalEngine demoSymbols))
      \<lparr>hy_signals := hy_signals (booted 9 (NewLocalEngine demoSymbols)) @ decodedOf (fd_signal sample_feeds) ''reject''\<rparr>"
  have run: "process_reach sample_strconv sample_redis sample_env sample_outcome sample_live sample_feeds ?hy ?p"
    by (rule signal [OF sample_process_reach])
  have sig: "last_signal (cm_Subject (sample_claims '''' 900)) (hy_signals ?hy) = Some ?sig" "prs_Action ?sig = SignalAction_REJECT"
    by (simp_all add: decodedOf_def sample_feeds_def last_signal_def sample_claims_def)
  have bearer: "bearerToken sample_post = ''A''"
    by (rule bearer_header) (simp_all add: sample_post_def sample_bearer_def)
  have parse: "jw_Parse (gw_jwt sample_live) (hmacKey (cf_JWTSecret (gw_config sample_live))) (rc_now sample_req) (bearerToken sample_post) =
      Inr (sample_claims '''' 900)"
    by (simp add: bearer sample_jwt_def hmacKey_def sample_req_def second_def loadConfig_def getenv_def sample_env_def)
  have side: "bearerToken sample_post \<noteq> ''''" "cm_Kind (sample_claims '''' 900) \<noteq> ''refresh''"
    "cm_Subject (sample_claims '''' 900) \<noteq> ''''" "rq_method sample_post = ''POST''"
    by (simp_all add: bearer) (simp_all add: sample_claims_def sample_post_def)
  have limiter: "pc_limiter ?p = pc_limiter sample_process"
    by (simp add: signalTurn_def with_world_def Let_def split: sum.split)
  from flagged_accounts_cannot_trade [OF run sig parse side refl, where h = Map.empty] show ?thesis
    unfolding limiter by (rule conjunct1)
qed

section \<open>The books that are shown\<close>

lemma process_last:
  "process_reach sc rdb env bo g fd hy p \<Longrightarrow> hy_engines hy \<noteq> [] \<and> last (hy_engines hy) = wd_engine (world_of p)"
  by (induction rule: process_reach.induct) (simp_all add: last_append)

text \<open>A book in an answer is the engine's now, or a hit.\<close>

lemma handleBook_body:
  assumes "srv_eng s = localOps" and "rsp_body (fst (handleBook s ch h rq w)) = BookBody snap"
  shows "CacheGetBook (srv_codec s) (srv_cache s) (wd_redis w) (rq_path rq ''symbol'') (depthParam (rq_query rq ''depth'')) = Some snap \<or>
    bs_Symbol snap = rq_path rq ''symbol'' \<and> answered (wd_engine w) (depthParam (rq_query rq ''depth'')) snap"
proof -
  obtain now bk ak where ch: "ch_book ch = (now, bk, ak)" by (metis prod_cases3)
  have same: "answered e' d b = answered e d b" if "GetBook e cx r now bk ak = (x, e')" for e cx r x e' d b
    using answered_same GetBook_orders [of e cx r now bk ak] that by (metis snd_conv)
  show ?thesis
    using assms(2) GetBook_answered same
    by (fastforce simp: handleBook_def assms(1) ch Let_def split: if_splits option.splits sum.splits prod.splits)
qed

lemma protect_body:
  assumes "rsp_body (fst (protect jw secret now hnd h rq st)) = BookBody snap"
  obtains acct where "rsp_body (fst (hnd h (rq\<lparr>rq_account := acct\<rparr>) (snd st))) = BookBody snap"
proof (cases "fst (Allow (fst st) now (clientIP rq))")
  case True
  then have "rsp_body (fst (jwtMiddleware jw secret now hnd h rq (snd st))) = BookBody snap"
    using assms by (simp add: protect_def limited_state)
  then show ?thesis using that
    by (auto simp: jwtMiddleware_def unauthorized_def httpError_def Let_def split: if_splits sum.splits)
next
  case False
  then show ?thesis using assms
    by (simp add: protect_def rateMiddleware_def case_prod_beta Let_def httpError_def)
qed

definition book_path :: "string \<Rightarrow> string \<Rightarrow> string" where
  "book_path sy k = (if k = ''symbol'' then sy else '''')"

lemma book_mux:
  assumes "rq_method rq = ''GET''" and "sy \<noteq> ''''"
  shows "ServeMux (Routes g rc sim) [''book'', sy] h rq st =
    protect (gw_jwt g) (cf_JWTSecret (gw_config g)) (rc_now rc) (on_world (handleBook (gw_server g) (rc_api rc))) h
      (rq\<lparr>rq_path := book_path sy\<rparr>) st"
proof -
  have path: "(\<lambda>k. case map_of [(''symbol'', sy)] k of None \<Rightarrow> '''' | Some v \<Rightarrow> v) = book_path sy"
    by (simp add: book_path_def fun_eq_iff)
  show ?thesis
    using assms path by (cases "gw_auth g") (simp_all add: ServeMux_def Routes_def methodMatches_def Let_def)
qed

text \<open>C31: functional, across the chain, the cache and the engine. Every book the gateway shows is real:
  whatever the process went through, an answer to GET /book/{symbol} that carries a book carries
  one for exactly this symbol that the engine itself gives, at exactly this depth, in the present
  state or in one the process was in since it booted.\<close>

theorem every_book_shown_is_real:
  fixes h :: headers
  assumes "srv_eng (gw_server g) = localOps" and "process_reach sc rdb env bo g fd hy p" and "redis_laws rdb"
    and "\<And>e d b. e \<in> set (hy_engines hy) \<Longrightarrow> answered e d b \<Longrightarrow> faithful (srv_codec (gw_server g)) b" and "rq_method rq = ''GET''" and "sy \<noteq> ''''"
    and "rsp_body (fst (gatewayHandler (gated g (pc_gate p)) rc [''book'', sy] h rq (pc_limiter p, pc_app p))) = BookBody snap"
  shows "bs_Symbol snap = sy \<and> (\<exists>e\<in>set (hy_engines hy). answered e (depthParam (rq_query rq ''depth'')) snap)"
proof -
  let ?g = "gated g (pc_gate p)" and ?d = "depthParam (rq_query rq ''depth'')"
  obtain h' where "rsp_body (fst (protect (gw_jwt ?g) (cf_JWTSecret (gw_config ?g)) (rc_now rc)
      (on_world (handleBook (gw_server ?g) (rc_api rc))) h' (rq\<lparr>rq_path := book_path sy\<rparr>) (pc_limiter p, pc_app p))) = BookBody snap"
  proof (cases rule: gatewayHandler_cases [where g = ?g and rc = rc and path = "[''book'', sy]" and h = h and rq = rq
      and st = "(pc_limiter p, pc_app p)"])
    case preflight
    then show ?thesis using assms(5) by simp
  next
    case (routed h')
    show ?thesis by (rule that [of h']) (use assms(7) in \<open>simp only: routed(2) book_mux [OF assms(5,6)]\<close>)
  qed
  then obtain acct where "rsp_body (fst (on_world (handleBook (gw_server ?g) (rc_api rc)) h'
      (rq\<lparr>rq_path := book_path sy, rq_account := acct\<rparr>) (pc_app p))) = BookBody snap"
    by (elim protect_body) simp
  then have "rsp_body (fst (handleBook (gw_server ?g) (rc_api rc) h' (rq\<lparr>rq_path := book_path sy, rq_account := acct\<rparr>) (world_of p)))
      = BookBody snap" by (simp add: on_world_def world_of_def case_prod_beta Let_def)
  from handleBook_body [OF _ this] assms(1)
  consider "CacheGetBook (srv_codec (gw_server g)) (srv_cache (gw_server g)) (wd_redis (world_of p)) sy ?d = Some snap"
    | "bs_Symbol snap = sy" "answered (wd_engine (world_of p)) ?d snap" by (auto simp: book_path_def)
  then show ?thesis
  proof cases
    case 1
    obtain stored where st: "cache_reach (srv_codec (gw_server g)) rdb (word_of_int (cf_CacheTTL (gw_config g))) (wd_redis (world_of p)) stored"
        "\<forall>(d, b)\<in>set stored. \<exists>e\<in>set (hy_engines hy). answered e d b"
      using process_cache [OF assms(1,2)] by (auto simp: cache_true_def)
    have "\<forall>(d, b)\<in>set stored. faithful (srv_codec (gw_server g)) b" using st(2) assms(4) by fast
    then have "(?d, snap) \<in> set stored \<and> bs_Symbol snap = sy"
      by (intro cache_hit_stored [OF st(1) assms(3)]) (use 1 process_wired [OF assms(2)] in simp_all)
    then show ?thesis using st(2) by auto
  next
    case 2
    then show ?thesis using process_last [OF assms(2)] by (metis last_in_set)
  qed
qed

definition sample_get :: HttpRequest where
  "sample_get = sample_bearer ''A''"

text \<open>The first request of the sample process passes the limiter and the JWT middleware.\<close>

lemma sample_req_simps [simp]: "rc_now sample_req = 0" "rc_api sample_req = sample_choices" "rc_client sample_req = 0"
    "rc_upgradeErr sample_req = None"
  by (simp_all add: sample_req_def)

lemma sample_get_auth: "bearerToken sample_get = ''A''" "rq_method sample_get \<noteq> ''OPTIONS''"
proof -
  show "bearerToken sample_get = ''A''" by (rule bearer_header) (simp_all add: sample_get_def sample_bearer_def)
  show "rq_method sample_get \<noteq> ''OPTIONS''" by (simp add: sample_get_def sample_bearer_def)
qed

lemma sample_passes:
  fixes hnd :: "(LocalEngine, string \<rightharpoonup> string, kafkaMessage list) World handler"
  assumes auth: "bearerToken rq = ''A''" "rq_method rq \<noteq> ''OPTIONS''" and mux: "\<And>h. ServeMux (Routes (gated sample_live NewGate) sample_req (Some (newMarketSim demoSymbols 3))) path h rq
      (NewRateLimiter (Finite 20) 40, pc_app sample_process) = protect sample_jwt ''k'' 0 (on_world hnd) h (rq\<lparr>rq_path := f\<rparr>)
      (NewRateLimiter (Finite 20) 40, pc_app sample_process)"
  obtains h' where "fst (gatewayHandler (gated sample_live NewGate) sample_req path Map.empty rq
      (NewRateLimiter (Finite 20) 40, pc_app sample_process)) =
      fst (hnd h' (rq\<lparr>rq_path := f, rq_account := ''acct-1''\<rparr>) (world_of sample_process))"
    and "ap_world (snd (snd (gatewayHandler (gated sample_live NewGate) sample_req path Map.empty rq
      (NewRateLimiter (Finite 20) 40, pc_app sample_process)))) =
      snd (hnd h' (rq\<lparr>rq_path := f, rq_account := ''acct-1''\<rparr>) (world_of sample_process))"
proof -
  let ?st = "(NewRateLimiter (Finite 20) 40 :: RateLimiter, pc_app sample_process)" and ?g = "gated sample_live NewGate"
  let ?rq = "rq\<lparr>rq_path := f\<rparr>"
  have jwt: "jwtMiddleware sample_jwt ''k'' 0 (on_world hnd) h ?rq (pc_app sample_process) =
      on_world hnd h (?rq\<lparr>rq_account := ''acct-1''\<rparr>) (pc_app sample_process)" for h
    using auth(1) by (simp add: jwtMiddleware_def bearerToken_path sample_jwt_def hmacKey_def sample_claims_def second_def Let_def)
  have allowed: "fst (Allow (NewRateLimiter (Finite 20) 40) 0 k)" for k by (simp add: Allow_def NewRateLimiter_def)
  have sim: "ap_sim (snd ?st) = Some (newMarketSim demoSymbols 3)" by (simp add: sample_process_def)
  obtain h' where "gatewayHandler ?g sample_req path Map.empty rq ?st =
      ServeMux (Routes ?g sample_req (ap_sim (snd ?st))) path h' rq ?st"
    by (cases rule: gatewayHandler_cases [where g = ?g and rc = sample_req and path = path and h = Map.empty
        and rq = rq and st = ?st]) (use auth(2) in auto)
  also have "\<dots> = protect sample_jwt ''k'' 0 (on_world hnd) h' ?rq ?st"
    unfolding sim by (rule mux)
  finally show ?thesis
    by (intro that [of h'])
      (simp_all add: protect_def limited_state allowed jwt on_world_def world_of_def case_prod_beta Let_def)
qed

lemma sample_secret: "cf_JWTSecret (loadConfig sample_strconv sample_env) = ''k''"
  by (simp add: loadConfig_def getenv_def sample_env_def)

lemma sample_get_book:
  "\<exists>snap. rsp_body (fst (gatewayHandler (gated sample_live NewGate) sample_req [''book'', ''AAPL''] Map.empty sample_get
     (NewRateLimiter (Finite 20) 40, pc_app sample_process))) = BookBody snap"
proof -
  have get: "rq_method sample_get = ''GET''" by (simp add: sample_get_def sample_bearer_def)
  obtain b e' where b: "GetBook (NewLocalEngine demoSymbols) None \<lparr>br_Symbol = ''AAPL'', br_Depth = 5\<rparr> 3 [9995, 9997, 9999, 9998, 9996]
      [10001, 10005, 10002, 10004, 10003] = (Inr b, e')" using GetBook_answers by blast
  have cold: "CacheGetBook js (srv_cache (gw_server sample_live)) Map.empty sy d = None" for js sy d
    by (simp add: CacheGetBook_def sample_live_def sample_redis_def)
  have mux: "ServeMux (Routes (gated sample_live NewGate) sample_req (Some (newMarketSim demoSymbols 3))) [''book'', ''AAPL''] h sample_get st =
      protect sample_jwt ''k'' 0 (on_world (handleBook (gw_server (gated sample_live NewGate)) sample_choices)) h
        (sample_get\<lparr>rq_path := book_path ''AAPL''\<rparr>) st" for h and st :: "RateLimiter \<times> (LocalEngine, string \<rightharpoonup> string, kafkaMessage list, User list, nat) App"
    using book_mux [OF get, of "''AAPL''" "gated sample_live NewGate" sample_req _ h st] by (simp add: sample_secret)
  obtain h' where "fst (gatewayHandler (gated sample_live NewGate) sample_req [''book'', ''AAPL''] Map.empty sample_get
      (NewRateLimiter (Finite 20) 40, pc_app sample_process)) = fst (handleBook (gw_server (gated sample_live NewGate)) sample_choices h'
        (sample_get\<lparr>rq_path := book_path ''AAPL'', rq_account := ''acct-1''\<rparr>) (world_of sample_process))"
    using sample_passes [OF sample_get_auth mux] by metis
  then show ?thesis
    by (simp add: handleBook_def book_path_def sample_get_def sample_bearer_def depthParam_def sample_process_def world_of_def
        sample_world_def sample_choices_def cold b Let_def)
qed

theorem every_book_shown_is_real_witness:
  "\<exists>snap. rsp_body (fst (gatewayHandler (gated sample_live NewGate) sample_req [''book'', ''AAPL''] Map.empty sample_get
     (NewRateLimiter (Finite 20) 40, pc_app sample_process))) = BookBody snap \<and> bs_Symbol snap = ''AAPL''"
proof -
  obtain snap where snap: "rsp_body (fst (gatewayHandler (gated sample_live NewGate) sample_req [''book'', ''AAPL'']
     Map.empty sample_get (NewRateLimiter (Finite 20) 40, pc_app sample_process))) = BookBody snap" using sample_get_book by blast
  have laws: "redis_laws sample_redis" by (auto simp: redis_laws_def sample_redis_def)
  have eng: "srv_eng (gw_server sample_live) = localOps" by simp
  have codec: "faithful (srv_codec (gw_server sample_live)) b" for b
    by (simp add: sample_live_def faithful_def)
  have get: "rq_method sample_get = ''GET''" by (simp add: sample_get_def sample_bearer_def)
  have start: "pc_gate sample_process = NewGate" "pc_limiter sample_process = NewRateLimiter (Finite 20) 40"
    by (simp_all add: sample_process_def)
  have "bs_Symbol snap = ''AAPL''"
    by (rule every_book_shown_is_real [OF eng sample_process_reach laws codec get _ snap [folded start], THEN conjunct1]) simp
  then show ?thesis using snap by blast
qed

section \<open>The dashboards and the counters\<close>

text \<open>C32: safety, of the whole process. However requests, fills, the simulator and the two consumers
  feed the hub, in every state it never panics: fanning out whatever is next (or nothing), in any
  order of the range over the clients, and unregistering any client close no channel twice and send
  on no closed channel. And in every state a connected dashboard whose connection works has, written
  or still buffered, exactly the messages fanned out since it registered, all of them, once each and
  in order, while one that was dropped has an initial part of them.\<close>

theorem dashboards_miss_nothing:
  assumes "process_reach sc rdb env bo g fd hy p"
  shows "(\<forall>ks. mset ks = mset (hb_clients (wd_hub (world_of p))) \<longrightarrow> (\<exists>hub. hubDeliver ks (wd_hub (world_of p)) = Inr hub)) \<and>
    (\<forall>c. \<exists>hub. hubUnregister c (wd_hub (world_of p)) = Inr hub) \<and>
    (\<forall>c cl. hb_objects (wd_hub (world_of p)) c = Some cl \<longrightarrow> \<not> cl_done cl \<longrightarrow>
      (\<exists>n\<le>length (hy_sent hy). hy_since hy c = Some n \<and>
        prefix (cl_written cl @ cl_send cl) (drop n (hy_sent hy)) \<and>
        (c \<in> set (hb_clients (wd_hub (world_of p))) \<longrightarrow> cl_written cl @ cl_send cl = drop n (hy_sent hy))))"
proof -
  let ?h = "wd_hub (world_of p)"
  have ok: "hub_ok ?h (hy_sent hy) (hy_since hy)" by (rule hub_reach_ok [OF process_hub [OF assms(1)]])
  have "\<exists>hub. hubDeliver ks ?h = Inr hub" if "mset ks = mset (hb_clients ?h)" for ks
    using hubDeliver_result [OF ok _ that] by (cases "hb_broadcast ?h") (auto simp: hubDeliver_def)
  moreover have "\<exists>n\<le>length (hy_sent hy). hy_since hy c = Some n \<and> prefix (cl_written cl @ cl_send cl) (drop n (hy_sent hy)) \<and>
      (c \<in> set (hb_clients ?h) \<longrightarrow> cl_written cl @ cl_send cl = drop n (hy_sent hy))"
    if "hb_objects ?h c = Some cl" "\<not> cl_done cl" for c cl
    using hub_okD(4) [OF ok that(1)] that(2) by (auto simp: client_ok_def received_def)
  ultimately show ?thesis using hubUnregister_result [OF ok] by blast
qed

text \<open>The sample process with one dashboard connected and one signal queued for it.\<close>

definition sample_dashboard :: "(string \<rightharpoonup> string, kafkaMessage list, User list, nat) Process" where
  "sample_dashboard = signalTurn sample_feeds ''reject'' (sample_served [''ws''] sample_get)"

lemma ws_mux:
  assumes "rq_method rq = ''GET''"
  shows "ServeMux (Routes g rc sim) [''ws''] h rq st =
    protect (gw_jwt g) (cf_JWTSecret (gw_config g)) (rc_now rc) (on_world (handleWS rc)) h (rq\<lparr>rq_path := \<lambda>k. ''''\<rparr>) st"
  using assms by (cases "gw_auth g") (simp_all add: ServeMux_def Routes_def methodMatches_def Let_def)

lemma sample_dashboard_hub:
  "wd_hub (world_of sample_dashboard) = (serveWS 0 NewHub)\<lparr>hb_broadcast := [''reject'']\<rparr>"
proof -
  have get: "rq_method sample_get = ''GET''" by (simp add: sample_get_def sample_bearer_def)
  have mux: "ServeMux (Routes (gated sample_live NewGate) sample_req (Some (newMarketSim demoSymbols 3))) [''ws''] h sample_get st =
      protect sample_jwt ''k'' 0 (on_world (handleWS sample_req)) h (sample_get\<lparr>rq_path := \<lambda>k. ''''\<rparr>) st"
    for h and st :: "RateLimiter \<times> (LocalEngine, string \<rightharpoonup> string, kafkaMessage list, User list, nat) App"
    using ws_mux [OF get, of "gated sample_live NewGate" sample_req _ h st] by (simp add: sample_secret)
  obtain h' where w: "ap_world (snd (snd (gatewayHandler (gated sample_live NewGate) sample_req [''ws''] Map.empty sample_get
      (NewRateLimiter (Finite 20) 40, pc_app sample_process)))) =
      snd (handleWS sample_req h' (sample_get\<lparr>rq_path := \<lambda>k. '''', rq_account := ''acct-1''\<rparr>) (world_of sample_process))"
    using sample_passes [OF sample_get_auth mux] by metis
  have start: "pc_gate sample_process = NewGate" "pc_limiter sample_process = NewRateLimiter (Finite 20) 40"
      "wd_hub (world_of sample_process) = NewHub"
    by (simp_all add: sample_process_def world_of_def sample_world_def)
  have "wd_hub (world_of (sample_served [''ws''] sample_get)) = serveWS 0 NewHub"
    using arg_cong [OF w, of wd_hub] start by (simp add: sample_served_def handleWS_def case_prod_beta Let_def)
  then show ?thesis
    by (simp add: sample_dashboard_def signalTurn_def sample_feeds_def riskHandle_def riskEnvelope_def Broadcast_def serveWS_def hubRegister_def
        NewHub_def broadcastBuffer_def Let_def)
qed

lemma sample_dashboard_reach:
  obtains hy where "process_reach sample_strconv sample_redis sample_env sample_outcome sample_live sample_feeds hy sample_dashboard"
proof -
  obtain hy where "process_reach sample_strconv sample_redis sample_env sample_outcome sample_live sample_feeds hy
      (sample_served [''ws''] sample_get)" by (rule sample_served_reach)
  from signal [OF this, of "''reject''"] show ?thesis by (rule that [unfolded sample_dashboard_def])
qed

theorem dashboards_miss_nothing_witness:
  "(\<exists>hub. hubDeliver [0] (wd_hub (world_of sample_dashboard)) = Inr hub) \<and>
   hb_broadcast (wd_hub (world_of sample_dashboard)) = [''reject'']"
proof -
  obtain hy where run: "process_reach sample_strconv sample_redis sample_env sample_outcome sample_live sample_feeds hy sample_dashboard"
    by (rule sample_dashboard_reach)
  have one: "mset [0] = mset (hb_clients (wd_hub (world_of sample_dashboard)))"
    by (simp add: sample_dashboard_hub serveWS_def hubRegister_def NewHub_def Let_def)
  then show ?thesis using dashboards_miss_nothing [OF run] by (simp add: sample_dashboard_hub)
qed

text \<open>C33: invariant. The counters of \<open>/metrics\<close> are what the gateway answered. The submissions it has
  counted are, in order, the labels of its answers to POST /orders (\<open>orderLabel\<close>): an acknowledgement
  counts once under its status, the gate's refusal once as \<open>risk_blocked\<close>, a 502 once as
  \<open>gateway_error\<close>, and any other answer (400, 401, 429) not at all; as many latencies were observed, the
  gate's rejections are the orders counted as blocked, no other label occurs; and every signal consumed
  was counted under its action.\<close>

theorem counters_add_up:
  assumes "srv_eng (gw_server g) = localOps" and "process_reach sc rdb env bo g fd hy p"
  defines "ms \<equiv> wd_metrics (world_of p)" and "decided \<equiv> concat (map orderLabel (hy_orders hy))"
  shows "submits ms = decided \<and> (\<forall>l. submitTotal l ms = count_list decided l) \<and> latencyCount ms = length decided \<and>
    riskRejects ms = count_list decided ''risk_blocked'' \<and> set decided \<subseteq> outcomeLabels \<and>
    signalActions ms = map (\<lambda>s. SignalAction_String (fd_numText fd) (prs_Action s)) (hy_signals hy)"
proof -
  have b: "balanced ms" "submits ms = decided"
    "signalActions ms = map (\<lambda>s. SignalAction_String (fd_numText fd) (prs_Action s)) (hy_signals hy)"
    using process_counts [OF assms(1,2)] by (simp_all add: ms_def decided_def)
  have "submitTotal l ms = count_list (submits ms) l" for l
    by (induction ms) (auto simp: submitTotal_def submits_def split: metric.split)
  then show ?thesis using b by (simp add: balanced_def)
qed

text \<open>One order that is acknowledged, and what is counted for it.\<close>

lemma sample_after_counts:
  obtains hy rsp where "process_reach sample_strconv sample_redis sample_env sample_outcome sample_live sample_feeds hy sample_after"
    and "hy_orders hy = [rsp]"
proof -
  obtain rsp rl a where r: "gatewayHandler (gated sample_live (pc_gate sample_process)) sample_req [''orders''] Map.empty sample_post
      (pc_limiter sample_process, pc_app sample_process) = (rsp, rl, a)" by (metis prod_cases3)
  have vol: "hy_volume (booted 9 (NewLocalEngine demoSymbols)) + requestVolume (gw_server sample_live) sample_post < 2 ^ 63"
    using requestVolume_bound by simp
  have fresh: "hb_objects (wd_hub (world_of sample_process)) (rc_client sample_req) = None"
    by (simp add: sample_process_def world_of_def sample_world_def NewHub_def)
  have room: "hy_room (booted 9 (NewLocalEngine demoSymbols)) = Suc 8" by simp
  have after: "sample_after = sample_process\<lparr>pc_limiter := rl, pc_app := a\<rparr>" by (simp add: sample_after_def sample_served_def r)
  show ?thesis
    by (rule that, rule request [OF sample_process_reach room vol fresh r after refl]) (simp add: sample_post_def)
qed

lemma sample_after_latency: "latencyCount (wd_metrics (world_of sample_after)) = 1"
proof -
  let ?g = "gated sample_live NewGate"
  have post: "rq_method sample_post = ''POST''" by (simp add: sample_post_def)
  have auth: "bearerToken sample_post = ''A''" "rq_method sample_post \<noteq> ''OPTIONS''"
    by (rule bearer_header) (simp_all add: sample_post_def sample_bearer_def)
  have mux: "ServeMux (Routes ?g sample_req (Some (newMarketSim demoSymbols 3))) [''orders''] h sample_post st =
      protect sample_jwt ''k'' 0 (on_world (handleSubmit (gw_server ?g) sample_choices)) h (sample_post\<lparr>rq_path := \<lambda>k. ''''\<rparr>) st"
    for h and st :: "RateLimiter \<times> (LocalEngine, string \<rightharpoonup> string, kafkaMessage list, User list, nat) App"
    using orders_mux [OF post, of ?g sample_req _ h st] by (simp add: sample_secret)
  obtain h' where w: "ap_world (snd (snd (gatewayHandler ?g sample_req [''orders''] Map.empty sample_post
      (NewRateLimiter (Finite 20) 40, pc_app sample_process)))) =
      snd (handleSubmit (gw_server ?g) sample_choices h' (sample_post\<lparr>rq_path := \<lambda>k. '''', rq_account := ''acct-1''\<rparr>) (world_of sample_process))"
    using sample_passes [OF auth mux] by metis
  have start: "pc_gate sample_process = NewGate" "pc_limiter sample_process = NewRateLimiter (Finite 20) 40"
      "wd_metrics (world_of sample_process) = []" "ch_ctxErr sample_choices = None"
    by (simp_all add: sample_process_def world_of_def sample_world_def sample_choices_def)
  let ?o = "attributed (sample_post\<lparr>rq_path := \<lambda>k. '''', rq_account := ''acct-1''\<rparr>) sample_buy"
  have g: "passes_guards ?o" "no_Symbol ?o \<noteq> ''''" "srv_decodeOrder sample_server (rq_body sample_post) = Inr sample_buy"
    by (simp_all add: attributed_def passes_guards_def sample_buy_def sample_post_def sample_server_def)
  have open': "GateBlocked NewGate a = (False, '''')" for a by (simp add: GateBlocked_def NewGate_def)
  show ?thesis
    using arg_cong [OF w, of "\<lambda>w. latencyCount (wd_metrics w)"] g start
    by (simp add: sample_after_def sample_served_def handleSubmit_def open' SubmitOrder_locked count_metrics_def latencyCount_def
        case_prod_beta Let_def)
qed

theorem counters_add_up_witness:
  "\<exists>l\<in>outcomeLabels. submits (wd_metrics (world_of sample_after)) = [l] \<and> submitTotal l (wd_metrics (world_of sample_after)) = 1"
proof -
  obtain hy rsp where run: "process_reach sample_strconv sample_redis sample_env sample_outcome sample_live sample_feeds hy sample_after"
    "hy_orders hy = [rsp]" by (rule sample_after_counts)
  have eng: "srv_eng (gw_server sample_live) = localOps" by simp
  note C = counters_add_up [OF eng run(1)]
  have "length (orderLabel rsp) = 1" using C sample_after_latency by (simp add: run(2))
  then obtain l where "orderLabel rsp = [l]" by (cases "orderLabel rsp") auto
  then show ?thesis using C by (intro bexI [of _ l]) (simp_all add: run(2))
qed

end
