(* ===== verification/Connection.thy ===== *)
theory Connection
  imports Hub Config
begin

text \<open>
  The clock side of a WebSocket connection, \<open>gateway/internal/ws/hub.go\<close>: the read deadline that
  pongs push forward, the ticker that sends pings, the write deadline, the read limit. Times are
  nanoseconds. How long a write takes, when the pumps are scheduled and when the peer answers are
  choices of the surroundings. What the socket library documents of a read deadline is \<open>elapse\<close>: a
  read that is pending when its deadline comes fails, whatever time is waited for. The messages
  themselves are in \<open>Hub\<close>; the last section runs one connection and the hub together.
\<close>

section \<open>Constants and state\<close>

definition writeWait :: int where "writeWait = 10 * Second"
definition pongWait :: int where "pongWait = 60 * Second"
definition pingPeriod :: int where "pingPeriod = (pongWait * 9) div 10"
definition readLimit :: nat where "readLimit = 512"

text \<open>
  \<open>cn_readDeadline\<close> and \<open>cn_nextTick\<close> are \<open>None\<close> until the read and the write pump have started.
  Two observations: \<open>cn_heard\<close>, when the reader last heard of the peer (it started, or a pong came),
  which only the steps of \<open>session_run\<close> note, and \<open>cn_unanswered\<close>, when the pings the peer has not
  answered had been written.
\<close>

record Conn =
  cn_now :: int
  cn_readDeadline :: "int option"
  cn_nextTick :: "int option"
  cn_busyUntil :: int
  cn_closed :: bool
  cn_heard :: int
  cn_unanswered :: "int list"

section \<open>What the pumps do\<close>

text \<open>\<open>ServeWS\<close>: the origin is not checked; an upgrade that fails leaves nothing behind.\<close>

definition CheckOrigin :: "HttpRequest \<Rightarrow> bool" where
  "CheckOrigin r = True"

definition upgraded :: "int \<Rightarrow> Conn" where
  "upgraded t = \<lparr>cn_now = t, cn_readDeadline = None, cn_nextTick = None, cn_busyUntil = t, cn_closed = False,
     cn_heard = t, cn_unanswered = []\<rparr>"

definition setReadDeadline :: "Conn \<Rightarrow> Conn" where
  "setReadDeadline c = c\<lparr>cn_readDeadline := Some (cn_now c + pongWait)\<rparr>"

definition readPumpStart :: "Conn \<Rightarrow> Conn" where
  "readPumpStart c = setReadDeadline c"

definition pongHandler :: "Conn \<Rightarrow> Conn" where
  "pongHandler c = (setReadDeadline c)\<lparr>cn_unanswered := tl (cn_unanswered c)\<rparr>"

text \<open>A data frame is read and forgotten; one over the limit fails the read, which ends the pump.\<close>

definition readFrame :: "nat \<Rightarrow> Conn \<Rightarrow> Conn" where
  "readFrame n c = (if readLimit < n then c\<lparr>cn_closed := True\<rparr> else c)"

definition readTimeout :: "Conn \<Rightarrow> Conn" where
  "readTimeout c = c\<lparr>cn_closed := True\<rparr>"

text \<open>The clock moves to \<open>t\<close>. The read pump is always in a read: one whose deadline has come fails.\<close>

definition elapse :: "int \<Rightarrow> Conn \<Rightarrow> Conn" where
  "elapse t c =
     (case cn_readDeadline c of
        None \<Rightarrow> c\<lparr>cn_now := t\<rparr>
      | Some d \<Rightarrow> if d \<le> t then readTimeout (c\<lparr>cn_now := t\<rparr>) else c\<lparr>cn_now := t\<rparr>)"

text \<open>The peer closes the connection, or it breaks: the read fails at once.\<close>

definition hangUp :: "Conn \<Rightarrow> Conn" where
  "hangUp c = c\<lparr>cn_closed := True\<rparr>"

definition writePumpStart :: "Conn \<Rightarrow> Conn" where
  "writePumpStart c = c\<lparr>cn_nextTick := Some (cn_now c + pingPeriod)\<rparr>"

text \<open>A write that takes \<open>d\<close>; past the write deadline it fails, which ends the pump.\<close>

definition writeFrame :: "int \<Rightarrow> Conn \<Rightarrow> Conn" where
  "writeFrame d c =
     (if writeWait < d then c\<lparr>cn_busyUntil := cn_now c + writeWait, cn_closed := True\<rparr>
      else c\<lparr>cn_busyUntil := cn_now c + d\<rparr>)"

definition writePing :: "int \<Rightarrow> Conn \<Rightarrow> Conn" where
  "writePing d c =
     (writeFrame d c)\<lparr>cn_nextTick := map_option (\<lambda>t. t + pingPeriod) (cn_nextTick c),
        cn_unanswered := cn_unanswered c @ [cn_now c + d]\<rparr>"

section \<open>Runs of a connection\<close>

text \<open>
  \<open>start\<close> bounds how long the pumps take to get going, \<open>late\<close> how long after its tick a ping has been
  written (the write pump may be busy with a message, or pick messages first), \<open>answer\<close> how long
  the peer takes. Time passes no further than these promises; the read deadline does not hold it back.
\<close>

definition may_wait :: "int \<Rightarrow> int \<Rightarrow> int \<Rightarrow> int \<Rightarrow> int \<Rightarrow> Conn \<Rightarrow> bool" where
  "may_wait t0 start late answer t c \<longleftrightarrow> cn_now c \<le> t \<and>
     (cn_readDeadline c = None \<longrightarrow> t \<le> t0 + start) \<and>
     (case cn_nextTick c of None \<Rightarrow> t \<le> t0 + start | Some k \<Rightarrow> t \<le> k + late) \<and>
     list_all (\<lambda>p. t \<le> p + answer) (cn_unanswered c)"

inductive conn_run :: "int \<Rightarrow> int \<Rightarrow> int \<Rightarrow> int \<Rightarrow> Conn \<Rightarrow> bool" for t0 start late answer where
  upgrade: "conn_run t0 start late answer (upgraded t0)"
| reader: "conn_run t0 start late answer c \<Longrightarrow> cn_readDeadline c = None \<Longrightarrow>
    conn_run t0 start late answer (readPumpStart c)"
| writer: "conn_run t0 start late answer c \<Longrightarrow> cn_nextTick c = None \<Longrightarrow>
    conn_run t0 start late answer (writePumpStart c)"
| wait: "conn_run t0 start late answer c \<Longrightarrow> may_wait t0 start late answer t c \<Longrightarrow>
    conn_run t0 start late answer (elapse t c)"
| frame: "conn_run t0 start late answer c \<Longrightarrow> cn_readDeadline c \<noteq> None \<Longrightarrow> n \<le> readLimit \<Longrightarrow>
    conn_run t0 start late answer (readFrame n c)"
| message: "conn_run t0 start late answer c \<Longrightarrow> cn_nextTick c \<noteq> None \<Longrightarrow> cn_busyUntil c \<le> cn_now c \<Longrightarrow>
    0 \<le> d \<Longrightarrow> d \<le> writeWait \<Longrightarrow> conn_run t0 start late answer (writeFrame d c)"
| ping: "conn_run t0 start late answer c \<Longrightarrow> cn_nextTick c = Some t \<Longrightarrow> t \<le> cn_now c \<Longrightarrow>
    cn_busyUntil c \<le> cn_now c \<Longrightarrow> 0 \<le> d \<Longrightarrow> d \<le> writeWait \<Longrightarrow> cn_now c + d \<le> t + late \<Longrightarrow>
    conn_run t0 start late answer (writePing d c)"
| pong: "conn_run t0 start late answer c \<Longrightarrow> cn_unanswered c = p # ps \<Longrightarrow> p \<le> cn_now c \<Longrightarrow>
    cn_readDeadline c = Some d \<Longrightarrow> cn_now c < d \<Longrightarrow> conn_run t0 start late answer (pongHandler c)"

lemmas conn_defs = upgraded_def setReadDeadline_def readPumpStart_def pongHandler_def readFrame_def readTimeout_def elapse_def hangUp_def
  writePumpStart_def writeFrame_def writePing_def

lemmas conn_times = writeWait_def pongWait_def pingPeriod_def Second_def Millisecond_def

lemma ping_slack: "pongWait - pingPeriod = 6 * Second"
  by (simp add: conn_times)

section \<open>A peer that answers is kept\<close>

text \<open>
  Where the next pong has to come in time: at most one ping is unanswered; while one is, its answer
  is due before the deadline and before the next tick; while none is, the answer to the next one is.
\<close>

definition conn_ok :: "int \<Rightarrow> int \<Rightarrow> int \<Rightarrow> int \<Rightarrow> Conn \<Rightarrow> bool" where
  "conn_ok t0 start late answer c \<longleftrightarrow> \<not> cn_closed c \<and> t0 \<le> cn_now c \<and>
     (case cn_nextTick c of
        None \<Rightarrow> cn_now c \<le> t0 + start \<and> cn_unanswered c = [] \<and>
          (\<forall>d. cn_readDeadline c = Some d \<longrightarrow> t0 + start + pingPeriod + late + answer < d)
      | Some k \<Rightarrow> t0 + pingPeriod \<le> k \<and>
          (case cn_unanswered c of
             [] \<Rightarrow> cn_now c \<le> k + late \<and>
               (case cn_readDeadline c of None \<Rightarrow> cn_now c \<le> t0 + start \<and> k \<le> t0 + start + pingPeriod
                | Some d \<Rightarrow> k + late + answer < d)
           | p # ps \<Rightarrow> ps = [] \<and> cn_now c \<le> p + answer \<and> p + answer < k \<and> k \<le> p + pingPeriod \<and>
               (case cn_readDeadline c of None \<Rightarrow> False | Some d \<Rightarrow> p + answer < d)))"

lemma conn_ok_deadline:
  assumes "conn_ok t0 start late answer c" and "cn_readDeadline c = Some d"
    and "0 \<le> start" and "0 \<le> late" and "0 \<le> answer"
  shows "cn_now c < d"
  using assms by (auto simp: conn_ok_def conn_times split: option.splits list.splits)

lemma elapse_before: "(\<And>d. cn_readDeadline c = Some d \<Longrightarrow> t < d) \<Longrightarrow> elapse t c = c\<lparr>cn_now := t\<rparr>"
  by (auto simp: elapse_def split: option.split)

lemma conn_run_ok:
  assumes run: "conn_run t0 start late answer c"
    and b: "0 \<le> start" "0 \<le> late" "0 \<le> answer" "start + late + answer < pongWait - pingPeriod"
  shows "conn_ok t0 start late answer c"
  using run
proof (induction rule: conn_run.induct)
  case upgrade
  then show ?case using b by (simp add: conn_ok_def conn_defs)
next
  case (reader c)
  then show ?case using b by (auto simp: conn_ok_def conn_defs conn_times split: option.splits list.splits)
next
  case (writer c)
  then show ?case using b by (auto simp: conn_ok_def conn_defs conn_times split: option.splits list.splits)
next
  case (wait c t)
  have ok: "conn_ok t0 start late answer (c\<lparr>cn_now := t\<rparr>)"
    using wait b by (auto simp: conn_ok_def may_wait_def split: option.splits list.splits)
  have "elapse t c = c\<lparr>cn_now := t\<rparr>"
    using conn_ok_deadline [OF ok _ b(1-3)] by (intro elapse_before) simp
  then show ?case using ok by simp
next
  case (frame c n)
  then show ?case by (simp add: conn_defs)
next
  case (message c d)
  then show ?case by (auto simp: conn_ok_def conn_defs split: option.splits list.splits)
next
  case (ping c t d)
  then show ?case using b by (auto simp: conn_ok_def conn_defs conn_times split: option.splits list.splits)
next
  case (pong c p ps d)
  then show ?case using b by (auto simp: conn_ok_def conn_defs conn_times split: option.splits list.splits)
qed

text \<open>C34: liveness, the heartbeat. A dashboard is never timed out as long as the time its pumps take to
  start, the delay of a ping behind its tick and the time the peer takes to answer stay together
  below the six seconds between \<open>pingPeriod\<close> and \<open>pongWait\<close>: in every state of the connection it is
  open and its read deadline is still ahead.\<close>

theorem responsive_peer_is_kept:
  assumes "conn_run t0 start late answer c" and "0 \<le> start" and "0 \<le> late" and "0 \<le> answer"
    and "start + late + answer < pongWait - pingPeriod"
  shows "\<not> cn_closed c \<and> (\<forall>d. cn_readDeadline c = Some d \<longrightarrow> cn_now c < d)"
  using conn_run_ok [OF assms] conn_ok_deadline [OF conn_run_ok [OF assms] _ assms(2-4)] by (simp add: conn_ok_def)

definition sample_conn :: Conn where
  "sample_conn = writePing 0 (elapse (54 * Second) (writePumpStart (readPumpStart (upgraded 0))))"

lemma sample_conn_run:
  assumes "Second \<le> late" and "0 \<le> start" and "0 \<le> answer"
  shows "conn_run 0 start late answer (pongHandler sample_conn)"
proof -
  let ?c = "writePumpStart (readPumpStart (upgraded 0))"
  have "conn_run 0 start late answer ?c"
    by (intro writer reader upgrade) (simp_all add: conn_defs)
  then have "conn_run 0 start late answer (elapse (54 * Second) ?c)"
    using assms by (rule_tac wait) (simp_all add: may_wait_def conn_defs conn_times)
  then have "conn_run 0 start late answer sample_conn"
    unfolding sample_conn_def using assms
    by (rule_tac ping [where t = "54 * Second"]) (simp_all add: conn_defs conn_times)
  then show ?thesis
    by (rule pong [where p = "54 * Second" and d = "60 * Second"]) (simp_all add: sample_conn_def conn_defs conn_times)
qed

theorem responsive_peer_is_kept_witness:
  "cn_readDeadline (pongHandler sample_conn) = Some (114 * Second) \<and> \<not> cn_closed (pongHandler sample_conn)"
  using responsive_peer_is_kept [OF sample_conn_run [of "Second" Second Second]]
  by (simp add: conn_times) (simp add: sample_conn_def conn_defs conn_times)

text \<open>
  The bound is sharp, and \<open>pingPeriod < pongWait\<close> alone is not enough: one message that takes seven
  seconds to write, well within \<open>writeWait\<close>, holds the next ping back until the peer, which answers
  every ping at once, has missed its deadline.
\<close>

lemma slow_write_times_out:
  "\<exists>c. conn_run 0 0 (6 * Second) 0 c \<and> cn_closed c \<and> cn_now c = 60 * Second"
proof -
  let ?b = "elapse (53 * Second) (writePumpStart (readPumpStart (upgraded 0)))"
  let ?w = "writeFrame (7 * Second) ?b"
  have "conn_run 0 0 (6 * Second) 0 (writePumpStart (readPumpStart (upgraded 0)))"
    by (intro writer reader upgrade) (simp_all add: conn_defs)
  then have "conn_run 0 0 (6 * Second) 0 ?b"
    by (rule wait) (simp add: may_wait_def conn_defs conn_times)
  then have "conn_run 0 0 (6 * Second) 0 ?w"
    by (rule message) (simp_all add: conn_defs conn_times)
  then have "conn_run 0 0 (6 * Second) 0 (elapse (60 * Second) ?w)"
    by (rule wait) (simp add: may_wait_def conn_defs conn_times)
  then show ?thesis by (rule_tac exI) (auto simp: conn_defs conn_times)
qed

section \<open>A connection and the hub together\<close>

text \<open>What the hub and the other clients do while client \<open>k\<close> is connected.\<close>

inductive hub_other :: "nat \<Rightarrow> Hub \<Rightarrow> string list \<Rightarrow> (nat \<rightharpoonup> nat) \<Rightarrow> Hub \<Rightarrow> string list \<Rightarrow> (nat \<rightharpoonup> nat) \<Rightarrow> bool" for k h sent since where
  others_connect: "hb_objects h j = None \<Longrightarrow> hub_other k h sent since (serveWS j h) sent (since(j \<mapsto> length sent))"
| others_leave: "j \<noteq> k \<Longrightarrow> hb_objects h j \<noteq> None \<Longrightarrow> hubUnregister j h = Inr h' \<Longrightarrow> hub_other k h sent since h' sent since"
| others_queue: "hub_other k h sent since (Broadcast (\<lambda>m. m) marshalled h) sent since"
| others_deliver: "hb_broadcast h = msg # rest \<Longrightarrow> mset ks = mset (hb_clients h) \<Longrightarrow> hubDeliver ks h = Inr h' \<Longrightarrow>
    hub_other k h sent since h' (sent @ [msg]) since"
| others_pump: "j \<noteq> k \<Longrightarrow> hub_other k h sent since (writePump ok j h) sent since"
| others_ping: "j \<noteq> k \<Longrightarrow> hub_other k h sent since (pingPump ok j h) sent since"

text \<open>
  Client \<open>k\<close>'s connection with no promise on anyone: frames of any size, writes and pings that take
  any time, pongs asked for or not, a hang-up at any moment, any waits. A read pump whose read
  failed, or whose connection the write pump closed, unregisters the client: \<open>readPump\<close> is told
  whether the connection is still open after the step. Its write pump writes what the hub's buffer
  holds, and closes the connection when the hub has closed the channel and the buffer is empty.
\<close>

definition noted :: "Conn \<Rightarrow> Conn" where
  "noted c = c\<lparr>cn_heard := cn_now c\<rparr>"

inductive session_run :: "nat \<Rightarrow> Conn \<Rightarrow> Hub \<Rightarrow> string list \<Rightarrow> (nat \<rightharpoonup> nat) \<Rightarrow> bool" for k where
  accepted: "hub_reach h sent since \<Longrightarrow> hb_objects h k = None \<Longrightarrow>
    session_run k (upgraded t) (serveWS k h) sent (since(k \<mapsto> length sent))"
| s_reader: "session_run k c h sent since \<Longrightarrow> \<not> cn_closed c \<Longrightarrow> cn_readDeadline c = None \<Longrightarrow>
    session_run k (noted (readPumpStart c)) h sent since"
| s_writer: "session_run k c h sent since \<Longrightarrow> \<not> cn_closed c \<Longrightarrow> cn_nextTick c = None \<Longrightarrow>
    session_run k (writePumpStart c) h sent since"
| s_pong: "session_run k c h sent since \<Longrightarrow> \<not> cn_closed c \<Longrightarrow> cn_readDeadline c \<noteq> None \<Longrightarrow>
    session_run k (noted (pongHandler c)) h sent since"
| s_frame: "session_run k c h sent since \<Longrightarrow> \<not> cn_closed c \<Longrightarrow> cn_readDeadline c \<noteq> None \<Longrightarrow>
    readPump (\<not> cn_closed (readFrame n c)) k h = Inr h' \<Longrightarrow> session_run k (readFrame n c) h' sent since"
| s_hangUp: "session_run k c h sent since \<Longrightarrow> \<not> cn_closed c \<Longrightarrow> cn_readDeadline c \<noteq> None \<Longrightarrow>
    readPump (\<not> cn_closed (hangUp c)) k h = Inr h' \<Longrightarrow> session_run k (hangUp c) h' sent since"
| s_message: "session_run k c h sent since \<Longrightarrow> \<not> cn_closed c \<Longrightarrow> cn_nextTick c \<noteq> None \<Longrightarrow> cn_busyUntil c \<le> cn_now c \<Longrightarrow>
    0 \<le> d \<Longrightarrow> hb_objects h k = Some cl \<Longrightarrow> cl_send cl \<noteq> [] \<Longrightarrow>
    readPump (\<not> cn_closed (writeFrame d c)) k (writePump (d \<le> writeWait) k h) = Inr h' \<Longrightarrow>
    session_run k (writeFrame d c) h' sent since"
| s_goodbye: "session_run k c h sent since \<Longrightarrow> \<not> cn_closed c \<Longrightarrow> cn_nextTick c \<noteq> None \<Longrightarrow> cn_busyUntil c \<le> cn_now c \<Longrightarrow>
    hb_objects h k = Some cl \<Longrightarrow> cl_send cl = [] \<Longrightarrow> cl_closed cl \<Longrightarrow>
    readPump (\<not> cn_closed (hangUp c)) k (writePump True k h) = Inr h' \<Longrightarrow>
    session_run k (hangUp c) h' sent since"
| s_ping: "session_run k c h sent since \<Longrightarrow> \<not> cn_closed c \<Longrightarrow> cn_nextTick c = Some t \<Longrightarrow> t \<le> cn_now c \<Longrightarrow>
    cn_busyUntil c \<le> cn_now c \<Longrightarrow> 0 \<le> d \<Longrightarrow>
    readPump (\<not> cn_closed (writePing d c)) k (pingPump (d \<le> writeWait) k h) = Inr h' \<Longrightarrow>
    session_run k (writePing d c) h' sent since"
| s_time: "session_run k c h sent since \<Longrightarrow> \<not> cn_closed c \<Longrightarrow> cn_now c \<le> t \<Longrightarrow>
    readPump (\<not> cn_closed (elapse t c)) k h = Inr h' \<Longrightarrow> session_run k (elapse t c) h' sent since"
| s_later: "session_run k c h sent since \<Longrightarrow> cn_closed c \<Longrightarrow> cn_now c \<le> t \<Longrightarrow> session_run k (c\<lparr>cn_now := t\<rparr>) h sent since"
| s_other: "session_run k c h sent since \<Longrightarrow> hub_other k h sent since h' sent' since' \<Longrightarrow>
    session_run k c h' sent' since'"

section \<open>A peer that is silent is dropped\<close>

text \<open>Two things a step keeps: the hub knows the client's object, and a client it has dropped stays out.\<close>

definition out_of :: "nat \<Rightarrow> Hub \<Rightarrow> bool" where
  "out_of k h \<longleftrightarrow> k \<notin> set (hb_clients h)"

lemma hub_other_reach: "hub_other k h sent since h' sent' since' \<Longrightarrow> hub_reach h sent since \<Longrightarrow> hub_reach h' sent' since'"
  by (induction rule: hub_other.induct) (auto intro: hub_reach.intros)

lemma hub_other_keeps:
  assumes "hub_other k h sent since h' sent' since'" and "hub_ok h sent since" and "hb_objects h k \<noteq> None"
  shows "hb_objects h' k \<noteq> None \<and> (out_of k h \<longrightarrow> out_of k h')"
  using assms
proof (induction rule: hub_other.induct)
  case (others_connect j)
  then have "j \<noteq> k" by auto
  then show ?case using others_connect by (simp add: out_of_def serveWS_def hubRegister_def Let_def)
next
  case (others_leave j h')
  then show ?case by (auto simp: out_of_def hubUnregister_def closeSend_def split: if_splits option.splits)
next
  case (others_deliver msg rest ks h')
  obtain h'' where h'': "hubDeliver ks h = Inr h''" "hub_ok h'' (sent @ [msg]) since" "hb_clients h'' = filter (keeps h) (hb_clients h)"
    using hubDeliver_result [OF others_deliver(4,1,2)] by blast
  have "hb_objects h'' k \<noteq> None" using hubDeliver_objects [OF others_deliver(4,1,2) h''(1)] others_deliver(5) by auto
  then show ?case using others_deliver(3) h'' by (auto simp: out_of_def)
qed (auto simp: out_of_def Broadcast_def writePump_def pingPump_def split: sum.splits option.splits list.splits)

lemma readPump_out:
  assumes "hub_reach h sent since" and "hb_objects h k \<noteq> None" and "readPump ok k h = Inr h'"
  shows "hub_reach h' sent since \<and> hb_objects h' k \<noteq> None \<and> (out_of k h \<longrightarrow> out_of k h') \<and> (\<not> ok \<longrightarrow> out_of k h')"
  using assms leave [OF assms(1,2), of h']
  by (auto simp: readPump_def out_of_def hubUnregister_def closeSend_def split: if_splits option.splits)

lemma readPump_returns: "hub_reach h sent since \<Longrightarrow> \<exists>h'. readPump ok k h = Inr h'"
  using hubUnregister_result [OF hub_reach_ok, of h sent since k] by (auto simp: readPump_def)

lemma pump_keeps:
  "hb_objects (writePump ok k h) k = None \<longleftrightarrow> hb_objects h k = None"
  "hb_objects (pingPump ok k h) k = None \<longleftrightarrow> hb_objects h k = None"
  by (auto simp: writePump_def pingPump_def split: option.splits list.splits)

definition session_ok :: "nat \<Rightarrow> Conn \<Rightarrow> Hub \<Rightarrow> string list \<Rightarrow> (nat \<rightharpoonup> nat) \<Rightarrow> bool" where
  "session_ok k c h sent since \<longleftrightarrow> hub_reach h sent since \<and> hb_objects h k \<noteq> None \<and>
     (cn_closed c \<longrightarrow> out_of k h) \<and>
     (\<forall>d. cn_readDeadline c = Some d \<longrightarrow> d = cn_heard c + pongWait \<and> (\<not> cn_closed c \<longrightarrow> cn_now c < d))"

text \<open>A step of the connection, its pump's turn and its reader's answer to it.\<close>

lemma session_ok_step:
  assumes "session_ok k c h sent since" and "hub_reach h1 sent since" and "hb_objects h1 k \<noteq> None"
    and "readPump (\<not> cn_closed c') k h1 = Inr h'"
    and "\<forall>d. cn_readDeadline c' = Some d \<longrightarrow> d = cn_heard c' + pongWait \<and> (\<not> cn_closed c' \<longrightarrow> cn_now c' < d)"
  shows "session_ok k c' h' sent since"
  using readPump_out [OF assms(2,3,4)] assms(5) by (simp add: session_ok_def)

lemma session_run_ok: "session_run k c h sent since \<Longrightarrow> session_ok k c h sent since"
proof (induction rule: session_run.induct)
  case (accepted h sent since t)
  have "hb_objects (serveWS k h) k \<noteq> None" by (simp add: serveWS_def hubRegister_def Let_def)
  then show ?case using connect [OF accepted] by (simp add: session_ok_def upgraded_def del: fun_upd_apply)
next
  case (s_frame c h sent since n h')
  show ?case
    by (rule session_ok_step [OF s_frame.IH _ _ s_frame.hyps(4)])
      (use s_frame.IH s_frame.hyps in \<open>auto simp: session_ok_def readFrame_def\<close>)
next
  case (s_hangUp c h sent since h')
  show ?case
    by (rule session_ok_step [OF s_hangUp.IH _ _ s_hangUp.hyps(4)])
      (use s_hangUp.IH in \<open>auto simp: session_ok_def hangUp_def\<close>)
next
  case (s_message c h sent since d cl h')
  have "hub_reach h sent since" using s_message.IH by (simp add: session_ok_def)
  then show ?case
    by (intro session_ok_step [OF s_message.IH hub_reach.pump _ s_message.hyps(8)])
      (use s_message.IH in \<open>auto simp: session_ok_def writeFrame_def pump_keeps\<close>)
next
  case (s_goodbye c h sent since cl h')
  have "hub_reach h sent since" using s_goodbye.IH by (simp add: session_ok_def)
  then show ?case
    by (intro session_ok_step [OF s_goodbye.IH hub_reach.pump _ s_goodbye.hyps(8)])
      (use s_goodbye.IH in \<open>auto simp: session_ok_def hangUp_def pump_keeps\<close>)
next
  case (s_ping c h sent since t d h')
  have "hub_reach h sent since" using s_ping.IH by (simp add: session_ok_def)
  then show ?case
    by (intro session_ok_step [OF s_ping.IH hub_reach.ping _ s_ping.hyps(7)])
      (use s_ping.IH in \<open>auto simp: session_ok_def writePing_def writeFrame_def pump_keeps\<close>)
next
  case (s_time c h sent since t h')
  show ?case
    by (rule session_ok_step [OF s_time.IH _ _ s_time.hyps(4)])
      (use s_time.IH s_time.hyps in \<open>auto simp: session_ok_def elapse_def readTimeout_def split: option.splits\<close>)
next
  case (s_other c h sent since h' sent' since')
  then show ?case
    using hub_other_reach [OF s_other.hyps(2)] hub_other_keeps [OF s_other.hyps(2) hub_reach_ok]
    by (simp add: session_ok_def)
qed (auto simp: session_ok_def noted_def readPumpStart_def pongHandler_def setReadDeadline_def writePumpStart_def conn_times)

text \<open>Time is never held back: the connection reaches every later instant, open or dropped.\<close>

lemma session_goes_on:
  assumes "session_run k c h sent since" and "cn_now c \<le> t"
  shows "\<exists>c' h'. session_run k c' h' sent since \<and> cn_now c' = t \<and> cn_readDeadline c' = cn_readDeadline c \<and> cn_heard c' = cn_heard c"
proof (cases "cn_closed c")
  case True
  then show ?thesis using s_later [OF assms(1) True assms(2)] by (intro exI [of _ "c\<lparr>cn_now := t\<rparr>"] exI [of _ h]) simp
next
  case False
  have "hub_reach h sent since" using session_run_ok [OF assms(1)] by (simp add: session_ok_def)
  then obtain h' where "readPump (\<not> cn_closed (elapse t c)) k h = Inr h'" using readPump_returns by blast
  then have "session_run k (elapse t c) h' sent since" by (rule s_time [OF assms(1) False assms(2)])
  then show ?thesis by (rule_tac exI [of _ "elapse t c"]) (auto simp: elapse_def readTimeout_def split: option.splits)
qed

section \<open>A peer that is silent is dropped\<close>

text \<open>C35: liveness, across the connection and the hub. Whatever the peer sends besides pongs, however
  long writes take and however the pumps, the hub and the other clients are scheduled: once
  \<open>pongWait\<close> has gone by since a started reader last heard of its peer, the connection is closed, the
  hub has no such client any more and its channel is closed, which is what ends the write pump. Nothing
  holds time back before that: from every state the run reaches every later instant.\<close>

theorem silent_peer_is_dropped:
  assumes "session_run k c h sent since"
  shows "(cn_readDeadline c \<noteq> None \<longrightarrow> cn_heard c + pongWait \<le> cn_now c \<longrightarrow>
      cn_closed c \<and> k \<notin> set (hb_clients h) \<and> (\<exists>cl. hb_objects h k = Some cl \<and> cl_closed cl)) \<and>
    (\<forall>t\<ge>cn_now c. \<exists>c' h'. session_run k c' h' sent since \<and> cn_now c' = t \<and>
      cn_readDeadline c' = cn_readDeadline c \<and> cn_heard c' = cn_heard c)"
proof -
  have ok: "session_ok k c h sent since" by (rule session_run_ok [OF assms])
  then obtain cl where cl: "hb_objects h k = Some cl" by (auto simp: session_ok_def)
  have "client_ok h sent since k cl" using hub_okD(4) [OF hub_reach_ok cl] ok by (simp add: session_ok_def)
  then have "out_of k h \<Longrightarrow> cl_closed cl" by (auto simp: client_ok_def out_of_def)
  then show ?thesis
    using ok cl session_goes_on [OF assms] by (force simp: session_ok_def out_of_def)
qed

lemma sample_session:
  "session_run 7 (noted (readPumpStart (upgraded 0))) (serveWS 7 NewHub) [] [7 \<mapsto> 0]"
  using s_reader [OF accepted [OF start, of 7 0]] by (simp add: NewHub_def upgraded_def)

theorem silent_peer_is_dropped_witness:
  "\<exists>c h. session_run 7 c h [] [7 \<mapsto> 0] \<and> cn_now c = 60 * Second \<and> cn_closed c \<and> 7 \<notin> set (hb_clients h)"
proof -
  have "\<forall>t\<ge>0. \<exists>c h. session_run 7 c h [] [7 \<mapsto> 0] \<and> cn_now c = t \<and> cn_readDeadline c = Some pongWait \<and> cn_heard c = 0"
    using silent_peer_is_dropped [OF sample_session] by (simp add: noted_def conn_defs)
  then obtain c h where run: "session_run 7 c h [] [7 \<mapsto> 0]" "cn_now c = 60 * Second" "cn_readDeadline c = Some pongWait" "cn_heard c = 0"
    by (auto simp: conn_times dest: spec [of _ "60 * Second"])
  then show ?thesis using silent_peer_is_dropped [OF run(1)] by (auto simp: pongWait_def)
qed

end
