(* ===== verification/Lifecycle.thy ===== *)
theory Lifecycle
  imports WiringProps
begin

text \<open>
  The end of \<open>gateway/cmd/gateway/main.go\<close>: the HTTP server runs in a goroutine, \<open>main\<close> waits for a
  signal, drains the requests in flight for at most ten seconds and returns, which runs its deferred
  releases. What \<open>net/http\<close> does by itself is part of the surroundings: it takes requests while the
  listener is open and finishes them whenever it does, or never. A request is a number; times are
  nanoseconds.
\<close>

section \<open>The server and what main holds\<close>

record httpServer =
  hs_Addr :: string
  hs_ReadHeaderTimeout :: int

definition httpServerOf :: "'r wiring \<Rightarrow> httpServer" where
  "httpServerOf wr = \<lparr>hs_Addr = cf_ListenAddr (wr_config wr), hs_ReadHeaderTimeout = 5 * Second\<rparr>"

definition drainTimeout :: int where "drainTimeout = 10 * Second"

datatype resource = EngineConn | RedisPool | TradeTape | OrderWriter | SignalConsumer | Database | SimLoop

text \<open>What the boot sequence defers a release of, in the order it does.\<close>

definition deferred :: "'r wiring \<Rightarrow> resource list" where
  "deferred wr =
     (case wr_engine wr of RemoteEngine addr \<Rightarrow> [EngineConn] | InProcess syms \<Rightarrow> []) @
     [RedisPool, TradeTape, OrderWriter, SignalConsumer] @
     (case wr_tokens wr of Some t \<Rightarrow> [Database] | None \<Rightarrow> []) @
     (case wr_sim wr of Some s \<Rightarrow> [SimLoop] | None \<Rightarrow> [])"

section \<open>State and steps\<close>

datatype phase = Serving | Draining int | Finished nat

text \<open>\<open>lf_inflight\<close> holds the requests that are being handled; \<open>lf_signalled\<close> is an observation, when
  the first signal came.\<close>

record Life =
  lf_now :: int
  lf_phase :: phase
  lf_inflight :: "nat list"
  lf_held :: "resource list"
  lf_released :: "resource list"
  lf_signalled :: "int option"

definition startServing :: "int \<Rightarrow> 'r wiring \<Rightarrow> Life" where
  "startServing t wr = \<lparr>lf_now = t, lf_phase = Serving, lf_inflight = [], lf_held = deferred wr,
     lf_released = [], lf_signalled = None\<rparr>"

definition is_finished :: "Life \<Rightarrow> bool" where
  "is_finished l = (case lf_phase l of Finished n \<Rightarrow> True | _ \<Rightarrow> False)"

text \<open>
  \<open>ListenAndServe\<close> returns: \<open>ErrServerClosed\<close> ends the goroutine quietly, any other error ends the
  program through \<open>log.Fatalf\<close>, which runs no deferred function.
\<close>

definition ErrServerClosed :: error where "ErrServerClosed = ''http: Server closed''"

definition listenReturns :: "error \<Rightarrow> Life \<Rightarrow> Life" where
  "listenReturns err l =
     (if is_finished l then l else if err \<noteq> ErrServerClosed then l\<lparr>lf_phase := Finished 1\<rparr> else l)"

text \<open>
  SIGINT or SIGTERM: the first closes the listener and starts the drain, whose context ends ten
  seconds later; later signals stay in the channel's buffer, or are dropped.
\<close>

definition stopSignal :: "Life \<Rightarrow> Life" where
  "stopSignal l =
     (if lf_phase l = Serving then l\<lparr>lf_phase := Draining (lf_now l + drainTimeout), lf_signalled := Some (lf_now l)\<rparr>
      else l)"

text \<open>\<open>Shutdown\<close> returns when nothing is in flight or its context is over; either way \<open>main\<close> returns
  and its deferred calls run, the last one first.\<close>

definition mainReturns :: "Life \<Rightarrow> Life" where
  "mainReturns l =
     (case lf_phase l of
        Draining d \<Rightarrow>
          if lf_inflight l = [] \<or> d \<le> lf_now l then
            l\<lparr>lf_phase := Finished 0, lf_released := rev (lf_held l), lf_held := []\<rparr>
          else l
      | _ \<Rightarrow> l)"

text \<open>
  The clock moves to \<open>t\<close>, as far as it may: when a deadline of the drain comes on the way, \<open>Shutdown\<close>
  looks at that moment whether it returns. A program that has ended has no time.
\<close>

definition letTime :: "int \<Rightarrow> Life \<Rightarrow> Life" where
  "letTime t l =
     (case lf_phase l of
        Serving \<Rightarrow> l\<lparr>lf_now := t\<rparr>
      | Draining d \<Rightarrow>
          if t < d then l\<lparr>lf_now := t\<rparr>
          else let l' = mainReturns (l\<lparr>lf_now := d\<rparr>) in if is_finished l' then l' else l\<lparr>lf_now := t\<rparr>
      | Finished n \<Rightarrow> l)"

text \<open>\<open>accept\<close> and \<open>answer\<close> are the surroundings; nothing says that a request is ever answered.\<close>

inductive life_run :: "'r wiring \<Rightarrow> Life \<Rightarrow> bool" for wr where
  started: "life_run wr (startServing t wr)"
| accept: "life_run wr l \<Longrightarrow> lf_phase l = Serving \<Longrightarrow> life_run wr (l\<lparr>lf_inflight := lf_inflight l @ [r]\<rparr>)"
| answer: "life_run wr l \<Longrightarrow> \<not> is_finished l \<Longrightarrow> life_run wr (l\<lparr>lf_inflight := remove1 r (lf_inflight l)\<rparr>)"
| listen: "life_run wr l \<Longrightarrow> life_run wr (listenReturns err l)"
| signal: "life_run wr l \<Longrightarrow> life_run wr (stopSignal l)"
| return: "life_run wr l \<Longrightarrow> life_run wr (mainReturns l)"
| pass: "life_run wr l \<Longrightarrow> lf_now l \<le> t \<Longrightarrow> life_run wr (letTime t l)"

lemmas life_defs = startServing_def listenReturns_def stopSignal_def mainReturns_def is_finished_def letTime_def Let_def

section \<open>Shutting down\<close>

text \<open>The invariant: nothing is released before the end, the drain is bounded.\<close>

definition life_ok :: "'r wiring \<Rightarrow> Life \<Rightarrow> bool" where
  "life_ok wr l \<longleftrightarrow>
     (case lf_phase l of
        Serving \<Rightarrow> lf_signalled l = None \<and> lf_released l = [] \<and> lf_held l = deferred wr
      | Draining d \<Rightarrow> lf_released l = [] \<and> lf_held l = deferred wr \<and> lf_now l < d \<and>
          (\<exists>t. lf_signalled l = Some t \<and> d = t + drainTimeout)
      | Finished n \<Rightarrow>
          if n = 0 then lf_released l = rev (deferred wr) \<and>
            (\<exists>t. lf_signalled l = Some t \<and> lf_now l \<le> t + drainTimeout \<and>
               (lf_inflight l = [] \<or> lf_now l = t + drainTimeout))
          else n = 1 \<and> lf_released l = [])"

lemma life_run_ok: "life_run wr l \<Longrightarrow> life_ok wr l"
proof (induction rule: life_run.induct)
  case (pass l t)
  then show ?case by (auto simp: life_ok_def life_defs split: phase.splits if_splits)
qed (auto simp: life_ok_def life_defs drainTimeout_def Second_def Millisecond_def split: phase.splits if_splits)


text \<open>A program whose server cannot listen ends with status 1, and releases nothing.\<close>

lemma listen_failure_ends:
  "life_run wr l \<Longrightarrow> \<not> is_finished l \<Longrightarrow> err \<noteq> ErrServerClosed \<Longrightarrow>
   lf_phase (listenReturns err l) = Finished 1 \<and> lf_released (listenReturns err l) = []"
  using life_run_ok [of wr l] by (auto simp: listenReturns_def is_finished_def life_ok_def split: phase.splits)


end
