(* ===== verification/PriceTime.thy ===== *)
theory PriceTime
  imports EngineTypes
begin

text \<open>
  What a matching engine promises, independent of how it keeps its books: a symbol's book is two
  queues in price-time priority, an incoming order sweeps the opposite one and what is left of a
  limit order joins its own. Any engine with these queues behind it is indistinguishable from any
  other to a client that places and withdraws orders: the two engines of the repository are
  compared with this.
\<close>

section \<open>Queues\<close>

text \<open>What counts of a resting order: price, owner, quantity left, and a tag that tells it from others.\<close>

record 't lot =
  lt_price :: i64
  lt_account :: string
  lt_left :: i64
  lt_tag :: 't

record taker =
  tk_buy :: bool
  tk_market :: bool
  tk_price :: i64
  tk_account :: string

definition willing :: "taker \<Rightarrow> i64 \<Rightarrow> bool" where
  "willing t p \<longleftrightarrow> tk_market t \<or> (if tk_buy t then p \<le>s tk_price t else tk_price t \<le>s p)"

definition take_from :: "i64 \<Rightarrow> 't lot \<Rightarrow> i64" where
  "take_from r x = (if lt_left x <s r then lt_left x else r)"

text \<open>The fills of a sweep in order, what is left to fill, and the queue afterwards.\<close>

fun sweep :: "taker \<Rightarrow> i64 \<Rightarrow> 't lot list \<Rightarrow> ('t lot \<times> i64) list \<times> i64 \<times> 't lot list" where
  "sweep t r [] = ([], r, [])"
| "sweep t r (x # xs) =
     (if 0 <s r \<and> willing t (lt_price x) then
        if lt_account x = tk_account t then
          (let (fs, r', ys) = sweep t r xs in (fs, r', x # ys))
        else
          (let f = take_from r x; (fs, r', ys) = sweep t (r - f) xs
           in ((x, f) # fs, r', if lt_left x - f = 0 then ys else x\<lparr>lt_left := lt_left x - f\<rparr> # ys))
      else ([], r, x # xs))"

text \<open>\<open>ahead b p q\<close>: on side \<open>b\<close> (\<open>True\<close> for bids) the price \<open>p\<close> comes before \<open>q\<close>.\<close>

definition ahead :: "bool \<Rightarrow> i64 \<Rightarrow> i64 \<Rightarrow> bool" where
  "ahead b p q = (if b then q <s p else p <s q)"

fun enqueue :: "bool \<Rightarrow> 't lot \<Rightarrow> 't lot list \<Rightarrow> 't lot list" where
  "enqueue b x [] = [x]"
| "enqueue b x (y # ys) = (if ahead b (lt_price x) (lt_price y) then x # y # ys else y # enqueue b x ys)"

type_synonym 't sides = "bool \<Rightarrow> 't lot list"

definition place :: "taker \<Rightarrow> 't \<Rightarrow> i64 \<Rightarrow> 't sides \<Rightarrow> ('t lot \<times> i64) list \<times> i64 \<times> 't sides" where
  "place t tag qty L =
     (let (fs, r, ys) = sweep t qty (L (\<not> tk_buy t));
          L1 = L(\<not> tk_buy t := ys);
          mine = \<lparr>lt_price = tk_price t, lt_account = tk_account t, lt_left = r, lt_tag = tag\<rparr>
      in (fs, r, if 0 <s r \<and> \<not> tk_market t then L1(tk_buy t := enqueue (tk_buy t) mine (L1 (tk_buy t))) else L1))"

definition withdraw :: "'t \<Rightarrow> 't sides \<Rightarrow> 't sides" where
  "withdraw tag L = (\<lambda>b. filter (\<lambda>x. lt_tag x \<noteq> tag) (L b))"

definition placed_status :: "taker \<Rightarrow> i64 \<Rightarrow> i64 \<Rightarrow> OrderStatus" where
  "placed_status t qty r =
     (if r = 0 then StatusFilled else if r \<noteq> qty then StatusPartiallyFilled
      else if tk_market t then StatusRejected else StatusAccepted)"

definition executions :: "('t lot \<times> i64) list \<Rightarrow> (i64 \<times> i64) list" where
  "executions fs = map (\<lambda>(x, f). (lt_price x, f)) fs"

text \<open>The incoming side of a client's order, and the orders a client of the exchange should send.\<close>

definition taker_of :: "NewOrder \<Rightarrow> taker" where
  "taker_of o' = \<lparr>tk_buy = (no_Side o' = SideBuy), tk_market = (no_Type o' = OrderTypeMarket),
     tk_price = no_PriceTicks o', tk_account = no_AccountID o'\<rparr>"

definition documented :: "NewOrder \<Rightarrow> bool" where
  "documented o' \<longleftrightarrow> valid_side (no_Side o') \<and> valid_type (no_Type o') \<and> 0 <s no_Quantity o' \<and>
     (no_Type o' = OrderTypeLimit \<longrightarrow> 0 <s no_PriceTicks o')"

section \<open>Tags are only passed on\<close>

definition retag :: "('t \<Rightarrow> 'u) \<Rightarrow> 't lot \<Rightarrow> 'u lot" where
  "retag g x = \<lparr>lt_price = lt_price x, lt_account = lt_account x, lt_left = lt_left x, lt_tag = g (lt_tag x)\<rparr>"

lemma retag_simps [simp]:
  "lt_price (retag g x) = lt_price x" "lt_account (retag g x) = lt_account x" "lt_left (retag g x) = lt_left x"
  "lt_tag (retag g x) = g (lt_tag x)" "retag g (x\<lparr>lt_left := q\<rparr>) = (retag g x)\<lparr>lt_left := q\<rparr>"
  "retag g \<lparr>lt_price = p, lt_account = a, lt_left = q, lt_tag = t\<rparr> = \<lparr>lt_price = p, lt_account = a, lt_left = q, lt_tag = g t\<rparr>"
  by (simp_all add: retag_def)

definition retag_result ::
  "('t \<Rightarrow> 'u) \<Rightarrow> ('t lot \<times> i64) list \<times> i64 \<times> 't lot list \<Rightarrow> ('u lot \<times> i64) list \<times> i64 \<times> 'u lot list" where
  "retag_result g R = (map (map_prod (retag g) id) (fst R), fst (snd R), map (retag g) (snd (snd R)))"

lemma take_from_retag [simp]: "take_from r (retag g x) = take_from r x"
  by (simp add: take_from_def)

lemma sweep_retag: "sweep t r (map (retag g) xs) = retag_result g (sweep t r xs)"
  by (induction t r xs rule: sweep.induct) (simp_all add: retag_result_def Let_def case_prod_beta)

lemma enqueue_retag: "enqueue b (retag g x) (map (retag g) ys) = map (retag g) (enqueue b x ys)"
  by (induction b x ys rule: enqueue.induct) simp_all

lemma executions_retag [simp]: "executions (map (map_prod (retag g) id) fs) = executions fs"
  by (simp add: executions_def case_prod_beta comp_def)

lemma place_retag:
  assumes "place t tag qty L = (fs, r, L')"
  shows "place t (g tag) qty (\<lambda>b. map (retag g) (L b)) = (map (map_prod (retag g) id) fs, r, \<lambda>b. map (retag g) (L' b))"
  using assms enqueue_retag [of "tk_buy t" g "\<lparr>lt_price = tk_price t, lt_account = tk_account t, lt_left = r, lt_tag = tag\<rparr>"]
  by (auto simp: place_def sweep_retag retag_result_def Let_def case_prod_beta)

lemma withdraw_retag:
  assumes "\<And>b x. x \<in> set (L b) \<Longrightarrow> g (lt_tag x) = g tag \<Longrightarrow> lt_tag x = tag"
  shows "withdraw (g tag) (\<lambda>b. map (retag g) (L b)) = (\<lambda>b. map (retag g) (withdraw tag L b))"
  using assms by (auto simp: withdraw_def filter_map comp_def fun_eq_iff intro!: arg_cong [where f = "map _"] filter_cong)

section \<open>What a sweep does to the tags\<close>

lemma enqueue_mset: "mset (enqueue b x ys) = add_mset x (mset ys)"
  by (induction b x ys rule: enqueue.induct) simp_all

lemma set_enqueue: "set (enqueue b x ys) = insert x (set ys)"
  using arg_cong [OF enqueue_mset, of set_mset] by simp

lemma sweep_lots:
  "sweep t r xs = (fs, r', ys) \<Longrightarrow> y \<in> set ys \<Longrightarrow> \<exists>x\<in>set xs. lt_tag x = lt_tag y \<and> lt_account x = lt_account y \<and> lt_price x = lt_price y"
  by (induction t r xs arbitrary: fs r' ys rule: sweep.induct)
    (fastforce simp: Let_def split: if_splits prod.splits)+

lemma place_lots:
  assumes "place t tag qty L = (fs, r, M)" and "y \<in> set (M b)"
  shows "(\<exists>x\<in>set (L b). lt_tag x = lt_tag y \<and> lt_account x = lt_account y) \<or> (lt_tag y = tag \<and> lt_account y = tk_account t)"
proof -
  obtain fs' r' ys where sw: "sweep t qty (L (\<not> tk_buy t)) = (fs', r', ys)" by (metis prod_cases3)
  let ?mine = "\<lparr>lt_price = tk_price t, lt_account = tk_account t, lt_left = r', lt_tag = tag\<rparr>"
  have "M (\<not> tk_buy t) = ys" "set (M (tk_buy t)) \<subseteq> insert ?mine (set (L (tk_buy t)))"
    using assms(1) by (auto simp: place_def sw set_enqueue Let_def split: if_splits)
  then consider "b = (\<not> tk_buy t)" "y \<in> set ys" | "y = ?mine" | "y \<in> set (L b)"
    using assms(2) by (cases "b = tk_buy t") auto
  then show ?thesis using sweep_lots [OF sw] by cases auto
qed

section \<open>Clients\<close>

text \<open>
  A client places orders and withdraws ones it placed, by the id it was given for them. A run of it
  against an engine: what the engine may answer is a relation, as the runtime has choices of its
  own (clocks, map ranges). The client sees status, filled quantity and, on the tape, executions.
\<close>

datatype client_cmd = Place NewOrder | Withdraw nat

type_synonym seen = "(OrderStatus \<times> i64) option \<times> (i64 \<times> i64) list"

definition view :: "error + OrderAck \<Rightarrow> (OrderStatus \<times> i64) option" where
  "view r = (case r of Inl err \<Rightarrow> None | Inr ack \<Rightarrow> Some (ack_Status ack, ack_FilledQuantity ack))"

definition given_id :: "error + OrderAck \<Rightarrow> string" where
  "given_id r = (case r of Inl err \<Rightarrow> '''' | Inr ack \<Rightarrow> ack_OrderID ack)"

definition cancel_of :: "string \<times> NewOrder \<Rightarrow> CancelOrder" where
  "cancel_of p = \<lparr>co_OrderID = fst p, co_Symbol = no_Symbol (snd p), co_AccountID = no_AccountID (snd p)\<rparr>"

inductive client_run ::
  "('s \<Rightarrow> NewOrder \<Rightarrow> error + OrderAck \<Rightarrow> (i64 \<times> i64) list \<Rightarrow> 's \<Rightarrow> bool) \<Rightarrow>
   ('s \<Rightarrow> CancelOrder \<Rightarrow> error + OrderAck \<Rightarrow> 's \<Rightarrow> bool) \<Rightarrow>
   's \<Rightarrow> (string \<times> NewOrder) list \<Rightarrow> client_cmd list \<Rightarrow> seen list \<Rightarrow> bool" for sub can where
  nothing: "client_run sub can s pl [] []"
| places: "sub s o' r ex s' \<Longrightarrow> client_run sub can s' (pl @ [(given_id r, o')]) cs outs \<Longrightarrow>
    client_run sub can s pl (Place o' # cs) ((view r, ex) # outs)"
| withdraws: "j < length pl \<Longrightarrow> can s (cancel_of (pl ! j)) r s' \<Longrightarrow> client_run sub can s' pl cs outs \<Longrightarrow>
    client_run sub can s pl (Withdraw j # cs) ((view r, []) # outs)"
| nothing_placed: "length pl \<le> j \<Longrightarrow> client_run sub can s pl cs outs \<Longrightarrow>
    client_run sub can s pl (Withdraw j # cs) outs"

inductive_cases client_nil: "client_run sub can s pl [] outs"
inductive_cases client_place: "client_run sub can s pl (Place o' # cs) outs"
inductive_cases client_withdraw: "client_run sub can s pl (Withdraw j # cs) outs"

text \<open>What the client sees of the queues alone.\<close>

fun spec_client :: "client_cmd list \<Rightarrow> NewOrder list \<Rightarrow> (string \<Rightarrow> nat sides) \<Rightarrow> seen list" where
  "spec_client [] pl L = []"
| "spec_client (Place o' # cs) pl L =
     (let t = taker_of o'; (fs, r, M) = place t (length pl) (no_Quantity o') (L (no_Symbol o'))
      in (Some (placed_status t (no_Quantity o') r, no_Quantity o' - r), executions fs) #
           spec_client cs (pl @ [o']) (L(no_Symbol o' := M)))"
| "spec_client (Withdraw j # cs) pl L =
     (if j < length pl then
        (let sy = no_Symbol (pl ! j)
         in (Some (if j \<in> lt_tag ` set (L sy True @ L sy False) then StatusCancelled else StatusRejected, 0), []) #
              spec_client cs pl (L(sy := withdraw j (L sy))))
      else spec_client cs pl L)"

fun placed_orders :: "client_cmd list \<Rightarrow> NewOrder list" where
  "placed_orders [] = []"
| "placed_orders (Place o' # cs) = o' # placed_orders cs"
| "placed_orders (Withdraw j # cs) = placed_orders cs"

section \<open>Engines\<close>

text \<open>
  The contract: \<open>queues\<close> are an engine's books, \<open>ok n\<close> says it is sound with room for \<open>n\<close> more
  orders, \<open>fit\<close> are the orders it is promised to serve, \<open>issued\<close> the ids it has given out.
\<close>

locale price_time_engine =
  fixes submits :: "'s \<Rightarrow> NewOrder \<Rightarrow> error + OrderAck \<Rightarrow> (i64 \<times> i64) list \<Rightarrow> 's \<Rightarrow> bool"
    and cancels :: "'s \<Rightarrow> CancelOrder \<Rightarrow> error + OrderAck \<Rightarrow> 's \<Rightarrow> bool"
    and queues :: "'s \<Rightarrow> string \<Rightarrow> string sides"
    and ok :: "nat \<Rightarrow> 's \<Rightarrow> bool"
    and fit :: "NewOrder \<Rightarrow> bool"
    and issued :: "'s \<Rightarrow> string \<Rightarrow> bool"
  assumes submit_runs: "ok (Suc n) s \<Longrightarrow> fit o' \<Longrightarrow> \<exists>r ex s'. submits s o' r ex s'"
    and submit_law: "ok (Suc n) s \<Longrightarrow> fit o' \<Longrightarrow> submits s o' r ex s' \<Longrightarrow>
      \<exists>ack fs left L. r = Inr ack \<and>
        place (taker_of o') (ack_OrderID ack) (no_Quantity o') (queues s (no_Symbol o')) = (fs, left, L) \<and>
        queues s' = (queues s)(no_Symbol o' := L) \<and>
        ack_Status ack = placed_status (taker_of o') (no_Quantity o') left \<and>
        ack_FilledQuantity ack = no_Quantity o' - left \<and> ex = executions fs \<and>
        ok n s' \<and> ack_OrderID ack \<noteq> '''' \<and> \<not> issued s (ack_OrderID ack) \<and> issued s' (ack_OrderID ack)"
    and submit_issued: "ok (Suc n) s \<Longrightarrow> fit o' \<Longrightarrow> submits s o' r ex s' \<Longrightarrow> issued s i \<Longrightarrow> issued s' i"
    and cancel_runs: "ok n s \<Longrightarrow> \<exists>r s'. cancels s c r s'"
    and cancel_law: "ok n s \<Longrightarrow> co_OrderID c \<noteq> '''' \<Longrightarrow>
      (\<And>sy b x. x \<in> set (queues s sy b) \<Longrightarrow> lt_tag x = co_OrderID c \<Longrightarrow> sy = co_Symbol c \<and> lt_account x = co_AccountID c) \<Longrightarrow>
      cancels s c r s' \<Longrightarrow>
      queues s' = (queues s)(co_Symbol c := withdraw (co_OrderID c) (queues s (co_Symbol c))) \<and> ok n s' \<and>
      (\<exists>ack. r = Inr ack \<and> ack_FilledQuantity ack = 0 \<and>
        ack_Status ack = (if \<exists>b. co_OrderID c \<in> lt_tag ` set (queues s (co_Symbol c) b) then StatusCancelled else StatusRejected))"
    and cancel_issued: "ok n s \<Longrightarrow> cancels s c r s' \<Longrightarrow> issued s i \<Longrightarrow> issued s' i"
    and queued_issued: "ok n s \<Longrightarrow> x \<in> set (queues s sy b) \<Longrightarrow> issued s (lt_tag x)"
begin

text \<open>\<open>follows S pl L s\<close>: on the symbols of \<open>S\<close> the engine's queues are \<open>L\<close>, up to the ids it chose.\<close>

definition follows :: "string set \<Rightarrow> (string \<times> NewOrder) list \<Rightarrow> (string \<Rightarrow> nat sides) \<Rightarrow> 's \<Rightarrow> bool" where
  "follows S pl L s \<longleftrightarrow> distinct (map fst pl) \<and> (\<forall>p\<in>set pl. issued s (fst p) \<and> fst p \<noteq> '''' \<and> no_Symbol (snd p) \<in> S) \<and>
     (\<forall>sy\<in>S. queues s sy = (\<lambda>b. map (retag (\<lambda>t. fst (pl ! t))) (L sy b))) \<and>
     (\<forall>sy\<in>S. \<forall>b. \<forall>x\<in>set (L sy b). lt_tag x < length pl \<and> no_Symbol (snd (pl ! lt_tag x)) = sy \<and>
        no_AccountID (snd (pl ! lt_tag x)) = lt_account x) \<and>
     (\<forall>sy b. sy \<notin> S \<longrightarrow> (\<forall>x\<in>set (queues s sy b). lt_tag x \<notin> fst ` set pl))"

lemma followsD:
  assumes "follows S pl L s"
  shows "distinct (map fst pl)" and "\<And>j. j < length pl \<Longrightarrow> issued s (fst (pl ! j)) \<and> fst (pl ! j) \<noteq> '''' \<and> no_Symbol (snd (pl ! j)) \<in> S"
    and "\<And>sy. sy \<in> S \<Longrightarrow> queues s sy = (\<lambda>b. map (retag (\<lambda>t. fst (pl ! t))) (L sy b))"
    and "\<And>sy b x. sy \<in> S \<Longrightarrow> x \<in> set (L sy b) \<Longrightarrow> lt_tag x < length pl \<and> no_Symbol (snd (pl ! lt_tag x)) = sy \<and>
        no_AccountID (snd (pl ! lt_tag x)) = lt_account x"
    and "\<And>sy b x j. sy \<notin> S \<Longrightarrow> x \<in> set (queues s sy b) \<Longrightarrow> j < length pl \<Longrightarrow> lt_tag x \<noteq> fst (pl ! j)"
  using assms by (auto simp: follows_def) (metis nth_mem image_eqI)+

lemma follows_map:
  assumes "follows S pl L s" and "sy \<in> S"
  shows "queues s sy = (\<lambda>b. map (retag (\<lambda>t. fst ((pl @ [p]) ! t))) (L sy b))"
  using followsD(3,4) [OF assms(1)] assms(2) by (auto simp: fun_eq_iff nth_append retag_def)

lemma follows_place:
  assumes fo: "follows S pl L s" and ok: "ok (Suc n) s" and fit: "fit o'" and sym: "no_Symbol o' \<in> S"
    and sub: "submits s o' r ex s'" and pc: "place (taker_of o') (length pl) (no_Quantity o') (L (no_Symbol o')) = (fs, left, M)"
  shows "follows S (pl @ [(given_id r, o')]) (L(no_Symbol o' := M)) s'" and "ok n s'"
    and "view r = Some (placed_status (taker_of o') (no_Quantity o') left, no_Quantity o' - left)" and "ex = executions fs"
proof -
  let ?sy = "no_Symbol o'" and ?t = "taker_of o'"
  obtain ack fs' left' L' where a: "r = Inr ack"
      "place ?t (ack_OrderID ack) (no_Quantity o') (queues s ?sy) = (fs', left', L')"
      "queues s' = (queues s)(?sy := L')" "ack_Status ack = placed_status ?t (no_Quantity o') left'"
      "ack_FilledQuantity ack = no_Quantity o' - left'" "ex = executions fs'" "ok n s'"
      "ack_OrderID ack \<noteq> ''''" "\<not> issued s (ack_OrderID ack)" "issued s' (ack_OrderID ack)"
    using submit_law [OF ok fit sub] by blast
  let ?pl = "pl @ [(ack_OrderID ack, o')]" and ?g = "\<lambda>t. fst ((pl @ [(ack_OrderID ack, o')]) ! t)"
  have "place ?t (?g (length pl)) (no_Quantity o') (\<lambda>b. map (retag ?g) (L ?sy b)) =
      (map (map_prod (retag ?g) id) fs, left, \<lambda>b. map (retag ?g) (M b))" by (rule place_retag [OF pc])
  moreover have "queues s ?sy = (\<lambda>b. map (retag ?g) (L ?sy b))" by (rule follows_map [OF fo sym])
  ultimately have eq: "fs' = map (map_prod (retag ?g) id) fs" "left' = left" "L' = (\<lambda>b. map (retag ?g) (M b))"
    using a(2) by simp_all
  show "view r = Some (placed_status ?t (no_Quantity o') left, no_Quantity o' - left)" "ex = executions fs" "ok n s'"
    using a eq by (simp_all add: view_def)
  have lots: "lt_tag x < Suc (length pl) \<and> no_Symbol (snd (?pl ! lt_tag x)) = ?sy \<and> no_AccountID (snd (?pl ! lt_tag x)) = lt_account x"
    if "x \<in> set (M b)" for x b
    using place_lots [OF pc that] followsD(4) [OF fo sym, of _ b]
    by (force simp: nth_append taker_of_def)
  have old: "lt_tag x < Suc (length pl) \<and> no_Symbol (snd (?pl ! lt_tag x)) = sy \<and> no_AccountID (snd (?pl ! lt_tag x)) = lt_account x"
    if "sy \<in> S" "x \<in> set (L sy b)" for sy x b
    using followsD(4) [OF fo that] by (simp add: nth_append)
  have ids: "issued s' (fst p) \<and> fst p \<noteq> '''' \<and> no_Symbol (snd p) \<in> S" if "p \<in> set ?pl" for p
    using that fo a(8,10) sym submit_issued [OF ok fit sub] by (auto simp: follows_def)
  have dist: "distinct (map fst ?pl)" using fo a(9) by (auto simp: follows_def)
  have queued: "queues s' sy = (\<lambda>b. map (retag ?g) ((L(?sy := M)) sy b))" if "sy \<in> S" for sy
    using follows_map [OF fo that, of "(ack_OrderID ack, o')"] a(3) eq(3) by auto
  have away: "lt_tag x \<notin> fst ` set ?pl" if "sy \<notin> S" "x \<in> set (queues s' sy b)" for sy x b
  proof -
    have "x \<in> set (queues s sy b)" using that sym a(3) by (auto split: if_splits)
    then have "lt_tag x \<notin> fst ` set pl" "lt_tag x \<noteq> ack_OrderID ack"
      using that(1) a(9) fo queued_issued [OF ok, of x sy b] by (auto simp: follows_def)
    then show ?thesis by simp
  qed
  show "follows S (pl @ [(given_id r, o')]) (L(?sy := M)) s'"
    unfolding follows_def using dist ids queued away lots old by (auto simp: a(1) given_id_def)
qed

lemma follows_withdraw:
  assumes fo: "follows S pl L s" and ok: "ok n s" and j: "j < length pl" and can: "cancels s (cancel_of (pl ! j)) r s'"
  shows "follows S pl (L(no_Symbol (snd (pl ! j)) := withdraw j (L (no_Symbol (snd (pl ! j)))))) s'" and "ok n s'"
    and "view r = Some (if j \<in> lt_tag ` set (L (no_Symbol (snd (pl ! j))) True @ L (no_Symbol (snd (pl ! j))) False)
      then StatusCancelled else StatusRejected, 0)"
proof -
  let ?i = "fst (pl ! j)" and ?sy = "no_Symbol (snd (pl ! j))" and ?g = "\<lambda>t. fst (pl ! t)"
  note D = followsD [OF fo]
  have sy: "?sy \<in> S" using D(2) [OF j] by blast
  have same: "lt_tag x = j" if "sy \<in> S" "x \<in> set (L sy b)" "?g (lt_tag x) = ?i" for sy b x
    using that D(1) D(4) [OF that(1,2)] j nth_eq_iff_index_eq [OF D(1), of "lt_tag x" j] by simp
  have mine: "sy' = ?sy \<and> lt_account x = no_AccountID (snd (pl ! j))" if x: "x \<in> set (queues s sy' b)" "lt_tag x = ?i" for sy' b x
  proof -
    have "sy' \<in> S" using D(5) [OF _ x(1) j] x(2) by blast
    then obtain y where y: "y \<in> set (L sy' b)" "x = retag ?g y" using x(1) D(3) by auto
    then have "lt_tag y = j" using same [OF \<open>sy' \<in> S\<close> y(1)] x(2) by simp
    then show ?thesis using D(4) [OF \<open>sy' \<in> S\<close> y(1)] y(2) by auto
  qed
  have "queues s' = (queues s)(?sy := withdraw ?i (queues s ?sy)) \<and> ok n s' \<and>
      (\<exists>ack. r = Inr ack \<and> ack_FilledQuantity ack = 0 \<and>
        ack_Status ack = (if \<exists>b. ?i \<in> lt_tag ` set (queues s ?sy b) then StatusCancelled else StatusRejected))"
    using cancel_law [OF ok _ _ can] D(2) [OF j] mine by (simp add: cancel_of_def)
  then obtain ack where c: "queues s' = (queues s)(?sy := withdraw ?i (queues s ?sy))" "ok n s'" "r = Inr ack" "ack_FilledQuantity ack = 0"
      "ack_Status ack = (if \<exists>b. ?i \<in> lt_tag ` set (queues s ?sy b) then StatusCancelled else StatusRejected)" by blast
  have "(\<exists>b. ?i \<in> lt_tag ` set (queues s ?sy b)) \<longleftrightarrow> (\<exists>b. j \<in> lt_tag ` set (L ?sy b))"
    using same [OF sy] by (force simp: D(3) [OF sy] image_iff)
  also have "\<dots> \<longleftrightarrow> j \<in> lt_tag ` set (L ?sy True @ L ?sy False)" by (auto simp: ex_bool_eq)
  finally show "view r = Some (if j \<in> lt_tag ` set (L ?sy True @ L ?sy False) then StatusCancelled else StatusRejected, 0)"
    using c(3-5) by (simp add: view_def)
  show "ok n s'" by (rule c(2))
  have "withdraw (?g j) (\<lambda>b. map (retag ?g) (L ?sy b)) = (\<lambda>b. map (retag ?g) (withdraw j (L ?sy) b))"
    by (rule withdraw_retag) (use same [OF sy] in blast)
  then have "queues s' sy' = (\<lambda>b. map (retag ?g) ((L(?sy := withdraw j (L ?sy))) sy' b))" if "sy' \<in> S" for sy'
    using c(1) D(3) sy that by auto
  then show "follows S pl (L(?sy := withdraw j (L ?sy))) s'"
    using fo c(1) sy cancel_issued [OF ok can] unfolding follows_def by (auto simp: withdraw_def)
qed

text \<open>The refinement: a client sees of the engine exactly what it sees of the queues, and is always served.\<close>

theorem client_sees_the_queues:
  assumes "follows S pl L s" and "ok (length (placed_orders cs)) s"
    and "\<forall>o'\<in>set (placed_orders cs). fit o' \<and> no_Symbol o' \<in> S"
  shows "client_run submits cancels s pl cs outs \<longleftrightarrow> outs = spec_client cs (map snd pl) L"
  using assms
proof (induction cs arbitrary: s pl L outs)
  case Nil
  show ?case using client_run.nothing [of submits cancels s pl] by (auto elim: client_nil)
next
  case (Cons c cs)
  show ?case
  proof (cases c)
    case (Place o')
    obtain fs left M where pc: "place (taker_of o') (length pl) (no_Quantity o') (L (no_Symbol o')) = (fs, left, M)" by (metis prod_cases3)
    have pre: "ok (Suc (length (placed_orders cs))) s" "fit o'" "no_Symbol o' \<in> S" using Cons.prems(2,3) Place by simp_all
    note fp = follows_place [OF Cons.prems(1) pre _ pc]
    have IH: "client_run submits cancels s' (pl @ [(given_id r, o')]) cs outs' \<longleftrightarrow>
        outs' = spec_client cs (map snd pl @ [o']) (L(no_Symbol o' := M))" if "submits s o' r ex s'" for r ex s' outs'
      using Cons.IH [OF fp(1,2) [OF that]] Cons.prems(3) Place by (simp add: fun_upd_def)
    obtain r ex s' where sub: "submits s o' r ex s'" using submit_runs [OF pre(1,2)] by blast
    show ?thesis
    proof
      assume "client_run submits cancels s pl (c # cs) outs"
      then show "outs = spec_client (c # cs) (map snd pl) L"
        unfolding Place by (elim client_place) (use IH fp(3,4) pc in \<open>auto\<close>)
    next
      assume "outs = spec_client (c # cs) (map snd pl) L"
      then have "outs = (view r, ex) # spec_client cs (map snd pl @ [o']) (L(no_Symbol o' := M))"
        using fp(3,4) [OF sub] Place pc by simp
      then show "client_run submits cancels s pl (c # cs) outs"
        unfolding Place using places [of submits, OF sub] IH [OF sub] by simp
    qed
  next
    case (Withdraw j)
    show ?thesis
    proof (cases "j < length pl")
      case True
      let ?sy = "no_Symbol (snd (pl ! j))"
      have pre: "ok (length (placed_orders cs)) s" using Cons.prems(2) Withdraw by simp
      note fw = follows_withdraw [OF Cons.prems(1) pre True]
      have IH: "client_run submits cancels s' pl cs outs' \<longleftrightarrow> outs' = spec_client cs (map snd pl) (L(?sy := withdraw j (L ?sy)))"
        if "cancels s (cancel_of (pl ! j)) r s'" for r s' outs'
        using Cons.IH [OF fw(1,2) [OF that]] Cons.prems(3) Withdraw by (simp add: fun_upd_def)
      obtain r s' where can: "cancels s (cancel_of (pl ! j)) r s'" using cancel_runs [OF pre] by blast
      show ?thesis
      proof
        assume "client_run submits cancels s pl (c # cs) outs"
        then show "outs = spec_client (c # cs) (map snd pl) L"
          unfolding Withdraw by (elim client_withdraw) (use IH fw(3) True in \<open>auto simp: Let_def\<close>)
      next
        assume "outs = spec_client (c # cs) (map snd pl) L"
        then have "outs = (view r, []) # spec_client cs (map snd pl) (L(?sy := withdraw j (L ?sy)))"
          using fw(3) [OF can] Withdraw True by (simp add: Let_def)
        then show "client_run submits cancels s pl (c # cs) outs"
          unfolding Withdraw using withdraws [of j pl cancels, OF True can] IH [OF can] by simp
      qed
    next
      case False
      have "client_run submits cancels s pl cs outs \<longleftrightarrow> outs = spec_client cs (map snd pl) L"
        using Cons Withdraw by simp
      then show ?thesis unfolding Withdraw using False
        by (auto elim: client_withdraw intro: nothing_placed)
    qed
  qed
qed

end

end
