(* ===== verification/JavaBook.thy ===== *)
theory JavaBook
  imports PriceTime
begin

text \<open>
  One symbol's book of the Java engine, \<open>engine/model/Order.java\<close> and \<open>engine/book/OrderBook.java\<close>:
  two sorted maps from price to a queue of orders, and an index from order id to order. A book is
  used by one thread, so its operations are functions. Java's \<open>long\<close> is an \<open>i64\<close> and wraps; an
  exception is an \<open>Inl\<close> with its message. What a submission that throws halfway would leave behind is
  not modelled: on a sound book none does (\<open>JavaQueues\<close>).

  Orders are objects: \<open>reduce\<close> through the queue is seen through the index too, and
  \<open>queue.remove(order)\<close> compares references. \<open>jo_ref\<close> is an object's identity. Of what the index
  holds, \<open>cancel\<close> reads the identity and fields that never change, so the entry's own \<open>remaining\<close>
  may be stale.
\<close>

section \<open>Model classes\<close>

datatype JSide = BUY | SELL
datatype JOrderType = LIMIT | MARKET
datatype JOrderStatus = ACCEPTED | PARTIALLY_FILLED | FILLED | CANCELLED | REJECTED

record JOrder =
  jo_ref :: nat
  jo_orderId :: string
  jo_clientOrderId :: string
  jo_accountId :: string
  jo_symbol :: string
  jo_side :: JSide
  jo_type :: JOrderType
  jo_priceTicks :: i64
  jo_quantity :: i64
  jo_sequence :: i64
  jo_remaining :: i64

definition newJOrder ::
  "nat \<Rightarrow> string \<Rightarrow> string \<Rightarrow> string \<Rightarrow> string \<Rightarrow> JSide \<Rightarrow> JOrderType \<Rightarrow> i64 \<Rightarrow> i64 \<Rightarrow> i64 \<Rightarrow> error + JOrder" where
  "newJOrder ref orderId clientOrderId accountId symbol side type priceTicks quantity seq =
     (if quantity \<le>s 0 then Inl (''quantity must be positive: '' @ fmt_d quantity)
      else if type = LIMIT \<and> priceTicks \<le>s 0 then Inl (''limit price must be positive: '' @ fmt_d priceTicks)
      else Inr \<lparr>jo_ref = ref, jo_orderId = orderId, jo_clientOrderId = clientOrderId, jo_accountId = accountId,
        jo_symbol = symbol, jo_side = side, jo_type = type, jo_priceTicks = priceTicks, jo_quantity = quantity,
        jo_sequence = seq, jo_remaining = quantity\<rparr>)"

definition filled :: "JOrder \<Rightarrow> i64" where
  "filled o' = jo_quantity o' - jo_remaining o'"

definition isFilled :: "JOrder \<Rightarrow> bool" where
  "isFilled o' \<longleftrightarrow> jo_remaining o' = 0"

definition reduce :: "i64 \<Rightarrow> JOrder \<Rightarrow> error + JOrder" where
  "reduce qty o' =
     (if qty \<le>s 0 \<or> jo_remaining o' <s qty then
        Inl (''invalid reduce '' @ fmt_d qty @ '' of remaining '' @ fmt_d (jo_remaining o'))
      else Inr (o'\<lparr>jo_remaining := jo_remaining o' - qty\<rparr>))"

record JTrade =
  jt_tradeId :: string
  jt_symbol :: string
  jt_priceTicks :: i64
  jt_quantity :: i64
  jt_buyOrderId :: string
  jt_sellOrderId :: string
  jt_buyAccountId :: string
  jt_sellAccountId :: string
  jt_tsMillis :: i64

record MatchResult =
  mr_orderId :: string
  mr_status :: JOrderStatus
  mr_filledQuantity :: i64
  mr_trades :: "JTrade list"

section \<open>The book\<close>

text \<open>A \<open>TreeMap\<close> is its entries in key order; \<open>beforeKey\<close> is the comparator of each side.\<close>

type_synonym JLevels = "(i64 \<times> JOrder list) list"

record JBook =
  jb_symbol :: string
  jb_bids :: JLevels
  jb_asks :: JLevels
  jb_index :: "string \<rightharpoonup> JOrder"
  jb_tradeSeq :: i64

definition newJBook :: "string \<Rightarrow> JBook" where
  "newJBook symbol = \<lparr>jb_symbol = symbol, jb_bids = [], jb_asks = [], jb_index = Map.empty, jb_tradeSeq = 0\<rparr>"

definition beforeKey :: "JSide \<Rightarrow> i64 \<Rightarrow> i64 \<Rightarrow> bool" where
  "beforeKey side a b = (if side = BUY then b <s a else a <s b)"

text \<open>\<open>computeIfAbsent(price, ...).addLast(order)\<close>.\<close>

fun addLast :: "JSide \<Rightarrow> i64 \<Rightarrow> JOrder \<Rightarrow> JLevels \<Rightarrow> JLevels" where
  "addLast side p o' [] = [(p, [o'])]"
| "addLast side p o' ((k, q) # ls) =
     (if k = p then (k, q @ [o']) # ls
      else if beforeKey side p k then (p, [o']) # (k, q) # ls
      else (k, q) # addLast side p o' ls)"

definition levelsOf :: "JSide \<Rightarrow> JBook \<Rightarrow> JLevels" where
  "levelsOf side b = (case side of BUY \<Rightarrow> jb_bids b | SELL \<Rightarrow> jb_asks b)"

definition setLevels :: "JSide \<Rightarrow> JLevels \<Rightarrow> JBook \<Rightarrow> JBook" where
  "setLevels side ls b = (case side of BUY \<Rightarrow> b\<lparr>jb_bids := ls\<rparr> | SELL \<Rightarrow> b\<lparr>jb_asks := ls\<rparr>)"

definition JSide_opposite :: "JSide \<Rightarrow> JSide" where
  "JSide_opposite side = (if side = BUY then SELL else BUY)"

section \<open>Matching\<close>

definition Jcrosses :: "JOrder \<Rightarrow> i64 \<Rightarrow> bool" where
  "Jcrosses incoming restingPrice =
     (if jo_type incoming = MARKET then True
      else if jo_side incoming = BUY then restingPrice \<le>s jo_priceTicks incoming
      else jo_priceTicks incoming \<le>s restingPrice)"

text \<open>What a submission works on: the incoming order, the index, the trades and the trade counter.\<close>

record JRun =
  jr_incoming :: JOrder
  jr_index :: "string \<rightharpoonup> JOrder"
  jr_trades :: "JTrade list"
  jr_tradeSeq :: i64

definition trade_id :: "string \<Rightarrow> i64 \<Rightarrow> string" where
  "trade_id symbol n = symbol @ ''-T'' @ fmt_d n"

text \<open>\<open>makeTrade\<close>; the clock read for the \<open>n\<close>-th trade of the book is \<open>clock n\<close>.\<close>

definition makeTrade :: "string \<Rightarrow> (i64 \<Rightarrow> i64) \<Rightarrow> JOrder \<Rightarrow> JOrder \<Rightarrow> i64 \<Rightarrow> i64 \<Rightarrow> i64 \<Rightarrow> JTrade" where
  "makeTrade symbol clock incoming resting priceTicks qty n =
     (let incomingIsBuy = (jo_side incoming = BUY);
          buy = (if incomingIsBuy then incoming else resting);
          sell = (if incomingIsBuy then resting else incoming)
      in \<lparr>jt_tradeId = trade_id symbol n, jt_symbol = symbol, jt_priceTicks = priceTicks, jt_quantity = qty,
          jt_buyOrderId = jo_orderId buy, jt_sellOrderId = jo_orderId sell,
          jt_buyAccountId = jo_accountId buy, jt_sellAccountId = jo_accountId sell, jt_tsMillis = clock n\<rparr>)"

lemma reduce_less: "reduce qty o' = Inr o'' \<Longrightarrow> nat (sint (jo_remaining o'')) < nat (sint (jo_remaining o'))"
proof -
  assume "reduce qty o' = Inr o''"
  then have q: "0 < sint qty" "sint qty \<le> sint (jo_remaining o')" "o'' = o'\<lparr>jo_remaining := jo_remaining o' - qty\<rparr>"
    by (auto simp: reduce_def go_signed split: if_splits)
  then have "sint (jo_remaining o' - qty) = sint (jo_remaining o') - sint qty" by (intro sint_take_away) simp_all
  then show ?thesis using q by simp
qed

text \<open>
  The loop over one level's queue: the taker's own orders are held aside and put back in front.
  Every turn takes an order off the queue or fills the incoming one.
\<close>

function matchQueue ::
  "string \<Rightarrow> (i64 \<Rightarrow> i64) \<Rightarrow> i64 \<Rightarrow> JOrder list \<Rightarrow> JOrder list \<Rightarrow> JRun \<Rightarrow> error + JOrder list \<times> JRun" where
  "matchQueue symbol clock price ownHeld queue st =
     (case queue of
        [] \<Rightarrow> Inr (ownHeld, st)
      | resting # rest \<Rightarrow>
          if \<not> 0 <s jo_remaining (jr_incoming st) then Inr (ownHeld @ queue, st)
          else if jo_accountId resting = jo_accountId (jr_incoming st) then
            matchQueue symbol clock price (ownHeld @ [resting]) rest st
          else
            let incoming = jr_incoming st;
                qty = (if jo_remaining resting <s jo_remaining incoming then jo_remaining resting else jo_remaining incoming);
                n = jr_tradeSeq st + 1;
                trades = jr_trades st @ [makeTrade symbol clock incoming resting price qty n]
            in (case reduce qty incoming of
                  Inl x \<Rightarrow> Inl x
                | Inr incoming' \<Rightarrow>
                    (case reduce qty resting of
                       Inl x \<Rightarrow> Inl x
                     | Inr resting' \<Rightarrow>
                         let st' = st\<lparr>jr_incoming := incoming', jr_trades := trades, jr_tradeSeq := n\<rparr>
                         in if isFilled resting' then
                              matchQueue symbol clock price ownHeld rest
                                (st'\<lparr>jr_index := (jr_index st')(jo_orderId resting' := None)\<rparr>)
                            else matchQueue symbol clock price ownHeld (resting' # rest) st')))"
  by pat_completeness auto

termination
  by (relation "measure (\<lambda>(symbol, clock, price, ownHeld, queue, st). length queue + nat (sint (jo_remaining (jr_incoming st))))")
    (auto dest!: reduce_less)

declare matchQueue.simps [simp del]

text \<open>The walk over the levels, best first.\<close>

fun matchLevels :: "string \<Rightarrow> (i64 \<Rightarrow> i64) \<Rightarrow> JLevels \<Rightarrow> JRun \<Rightarrow> error + JLevels \<times> JRun" where
  "matchLevels symbol clock [] st = Inr ([], st)"
| "matchLevels symbol clock ((bestPrice, queue) # ls) st =
     (if \<not> 0 <s jo_remaining (jr_incoming st) then Inr ((bestPrice, queue) # ls, st)
      else if \<not> Jcrosses (jr_incoming st) bestPrice then Inr ((bestPrice, queue) # ls, st)
      else (case matchQueue symbol clock bestPrice [] queue st of
              Inl x \<Rightarrow> Inl x
            | Inr (queue', st1) \<Rightarrow>
                (case matchLevels symbol clock ls st1 of
                   Inl x \<Rightarrow> Inl x
                 | Inr (ls', st2) \<Rightarrow> Inr (if queue' = [] then ls' else (bestPrice, queue') # ls', st2))))"

definition restOrder :: "JOrder \<Rightarrow> JBook \<Rightarrow> JBook" where
  "restOrder o' b =
     (setLevels (jo_side o') (addLast (jo_side o') (jo_priceTicks o') o' (levelsOf (jo_side o') b)) b)
       \<lparr>jb_index := (jb_index b)(jo_orderId o' \<mapsto> o')\<rparr>"

definition finalize :: "JOrder \<Rightarrow> JTrade list \<Rightarrow> JBook \<Rightarrow> MatchResult \<times> JBook" where
  "finalize incoming trades b =
     (let n = filled incoming;
          result = (\<lambda>status. \<lparr>mr_orderId = jo_orderId incoming, mr_status = status, mr_filledQuantity = n, mr_trades = trades\<rparr>)
      in if isFilled incoming then (result FILLED, b)
         else if jo_type incoming = MARKET then (result (if 0 <s n then PARTIALLY_FILLED else REJECTED), b)
         else (result (if 0 <s n then PARTIALLY_FILLED else ACCEPTED), restOrder incoming b))"

definition Jsubmit :: "(i64 \<Rightarrow> i64) \<Rightarrow> JBook \<Rightarrow> JOrder \<Rightarrow> error + MatchResult \<times> JBook" where
  "Jsubmit clock b incoming =
     (if jb_symbol b \<noteq> jo_symbol incoming then
        Inl (''order symbol '' @ jo_symbol incoming @ '' != book symbol '' @ jb_symbol b)
      else
        let opposite = JSide_opposite (jo_side incoming)
        in (case matchLevels (jb_symbol b) clock (levelsOf opposite b)
               \<lparr>jr_incoming = incoming, jr_index = jb_index b, jr_trades = [], jr_tradeSeq = jb_tradeSeq b\<rparr> of
              Inl x \<Rightarrow> Inl x
            | Inr (ls, st) \<Rightarrow>
                Inr (finalize (jr_incoming st) (jr_trades st)
                  ((setLevels opposite ls b)\<lparr>jb_index := jr_index st, jb_tradeSeq := jr_tradeSeq st\<rparr>))))"

section \<open>Cancelling and reading\<close>

text \<open>\<open>ArrayDeque.remove\<close>: the first element that is this object.\<close>

fun removeRef :: "nat \<Rightarrow> JOrder list \<Rightarrow> JOrder list" where
  "removeRef r [] = []"
| "removeRef r (x # xs) = (if jo_ref x = r then xs else x # removeRef r xs)"

fun removeFromLevel :: "i64 \<Rightarrow> nat \<Rightarrow> JLevels \<Rightarrow> JLevels" where
  "removeFromLevel p r [] = []"
| "removeFromLevel p r ((k, q) # ls) =
     (if k = p then (if removeRef r q = [] then ls else (k, removeRef r q) # ls)
      else (k, q) # removeFromLevel p r ls)"

definition Jcancel :: "string \<Rightarrow> JBook \<Rightarrow> bool \<times> JBook" where
  "Jcancel orderId b =
     (case jb_index b orderId of
        None \<Rightarrow> (False, b)
      | Some o' \<Rightarrow>
          (True, (setLevels (jo_side o') (removeFromLevel (jo_priceTicks o') (jo_ref o') (levelsOf (jo_side o') b)) b)
             \<lparr>jb_index := (jb_index b)(orderId := None)\<rparr>))"

definition bestBid :: "JBook \<Rightarrow> i64 option" where
  "bestBid b = (case jb_bids b of [] \<Rightarrow> None | (p, q) # ls \<Rightarrow> Some p)"

definition bestAsk :: "JBook \<Rightarrow> i64 option" where
  "bestAsk b = (case jb_asks b of [] \<Rightarrow> None | (p, q) # ls \<Rightarrow> Some p)"

definition contains :: "string \<Rightarrow> JBook \<Rightarrow> bool" where
  "contains orderId b \<longleftrightarrow> jb_index b orderId \<noteq> None"

text \<open>\<open>levels\<close>: it stops as soon as it has \<open>depth\<close> levels, so at once when \<open>depth\<close> is not positive.\<close>

fun Jlevels :: "JLevels \<Rightarrow> nat \<Rightarrow> i32 \<Rightarrow> (i64 \<times> i64) list" where
  "Jlevels [] n depth = []"
| "Jlevels ((p, q) # ls) n depth =
     (if sint depth \<le> int n then [] else (p, sum_list (map jo_remaining q)) # Jlevels ls (Suc n) depth)"

end
