(* ===== verification/PriceTimeOrder.thy ===== *)
theory PriceTimeOrder
  imports PriceTime "HOL-Library.Sublist"
begin

text \<open>
  What every price-time engine keeps: each queue is in price order, and no bid reaches an ask of
  another account. Placing and withdrawing preserve both, and a sweep makes at most one trade more
  than it uses up resting orders.
\<close>

definition side_sorted :: "bool \<Rightarrow> 't lot list \<Rightarrow> bool" where
  "side_sorted b xs \<longleftrightarrow> sorted_wrt (\<lambda>p q. \<not> ahead b q p) (map lt_price xs)"

definition apart :: "'t sides \<Rightarrow> bool" where
  "apart L \<longleftrightarrow> (\<forall>x\<in>set (L True). \<forall>y\<in>set (L False). lt_account x = lt_account y \<or> sint (lt_price x) < sint (lt_price y))"

definition orderly :: "'t sides \<Rightarrow> bool" where
  "orderly L \<longleftrightarrow> side_sorted True (L True) \<and> side_sorted False (L False) \<and> apart L \<and>
     (\<forall>b. \<forall>x\<in>set (L b). 0 < sint (lt_left x))"

lemma sorted_wrt_subseq: "subseq xs ys \<Longrightarrow> sorted_wrt R ys \<Longrightarrow> sorted_wrt R xs"
  by (induction rule: list_emb.induct) (auto dest: list_emb_set)

lemma ahead_trans: "\<not> ahead b q p \<Longrightarrow> \<not> ahead b r q \<Longrightarrow> \<not> ahead b r p"
  by (auto simp: ahead_def go_signed split: if_splits)

lemma willing_mono: "\<not> ahead (\<not> tk_buy t) q p \<Longrightarrow> willing t q \<Longrightarrow> willing t p"
  by (auto simp: ahead_def willing_def go_signed split: if_splits)

lemma sweep_prices: "sweep t r xs = (fs, r', ys) \<Longrightarrow> subseq (map lt_price ys) (map lt_price xs)"
  by (induction t r xs arbitrary: fs r' ys rule: sweep.induct) (auto simp: Let_def split: if_splits prod.splits)

lemma sweep_count: "sweep t r xs = (fs, r', ys) \<Longrightarrow> length fs + length ys \<le> length xs + (if 0 <s r then 1 else 0)"
proof (induction t r xs arbitrary: fs r' ys rule: sweep.induct)
  case (2 t r x xs)
  let ?f = "take_from r x"
  show ?case
  proof (cases "0 <s r \<and> willing t (lt_price x)")
    case True
    show ?thesis
    proof (cases "lt_account x = tk_account t")
      case own: True
      then obtain zs where "sweep t r xs = (fs, r', zs)" "ys = x # zs" using 2(3) True by (auto simp: Let_def split: prod.splits)
      then show ?thesis using "2.IH"(1) [OF True own] by fastforce
    next
      case other: False
      then obtain gs zs where gs: "sweep t (r - ?f) xs = (gs, r', zs)" "fs = (x, ?f) # gs" "length ys \<le> length zs + (if lt_left x - ?f = 0 then 0 else 1)"
        using 2(3) True by (auto simp: Let_def split: prod.splits if_splits)
      have "lt_left x - ?f \<noteq> 0 \<Longrightarrow> r - ?f = 0" by (auto simp: take_from_def split: if_splits)
      then show ?thesis using "2.IH"(2) [OF True other refl gs(1)] gs(2,3) True by (auto split: if_splits)
    qed
  qed (use 2 in auto)
qed simp

text \<open>What a sweep that ran out of counterparties leaves: its own orders, and prices it would not pay.\<close>

lemma sweep_unwilling:
  "sweep t r xs = (fs, r', ys) \<Longrightarrow> 0 <s r' \<Longrightarrow> side_sorted (\<not> tk_buy t) xs \<Longrightarrow> y \<in> set ys \<Longrightarrow>
   willing t (lt_price y) \<Longrightarrow> lt_account y = tk_account t"
proof (induction t r xs arbitrary: fs r' ys rule: sweep.induct)
  case (2 t r x xs)
  let ?f = "take_from r x"
  have sorted: "side_sorted (\<not> tk_buy t) xs" "\<forall>z\<in>set xs. \<not> ahead (\<not> tk_buy t) (lt_price z) (lt_price x)"
    using 2(5) by (simp_all add: side_sorted_def)
  show ?case
  proof (cases "0 <s r \<and> willing t (lt_price x)")
    case True
    show ?thesis
    proof (cases "lt_account x = tk_account t")
      case own: True
      then obtain zs where "sweep t r xs = (fs, r', zs)" "ys = x # zs" using 2(3) True by (auto simp: Let_def split: prod.splits)
      then show ?thesis using "2.IH"(1) [OF True own _ 2(4) sorted(1) _ 2(7)] own 2(6) by fastforce
    next
      case other: False
      then obtain gs zs where gs: "sweep t (r - ?f) xs = (gs, r', zs)"
          "ys = (if lt_left x - ?f = 0 then zs else x\<lparr>lt_left := lt_left x - ?f\<rparr> # zs)"
        using 2(3) True by (auto simp: Let_def split: prod.splits)
      have "lt_left x - ?f = 0"
      proof (rule ccontr)
        assume "lt_left x - ?f \<noteq> 0"
        then have "r - ?f = 0" by (auto simp: take_from_def split: if_splits)
        then have "r' = 0" using gs(1) by (cases xs) auto
        then show False using 2(4) by simp
      qed
      then show ?thesis using "2.IH"(2) [OF True other refl gs(1) 2(4) sorted(1) _ 2(7)] gs(2) 2(6) by simp
    qed
  next
    case False
    then have "ys = x # xs" "r' = r" using 2(3) by auto
    moreover have "\<not> willing t (lt_price x)" using False 2(4) calculation(2) by simp
    ultimately show ?thesis using 2(6,7) sorted(2) willing_mono by auto
  qed
qed simp

lemma sweep_positive:
  "sweep t r xs = (fs, r', ys) \<Longrightarrow> \<forall>x\<in>set xs. 0 < sint (lt_left x) \<Longrightarrow> y \<in> set ys \<Longrightarrow> 0 < sint (lt_left y)"
proof (induction t r xs arbitrary: fs r' ys rule: sweep.induct)
  case (2 t r x xs)
  let ?f = "take_from r x"
  show ?case
  proof (cases "0 <s r \<and> willing t (lt_price x)")
    case True
    show ?thesis
    proof (cases "lt_account x = tk_account t")
      case own: True
      then obtain zs where "sweep t r xs = (fs, r', zs)" "ys = x # zs" using 2(3) True by (auto simp: Let_def split: prod.splits)
      then show ?thesis using "2.IH"(1) [OF True own] 2(4,5) by auto
    next
      case other: False
      then obtain gs zs where gs: "sweep t (r - ?f) xs = (gs, r', zs)"
          "ys = (if lt_left x - ?f = 0 then zs else x\<lparr>lt_left := lt_left x - ?f\<rparr> # zs)"
        using 2(3) True by (auto simp: Let_def split: prod.splits)
      have "0 \<le> sint (lt_left x - ?f)"
        using True 2(4) sint_take_away [of ?f "lt_left x"] by (auto simp: take_from_def go_signed)
      then have "lt_left x - ?f \<noteq> 0 \<Longrightarrow> 0 < sint (lt_left x - ?f)" by (simp add: order.strict_iff_order sint_zero_iff)
      then show ?thesis using "2.IH"(2) [OF True other refl gs(1)] 2(4,5) gs(2) by (auto split: if_splits)
    qed
  qed (use 2 in auto)
qed simp

lemma enqueue_sorted: "side_sorted b ys \<Longrightarrow> side_sorted b (enqueue b x ys)"
proof (induction b x ys rule: enqueue.induct)
  case (2 b x y ys)
  have irr: "\<not> ahead b (lt_price y) (lt_price x)" if "ahead b (lt_price x) (lt_price y)"
    using that by (auto simp: ahead_def go_signed split: if_splits)
  have "\<not> ahead b q (lt_price x)" if "ahead b (lt_price x) (lt_price y)" "q \<in> lt_price ` set ys" for q
    using ahead_trans [of b "lt_price y" "lt_price x" q] irr that 2(2) by (auto simp: side_sorted_def)
  then show ?case using 2 irr by (auto simp: side_sorted_def set_enqueue)
qed (simp add: side_sorted_def)

theorem place_orderly:
  assumes ok: "orderly L" and pl: "place t tag qty L = (fs, r, M)"
  shows "orderly M"
proof -
  let ?b = "tk_buy t"
  obtain fs' r' ys where sw: "sweep t qty (L (\<not> ?b)) = (fs', r', ys)" by (metis prod_cases3)
  let ?mine = "\<lparr>lt_price = tk_price t, lt_account = tk_account t, lt_left = r', lt_tag = tag\<rparr>"
  have M: "M (\<not> ?b) = ys" "M ?b = (if 0 <s r' \<and> \<not> tk_market t then enqueue ?b ?mine (L ?b) else L ?b)"
    using pl by (auto simp: place_def sw Let_def split: if_splits)
  have so: "side_sorted c (L c)" and pos: "\<forall>x\<in>set (L c). 0 < sint (lt_left x)" for c using ok by (cases c; simp add: orderly_def)+
  have "side_sorted (\<not> ?b) ys" using so [of "\<not> ?b"] sorted_wrt_subseq [OF sweep_prices [OF sw]] by (simp add: side_sorted_def)
  moreover have "side_sorted ?b (M ?b)" using so [of ?b] M(2) by (simp add: enqueue_sorted)
  ultimately have sorted: "side_sorted c (M c)" for c using M(1) by (cases "c = ?b") auto
  have left: "0 < sint (lt_left x)" if "x \<in> set (M c)" for x c
    using that M pos sweep_positive [OF sw pos] by (cases "c = ?b") (auto simp: set_enqueue go_signed split: if_splits)
  have old: "lt_account x = lt_account y \<or> (if ?b then sint (lt_price x) < sint (lt_price y) else sint (lt_price y) < sint (lt_price x))"
    if x: "x \<in> set (L ?b)" and y: "y \<in> set ys" for x y
  proof -
    obtain z where z: "z \<in> set (L (\<not> ?b))" "lt_account z = lt_account y" "lt_price z = lt_price y" using sweep_lots [OF sw y] by metis
    have "lt_account x = lt_account z \<or> (if ?b then sint (lt_price x) < sint (lt_price z) else sint (lt_price z) < sint (lt_price x))"
      using ok x z(1) by (cases ?b) (auto simp: orderly_def apart_def dest!: bspec)
    then show ?thesis by (simp only: z(2,3))
  qed
  have mine: "lt_account ?mine = lt_account y \<or> (if ?b then tk_price t <s lt_price y else lt_price y <s tk_price t)"
    if "0 <s r'" "\<not> tk_market t" "y \<in> set ys" for y
    using sweep_unwilling [OF sw that(1) so [of "\<not> ?b"] that(3)] that(2) by (auto simp: willing_def go_signed)
  have "lt_account x = lt_account y \<or> (if ?b then sint (lt_price x) < sint (lt_price y) else sint (lt_price y) < sint (lt_price x))"
    if x: "x \<in> set (M ?b)" and y: "y \<in> set (M (\<not> ?b))" for x y
  proof -
    have ys: "y \<in> set ys" using y M(1) by simp
    consider "x \<in> set (L ?b)" | "x = ?mine" "0 <s r'" "\<not> tk_market t"
      using x M(2) by (auto simp: set_enqueue split: if_splits)
    then show ?thesis
    proof cases
      case 1
      then show ?thesis by (rule old [OF _ ys])
    next
      case 2
      then show ?thesis using mine [OF 2(2,3) ys] by (auto simp: go_signed split: if_splits)
    qed
  qed
  then have "apart M" by (cases ?b) (fastforce simp: apart_def)+
  then show ?thesis using sorted left by (simp add: orderly_def)
qed

theorem withdraw_orderly: "orderly L \<Longrightarrow> orderly (withdraw i L)"
  using sorted_wrt_subseq [OF subseq_map [OF subseq_filter_left]]
  by (fastforce simp: orderly_def withdraw_def side_sorted_def apart_def)

end
