(* ===== verification/JavaQueues.thy ===== *)
theory JavaQueues
  imports JavaBook PriceTimeOrder
begin

text \<open>
  The matching of the Java book is a sweep of price-time queues: \<open>matchQueue\<close> and \<open>matchLevels\<close> fill
  what \<open>PriceTime\<close> fills, in the same order, print the trades of those fills, and never throw.
\<close>

section \<open>The queues of a book\<close>

definition jlot :: "JOrder \<Rightarrow> string lot" where
  "jlot o' = \<lparr>lt_price = jo_priceTicks o', lt_account = jo_accountId o', lt_left = jo_remaining o', lt_tag = jo_orderId o'\<rparr>"

definition jtaker :: "JOrder \<Rightarrow> taker" where
  "jtaker o' = \<lparr>tk_buy = (jo_side o' = BUY), tk_market = (jo_type o' = MARKET), tk_price = jo_priceTicks o',
     tk_account = jo_accountId o'\<rparr>"

definition levelOrders :: "JLevels \<Rightarrow> JOrder list" where
  "levelOrders ls = concat (map snd ls)"

definition jside :: "bool \<Rightarrow> JSide" where
  "jside b = (if b then BUY else SELL)"

definition book_queues :: "JBook \<Rightarrow> string sides" where
  "book_queues b d = map jlot (levelOrders (levelsOf (jside d) b))"

lemma jlot_simps [simp]:
  "lt_price (jlot o') = jo_priceTicks o'" "lt_account (jlot o') = jo_accountId o'" "lt_left (jlot o') = jo_remaining o'"
  "lt_tag (jlot o') = jo_orderId o'" "jlot (o'\<lparr>jo_remaining := q\<rparr>) = (jlot o')\<lparr>lt_left := q\<rparr>"
  by (simp_all add: jlot_def)

lemma jtaker_simps [simp]:
  "tk_account (jtaker o') = jo_accountId o'" "tk_buy (jtaker o') \<longleftrightarrow> jo_side o' = BUY" "tk_market (jtaker o') \<longleftrightarrow> jo_type o' = MARKET"
  "tk_price (jtaker o') = jo_priceTicks o'" "jtaker (o'\<lparr>jo_remaining := q\<rparr>) = jtaker o'"
  by (simp_all add: jtaker_def)

lemma levelOrders_simps [simp]: "levelOrders [] = []" "levelOrders ((p, q) # ls) = q @ levelOrders ls"
  by (simp_all add: levelOrders_def)

lemma willing_Jcrosses: "willing (jtaker o') p \<longleftrightarrow> Jcrosses o' p"
  by (simp add: willing_def Jcrosses_def)

text \<open>What never changes of an order.\<close>

definition jcore :: "JOrder \<Rightarrow> JOrder" where
  "jcore o' = o'\<lparr>jo_remaining := 0\<rparr>"

lemma jcore_simps [simp]:
  "jo_ref (jcore o') = jo_ref o'" "jo_orderId (jcore o') = jo_orderId o'" "jo_side (jcore o') = jo_side o'"
  "jo_priceTicks (jcore o') = jo_priceTicks o'" "jo_accountId (jcore o') = jo_accountId o'" "jo_type (jcore o') = jo_type o'"
  "jo_symbol (jcore o') = jo_symbol o'" "jcore (o'\<lparr>jo_remaining := q\<rparr>) = jcore o'"
  by (simp_all add: jcore_def)

text \<open>The trades a sweep prints.\<close>

fun print_trades :: "string \<Rightarrow> (i64 \<Rightarrow> i64) \<Rightarrow> JOrder \<Rightarrow> i64 \<Rightarrow> (string lot \<times> i64) list \<Rightarrow> JTrade list" where
  "print_trades symbol clock inc n [] = []"
| "print_trades symbol clock inc n ((x, f) # fs) =
     (let buys = (jo_side inc = BUY)
      in \<lparr>jt_tradeId = trade_id symbol (n + 1), jt_symbol = symbol, jt_priceTicks = lt_price x, jt_quantity = f,
          jt_buyOrderId = (if buys then jo_orderId inc else lt_tag x), jt_sellOrderId = (if buys then lt_tag x else jo_orderId inc),
          jt_buyAccountId = (if buys then jo_accountId inc else lt_account x),
          jt_sellAccountId = (if buys then lt_account x else jo_accountId inc), jt_tsMillis = clock (n + 1)\<rparr>) #
     print_trades symbol clock inc (n + 1) fs"

lemma print_trades_core [simp]: "print_trades symbol clock (inc\<lparr>jo_remaining := q\<rparr>) n fs = print_trades symbol clock inc n fs"
  by (induction symbol clock inc n fs rule: print_trades.induct) (simp_all add: Let_def)

lemma print_trades_append:
  "print_trades symbol clock inc n (fs @ gs) = print_trades symbol clock inc n fs @ print_trades symbol clock inc (n + of_nat (length fs)) gs"
  by (induction fs arbitrary: n) (auto simp: algebra_simps)

lemma print_trades_executions:
  "map (\<lambda>t. (jt_priceTicks t, jt_quantity t)) (print_trades symbol clock inc n fs) = executions fs"
  by (induction symbol clock inc n fs rule: print_trades.induct) (simp_all add: executions_def Let_def)

section \<open>Sweeps in pieces\<close>

lemma sweep_append:
  assumes "sweep t r xs = (fs, r', xs')" and "\<And>x. x \<in> set xs \<Longrightarrow> willing t (lt_price x)" and "sweep t r' ys = (gs, r'', ys')"
  shows "sweep t r (xs @ ys) = (fs @ gs, r'', xs' @ ys')"
  using assms
proof (induction xs arbitrary: r fs r' xs')
  case (Cons x xs)
  show ?case
  proof (cases "0 <s r")
    case True
    have w: "willing t (lt_price x)" using Cons.prems(2) by simp
    show ?thesis
    proof (cases "lt_account x = tk_account t")
      case True
      then obtain zs where "sweep t r xs = (fs, r', zs)" "xs' = x # zs"
        using Cons.prems(1) \<open>0 <s r\<close> w by (auto simp: Let_def split: prod.splits)
      then show ?thesis using Cons.IH Cons.prems(2,3) True \<open>0 <s r\<close> w by simp
    next
      case False
      obtain hs zs where "sweep t (r - take_from r x) xs = (hs, r', zs)" "fs = (x, take_from r x) # hs"
        "xs' = (if lt_left x - take_from r x = 0 then zs else x\<lparr>lt_left := lt_left x - take_from r x\<rparr> # zs)"
        using Cons.prems(1) \<open>0 <s r\<close> w False by (auto simp: Let_def split: prod.splits)
      then show ?thesis using Cons.IH Cons.prems(2,3) False \<open>0 <s r\<close> w by (simp add: Let_def)
    qed
  next
    case False
    then have "fs = []" "r' = r" "xs' = x # xs" using Cons.prems(1) by auto
    moreover have "gs = []" "r'' = r" "ys' = ys" using Cons.prems(3) False calculation by (cases ys; auto)+
    ultimately show ?thesis using False by simp
  qed
qed simp

lemma sweep_stop: "\<not> 0 <s r \<or> (xs \<noteq> [] \<longrightarrow> \<not> willing t (lt_price (hd xs))) \<Longrightarrow> sweep t r xs = ([], r, xs)"
  by (cases xs) auto

section \<open>One level\<close>

definition swept :: "string \<Rightarrow> (i64 \<Rightarrow> i64) \<Rightarrow> JRun \<Rightarrow> (string lot \<times> i64) list \<Rightarrow> i64 \<Rightarrow> string set \<Rightarrow> JRun" where
  "swept symbol clock st fs r gone =
     st\<lparr>jr_incoming := (jr_incoming st)\<lparr>jo_remaining := r\<rparr>,
        jr_trades := jr_trades st @ print_trades symbol clock (jr_incoming st) (jr_tradeSeq st) fs,
        jr_tradeSeq := jr_tradeSeq st + of_nat (length fs), jr_index := (\<lambda>i. if i \<in> gone then None else jr_index st i)\<rparr>"

lemma swept_incoming [simp]: "jr_incoming (swept symbol clock st fs r gone) = (jr_incoming st)\<lparr>jo_remaining := r\<rparr>"
  by (simp add: swept_def)

lemma Jcrosses_reduced [simp]: "Jcrosses (o'\<lparr>jo_remaining := r\<rparr>) p = Jcrosses o' p"
  by (simp add: Jcrosses_def)

lemma swept_none [simp]: "swept symbol clock st [] (jo_remaining (jr_incoming st)) {} = st"
  by (simp add: swept_def)

lemma swept_more:
  "swept symbol clock (swept symbol clock st fs r gone) gs r' gone' = swept symbol clock st (fs @ gs) r' (gone \<union> gone')"
  by (auto simp: swept_def print_trades_append fun_eq_iff)

abbreviation ids :: "JOrder list \<Rightarrow> string set" where
  "ids os \<equiv> jo_orderId ` set os"

definition level_fit :: "i64 \<Rightarrow> JOrder list \<Rightarrow> bool" where
  "level_fit p q \<longleftrightarrow> (\<forall>o'\<in>set q. 0 < sint (jo_remaining o') \<and> jo_priceTicks o' = p)"

text \<open>One turn of the loop with a counterparty, as a sweep of one order.\<close>

lemma fill_reduces:
  assumes "0 < sint r" and "0 < sint (jo_remaining o')"
  defines "f \<equiv> take_from r (jlot o')"
  shows "reduce f o' = Inr (o'\<lparr>jo_remaining := jo_remaining o' - f\<rparr>)"
    and "jo_remaining inc = r \<Longrightarrow> reduce f inc = Inr (inc\<lparr>jo_remaining := r - f\<rparr>)"
    and "0 \<le> sint (r - f)" and "0 \<le> sint (jo_remaining o' - f)" and "jo_remaining o' - f \<noteq> 0 \<Longrightarrow> r - f = 0"
proof -
  have f: "0 < sint f" "sint f \<le> sint r" "sint f \<le> sint (jo_remaining o')" "f = r \<or> f = jo_remaining o'"
    using assms by (auto simp: take_from_def go_signed)
  then show "reduce f o' = Inr (o'\<lparr>jo_remaining := jo_remaining o' - f\<rparr>)"
    and "jo_remaining inc = r \<Longrightarrow> reduce f inc = Inr (inc\<lparr>jo_remaining := r - f\<rparr>)"
    by (auto simp: reduce_def go_signed)
  show "0 \<le> sint (r - f)" "0 \<le> sint (jo_remaining o' - f)" using f sint_take_away [of f] by simp_all
  show "jo_remaining o' - f \<noteq> 0 \<Longrightarrow> r - f = 0" using f(4) by auto
qed

lemma matchQueue_fill:
  assumes "0 <s jo_remaining (jr_incoming st)" and "jo_accountId x \<noteq> jo_accountId (jr_incoming st)"
    and qty: "(if jo_remaining x <s jo_remaining (jr_incoming st) then jo_remaining x else jo_remaining (jr_incoming st)) = f"
    and "reduce f x = Inr (x\<lparr>jo_remaining := q'\<rparr>)" and "reduce f (jr_incoming st) = Inr ((jr_incoming st)\<lparr>jo_remaining := r\<rparr>)"
    and "jo_priceTicks x = p"
  shows "matchQueue symbol clock p held (x # q) st =
    (if q' = 0 then matchQueue symbol clock p held q (swept symbol clock st [(jlot x, f)] r {jo_orderId x})
     else matchQueue symbol clock p held (x\<lparr>jo_remaining := q'\<rparr> # q) (swept symbol clock st [(jlot x, f)] r {}))"
proof -
  have t: "print_trades symbol clock (jr_incoming st) (jr_tradeSeq st) [(jlot x, f)] =
      [makeTrade symbol clock (jr_incoming st) x p f (jr_tradeSeq st + 1)]"
    using assms(6) by (simp add: makeTrade_def Let_def)
  have i: "(jr_index st)(jo_orderId x := None) = (\<lambda>i. if i \<in> {jo_orderId x} then None else jr_index st i)" by auto
  show ?thesis
    by (subst matchQueue.simps)
      (simp add: assms(1,2,4,5) qty Let_def isFilled_def swept_def t i del: print_trades.simps singleton_iff)
qed

lemma matchQueue_sweep:
  assumes "level_fit p q" and "0 \<le> sint (jo_remaining (jr_incoming st))" and "Jcrosses (jr_incoming st) p"
    and "distinct (map jo_orderId q)"
    and "sweep (jtaker (jr_incoming st)) (jo_remaining (jr_incoming st)) (map jlot q) = (fs, r, ys)"
  shows "\<exists>q'. matchQueue symbol clock p held q st = Inr (held @ q', swept symbol clock st fs r (ids q - ids q')) \<and>
    map jlot q' = ys \<and> level_fit p q' \<and> jcore ` set q' \<subseteq> jcore ` set q \<and> distinct (map jo_orderId q') \<and>
    (distinct (map jo_ref q) \<longrightarrow> distinct (map jo_ref q')) \<and> 0 \<le> sint r"
  using assms
proof (induction q arbitrary: held st fs r ys)
  case Nil
  have "fs = []" "r = jo_remaining (jr_incoming st)" "ys = []" using Nil.prems(5) by auto
  then show ?case using Nil.prems(1,2) by (intro exI [of _ "[]"]) (simp add: matchQueue.simps [of symbol clock p held "[]"])
next
  case (Cons x q)
  let ?inc = "jr_incoming st" and ?r = "jo_remaining (jr_incoming st)"
  have fit: "level_fit p q" "0 < sint (jo_remaining x)" "jo_priceTicks x = p" using Cons.prems(1) by (simp_all add: level_fit_def)
  have dist: "distinct (map jo_orderId q)" "jo_orderId x \<notin> ids q" using Cons.prems(4) by auto
  have w: "willing (jtaker ?inc) p" using Cons.prems(3) by (simp add: willing_Jcrosses)
  show ?case
  proof (cases "0 <s ?r")
    case False
    then have "fs = []" "r = ?r" "ys = map jlot (x # q)" using Cons.prems(5) by auto
    then show ?thesis using False Cons.prems(1,2,4)
      by (intro exI [of _ "x # q"]) (simp add: matchQueue.simps)
  next
    case pos: True
    show ?thesis
    proof (cases "jo_accountId x = jo_accountId ?inc")
      case True
      obtain zs where sw: "sweep (jtaker ?inc) ?r (map jlot q) = (fs, r, zs)" and ys: "ys = jlot x # zs"
        using Cons.prems(5) pos True w fit(3) by (auto simp: Let_def split: prod.splits)
      have turn: "matchQueue symbol clock p held (x # q) st = matchQueue symbol clock p (held @ [x]) q st"
        using pos True by (subst matchQueue.simps) simp
      obtain q' where q': "matchQueue symbol clock p (held @ [x]) q st = Inr ((held @ [x]) @ q', swept symbol clock st fs r (ids q - ids q'))"
          "map jlot q' = zs" "level_fit p q'" "jcore ` set q' \<subseteq> jcore ` set q" "distinct (map jo_orderId q')"
          "distinct (map jo_ref q) \<longrightarrow> distinct (map jo_ref q')" "0 \<le> sint r"
        using Cons.IH [OF fit(1) Cons.prems(2,3) dist(1) sw, of "held @ [x]"] by blast
      have sub: "ids q' \<subseteq> ids q" "jo_ref ` set q' \<subseteq> jo_ref ` set q"
        using image_mono [OF q'(4), of jo_orderId] image_mono [OF q'(4), of jo_ref] by (simp_all add: image_image)
      have "ids (x # q) - ids (x # q') = ids q - ids q'" using dist(2) sub by auto
      then show ?thesis
        using q' turn ys dist(2) sub fit by (intro exI [of _ "x # q'"]) (auto simp: level_fit_def)
    next
      case False
      let ?f = "take_from ?r (jlot x)"
      let ?x = "x\<lparr>jo_remaining := jo_remaining x - ?f\<rparr>" and ?inc' = "?inc\<lparr>jo_remaining := ?r - ?f\<rparr>"
      have r: "0 < sint ?r" using pos by (simp add: go_signed)
      note fill = fill_reduces [OF r fit(2)]
      have qty: "(if jo_remaining x <s ?r then jo_remaining x else ?r) = ?f" by (simp add: take_from_def)
      note turn = matchQueue_fill [OF pos False qty fill(1) fill(2) [OF refl] fit(3), of symbol clock held q]
      obtain gs zs where sw: "sweep (jtaker ?inc) (?r - ?f) (map jlot q) = (gs, r, zs)" and fs: "fs = (jlot x, ?f) # gs"
        and ys: "ys = (if jo_remaining x - ?f = 0 then zs else jlot ?x # zs)"
        using Cons.prems(5) pos False w fit(3) by (auto simp: Let_def split: prod.splits)
      show ?thesis
      proof (cases "jo_remaining x - ?f = 0")
        case True
        let ?st = "swept symbol clock st [(jlot x, ?f)] (?r - ?f) {jo_orderId x}"
        have "sweep (jtaker (jr_incoming ?st)) (jo_remaining (jr_incoming ?st)) (map jlot q) = (gs, r, zs)"
          using sw by simp
        from Cons.IH [OF fit(1) _ _ dist(1) this, of held]
        obtain q' where q': "matchQueue symbol clock p held q ?st = Inr (held @ q', swept symbol clock ?st gs r (ids q - ids q'))"
          "map jlot q' = zs" "level_fit p q'" "jcore ` set q' \<subseteq> jcore ` set q" "distinct (map jo_orderId q')"
          "distinct (map jo_ref q) \<longrightarrow> distinct (map jo_ref q')" "0 \<le> sint r"
          using fill(3) Cons.prems(3) by (simp del: singleton_iff) blast
        have "ids q' \<subseteq> ids q" using image_mono [OF q'(4), of jo_orderId] by (simp add: image_image)
        then have "ids (x # q) - ids q' = {jo_orderId x} \<union> (ids q - ids q')" using dist(2) by auto
        then show ?thesis using q' turn fs ys True by (intro exI [of _ q']) (auto simp: swept_more)
      next
        case left: False
        then have zero: "?r - ?f = 0" by (rule fill(5))
        let ?st = "swept symbol clock st [(jlot x, ?f)] (?r - ?f) {}"
        have stop: "matchQueue symbol clock p held (?x # q) ?st = Inr (held @ ?x # q, ?st)"
          using zero by (subst matchQueue.simps) simp
        have "gs = []" "r = 0" "zs = map jlot q" using sw zero by (simp_all add: sweep_stop)
        moreover have "ids (x # q) - ids (?x # q) = {}" by simp
        moreover have "0 < sint (jo_remaining x - ?f)"
          using fill(4) left by (simp add: order.strict_iff_order sint_zero_iff)
        ultimately show ?thesis
          using turn stop fs ys left zero fit Cons.prems(4)
          by (intro exI [of _ "?x # q"]) (auto simp: level_fit_def)
      qed
    qed
  qed
qed


section \<open>The walk over the levels\<close>

definition levels_fit :: "JLevels \<Rightarrow> bool" where
  "levels_fit ls \<longleftrightarrow> (\<forall>(p, q)\<in>set ls. q \<noteq> [] \<and> level_fit p q)"

lemma levels_fit_Cons [simp]: "levels_fit ((p, q) # ls) \<longleftrightarrow> q \<noteq> [] \<and> level_fit p q \<and> levels_fit ls"
  by (simp add: levels_fit_def)

lemma levels_fit_Nil [simp]: "levels_fit []"
  by (simp add: levels_fit_def)

lemma ids_jcore: "jcore ` X \<subseteq> jcore ` Y \<Longrightarrow> jo_orderId ` X \<subseteq> jo_orderId ` Y \<and> jo_ref ` X \<subseteq> jo_ref ` Y"
  using image_mono [of "jcore ` X" "jcore ` Y" jo_orderId] image_mono [of "jcore ` X" "jcore ` Y" jo_ref]
  by (simp add: image_image)

lemma distinct_mapped_append:
  assumes "distinct (map g (xs @ ys))" and "distinct (map g xs')" "distinct (map g ys')"
    and "g ` set xs' \<subseteq> g ` set xs" "g ` set ys' \<subseteq> g ` set ys"
  shows "distinct (map g (xs' @ ys'))"
  using assms by auto

lemma ids_apart:
  "distinct (map jo_orderId (xs @ ys)) \<Longrightarrow> ids xs' \<subseteq> ids xs \<Longrightarrow> ids ys' \<subseteq> ids ys \<Longrightarrow>
   ids (xs @ ys) - ids (xs' @ ys') = (ids xs - ids xs') \<union> (ids ys - ids ys')"
  by auto blast+

lemma matchLevels_sweep:
  assumes "levels_fit ls" and "sorted_wrt (\<lambda>a b. Jcrosses (jr_incoming st) (fst b) \<longrightarrow> Jcrosses (jr_incoming st) (fst a)) ls"
    and "0 \<le> sint (jo_remaining (jr_incoming st))" and "distinct (map jo_orderId (levelOrders ls))"
    and "sweep (jtaker (jr_incoming st)) (jo_remaining (jr_incoming st)) (map jlot (levelOrders ls)) = (fs, r, ys)"
  shows "\<exists>ls'. matchLevels symbol clock ls st = Inr (ls', swept symbol clock st fs r (ids (levelOrders ls) - ids (levelOrders ls'))) \<and>
    map jlot (levelOrders ls') = ys \<and> levels_fit ls' \<and> jcore ` set (levelOrders ls') \<subseteq> jcore ` set (levelOrders ls) \<and>
    distinct (map jo_orderId (levelOrders ls')) \<and>
    (distinct (map jo_ref (levelOrders ls)) \<longrightarrow> distinct (map jo_ref (levelOrders ls'))) \<and> 0 \<le> sint r \<and>
    subseq (map fst ls') (map fst ls)"
  using assms
proof (induction ls arbitrary: st fs r ys)
  case Nil
  then show ?case by auto
next
  case (Cons l ls)
  obtain p q where l: "l = (p, q)" by (cases l)
  let ?inc = "jr_incoming st" and ?r = "jo_remaining (jr_incoming st)"
  have fit: "q \<noteq> []" "level_fit p q" "levels_fit ls" using Cons.prems(1) by (simp_all add: l)
  have dist: "distinct (map jo_orderId q)" "distinct (map jo_orderId (levelOrders ls))" using Cons.prems(4) by (simp_all add: l)
  show ?case
  proof (cases "0 <s ?r \<and> Jcrosses ?inc p")
    case False
    have "lt_price (hd (map jlot (levelOrders (l # ls)))) = p"
      using fit(1,2) by (cases q) (auto simp: l level_fit_def)
    then have "fs = []" "r = ?r" "ys = map jlot (levelOrders (l # ls))"
      using False Cons.prems(5) sweep_stop [of ?r "map jlot (levelOrders (l # ls))" "jtaker ?inc"]
      by (auto simp: willing_Jcrosses)
    then show ?thesis using False Cons.prems(1,3,4) by (intro exI [of _ "l # ls"]) (simp add: l)
  next
    case True
    obtain fs1 r1 ys1 where sw1: "sweep (jtaker ?inc) ?r (map jlot q) = (fs1, r1, ys1)" by (metis prod_cases3)
    obtain q' where q': "matchQueue symbol clock p [] q st = Inr (q', swept symbol clock st fs1 r1 (ids q - ids q'))"
        "map jlot q' = ys1" "level_fit p q'" "jcore ` set q' \<subseteq> jcore ` set q" "distinct (map jo_orderId q')"
        "distinct (map jo_ref q) \<longrightarrow> distinct (map jo_ref q')" "0 \<le> sint r1"
      using matchQueue_sweep [OF fit(2) Cons.prems(3) _ dist(1) sw1, of symbol clock "[]"] True by auto
    let ?st = "swept symbol clock st fs1 r1 (ids q - ids q')"
    obtain fs2 r2 ys2 where sw2: "sweep (jtaker ?inc) r1 (map jlot (levelOrders ls)) = (fs2, r2, ys2)" by (metis prod_cases3)
    have "sweep (jtaker ?inc) ?r (map jlot q @ map jlot (levelOrders ls)) = (fs1 @ fs2, r2, ys1 @ ys2)"
      using fit(2) True by (intro sweep_append [OF sw1 _ sw2]) (auto simp: level_fit_def willing_Jcrosses)
    then have eq: "fs = fs1 @ fs2" "r = r2" "ys = ys1 @ ys2" using Cons.prems(5) by (simp_all add: l)
    have "sorted_wrt (\<lambda>a b. Jcrosses (jr_incoming ?st) (fst b) \<longrightarrow> Jcrosses (jr_incoming ?st) (fst a)) ls"
      and "0 \<le> sint (jo_remaining (jr_incoming ?st))"
      and "sweep (jtaker (jr_incoming ?st)) (jo_remaining (jr_incoming ?st)) (map jlot (levelOrders ls)) = (fs2, r2, ys2)"
      using Cons.prems(2) q'(7) sw2 by simp_all
    from Cons.IH [OF fit(3) this(1,2) dist(2) this(3)]
    obtain ls' where ls': "matchLevels symbol clock ls ?st = Inr (ls', swept symbol clock ?st fs2 r2 (ids (levelOrders ls) - ids (levelOrders ls')))"
        "map jlot (levelOrders ls') = ys2" "levels_fit ls'" "jcore ` set (levelOrders ls') \<subseteq> jcore ` set (levelOrders ls)"
        "distinct (map jo_orderId (levelOrders ls'))"
        "distinct (map jo_ref (levelOrders ls)) \<longrightarrow> distinct (map jo_ref (levelOrders ls'))" "0 \<le> sint r2"
        "subseq (map fst ls') (map fst ls)" by blast
    note sub = ids_jcore [OF q'(4)] ids_jcore [OF ls'(4)]
    let ?ls = "if q' = [] then ls' else (p, q') # ls'"
    have lo: "levelOrders ?ls = q' @ levelOrders ls'" "levels_fit ?ls" "subseq (map fst ?ls) (map fst (l # ls))"
      using q'(3) ls'(3,8) by (auto simp: l)
    have walk: "matchLevels symbol clock (l # ls) st =
        Inr (?ls, swept symbol clock st fs r (ids (levelOrders (l # ls)) - ids (levelOrders ?ls)))"
      using True q'(1) ls'(1) ids_apart [of q "levelOrders ls" q' "levelOrders ls'"] sub Cons.prems(4) eq
      unfolding lo(1) by (simp add: l swept_more)
    have "distinct (map jo_orderId (q' @ levelOrders ls'))"
      by (rule distinct_mapped_append [of _ q "levelOrders ls"]) (use Cons.prems(4) q'(5) ls'(5) sub in \<open>simp_all add: l\<close>)
    moreover have "distinct (map jo_ref (q' @ levelOrders ls'))" if "distinct (map jo_ref (q @ levelOrders ls))"
      by (rule distinct_mapped_append [of _ q "levelOrders ls"]) (use that q'(6) ls'(6) sub in auto)
    ultimately show ?thesis
      using walk lo q' ls' eq by (intro exI [of _ ?ls]) (auto simp: l)
  qed
qed

end
