(* ===== verification/JavaSound.thy ===== *)
theory JavaSound
  imports JavaQueues
begin

text \<open>
  A sound Java book (levels in order and never empty, orders on their own side and price, an index
  that names exactly the resting orders) stays sound, and its operations are those of \<open>PriceTime\<close>:
  \<open>submit\<close> places and does not throw, \<open>cancel\<close> withdraws.
\<close>

section \<open>Putting an order in and taking it out\<close>

lemma enqueue_pass: "\<forall>y\<in>set xs. \<not> ahead b (lt_price x) (lt_price y) \<Longrightarrow> enqueue b x (xs @ ys) = xs @ enqueue b x ys"
  by (induction xs) simp_all

lemma enqueue_front: "ys = [] \<or> ahead b (lt_price x) (lt_price (hd ys)) \<Longrightarrow> enqueue b x ys = x # ys"
  by (cases ys) auto

definition in_order :: "JSide \<Rightarrow> JLevels \<Rightarrow> bool" where
  "in_order side ls \<longleftrightarrow> sorted_wrt (beforeKey side) (map fst ls)"

lemma in_order_Cons [simp]: "in_order side ((p, q) # ls) \<longleftrightarrow> (\<forall>l\<in>set ls. beforeKey side p (fst l)) \<and> in_order side ls"
  by (auto simp: in_order_def)

lemma in_order_Nil [simp]: "in_order side []"
  by (simp add: in_order_def)

lemma beforeKey_order: "\<not> beforeKey side p p" "beforeKey side p k \<Longrightarrow> beforeKey side k l \<Longrightarrow> beforeKey side p l"
  "k \<noteq> p \<Longrightarrow> \<not> beforeKey side p k \<Longrightarrow> beforeKey side k p"
  by (auto simp: beforeKey_def go_signed split: if_splits) (metis linorder_neqE signed_word_eqI)+

lemma ahead_beforeKey: "ahead d p k = beforeKey (jside d) p k"
  by (simp add: ahead_def beforeKey_def jside_def)

lemma in_order_subseq: "in_order side ls \<Longrightarrow> subseq (map fst ls') (map fst ls) \<Longrightarrow> in_order side ls'"
  unfolding in_order_def by (rule sorted_wrt_subseq)

lemma addLast_keys: "fst ` set (addLast side p o' ls) = insert p (fst ` set ls)"
  by (induction side p o' ls rule: addLast.induct) auto

lemma addLast_mset: "mset (levelOrders (addLast side p o' ls)) = add_mset o' (mset (levelOrders ls))"
  by (induction side p o' ls rule: addLast.induct) simp_all

lemma addLast_fit: "levels_fit ls \<Longrightarrow> level_fit p [o'] \<Longrightarrow> levels_fit (addLast side p o' ls)"
  by (induction side p o' ls rule: addLast.induct) (auto simp: level_fit_def)

lemma addLast_in_order: "in_order side ls \<Longrightarrow> in_order side (addLast side p o' ls)"
proof (induction side p o' ls rule: addLast.induct)
  case (2 side p o' k q ls)
  have later: "beforeKey side k (fst l)" if "l \<in> set (addLast side p o' ls)" "beforeKey side k p" for l
  proof -
    have "fst l \<in> insert p (fst ` set ls)" using that(1) addLast_keys [of side p o' ls] by blast
    then show ?thesis using that(2) 2(2) by auto
  qed
  have "beforeKey side p (fst l)" if "l \<in> set ls" "beforeKey side p k" for l
    using that 2(2) beforeKey_order(2) [of side p k "fst l"] by simp
  then show ?case using 2 later beforeKey_order(3) [of k p side] by auto
qed simp

lemma addLast_enqueue:
  assumes "levels_fit ls" and "in_order (jside d) ls" and "jo_priceTicks o' = p"
  shows "map jlot (levelOrders (addLast (jside d) p o' ls)) = enqueue d (jlot o') (map jlot (levelOrders ls))"
  using assms(1,2)
proof (induction ls)
  case (Cons l ls)
  obtain k q where l: "l = (k, q)" by (cases l)
  have fit: "q \<noteq> []" "\<forall>y\<in>set (map jlot q). lt_price y = k" "levels_fit ls" "in_order (jside d) ls"
    using Cons.prems by (auto simp: l level_fit_def)
  have at_front: "enqueue d (jlot o') (map jlot (levelOrders ((k', q') # ms))) = jlot o' # map jlot (levelOrders ((k', q') # ms))"
    if "levels_fit ((k', q') # ms)" "beforeKey (jside d) p k'" for k' q' ms
    using that assms(3) by (intro enqueue_front) (cases q', auto simp: level_fit_def ahead_beforeKey)
  have pass: "enqueue d (jlot o') (map jlot q @ ys) = map jlot q @ enqueue d (jlot o') ys" if "\<not> beforeKey (jside d) p k" for ys
    using that fit(2) assms(3) by (intro enqueue_pass) (auto simp: ahead_beforeKey)
  consider "k = p" | "k \<noteq> p" "beforeKey (jside d) p k" | "k \<noteq> p" "\<not> beforeKey (jside d) p k" by blast
  then show ?case
  proof cases
    case 1
    have "enqueue d (jlot o') (map jlot (levelOrders ls)) = jlot o' # map jlot (levelOrders ls)"
      using Cons.prems(2) fit(3) at_front 1 by (cases ls) (auto simp: l)
    then show ?thesis using 1 pass beforeKey_order(1) by (simp add: l)
  next
    case 2
    then show ?thesis using at_front [of k q ls] Cons.prems(1) by (simp add: l)
  next
    case 3
    then show ?thesis using pass Cons.IH fit by (simp add: l)
  qed
qed simp

lemma removeRef_filter: "distinct (map jo_ref q) \<Longrightarrow> removeRef r q = filter (\<lambda>y. jo_ref y \<noteq> r) q"
proof (induction q)
  case (Cons x q)
  have "filter (\<lambda>y. jo_ref y \<noteq> jo_ref x) q = q" using Cons.prems by (auto simp: filter_id_conv image_iff)
  then show ?case using Cons by auto
qed simp

lemma removeFromLevel_filter:
  assumes "levels_fit ls" and "in_order side ls" and "distinct (map jo_ref (levelOrders ls))"
    and "x \<in> set (levelOrders ls)" and "jo_ref x = r" and "jo_priceTicks x = p"
  shows "levelOrders (removeFromLevel p r ls) = filter (\<lambda>y. jo_ref y \<noteq> r) (levelOrders ls) \<and>
    levels_fit (removeFromLevel p r ls) \<and> subseq (map fst (removeFromLevel p r ls)) (map fst ls)"
  using assms(1-4)
proof (induction ls)
  case (Cons l ls)
  obtain k q where l: "l = (k, q)" by (cases l)
  have pre: "levels_fit ls" "in_order side ls" "distinct (map jo_ref (levelOrders ls))" "level_fit k q" "distinct (map jo_ref q)"
    "jo_ref ` set q \<inter> jo_ref ` set (levelOrders ls) = {}"
    using Cons.prems by (auto simp: l)
  show ?case
  proof (cases "k = p")
    case True
    have "jo_priceTicks y \<noteq> p" if y: "y \<in> set (levelOrders ls)" for y
    proof -
      obtain m where m: "m \<in> set ls" "y \<in> set (snd m)" using y unfolding levelOrders_def set_concat set_map by blast
      then have "jo_priceTicks y = fst m" using pre(1) by (auto simp: levels_fit_def level_fit_def)
      moreover have "beforeKey side p (fst m)" using Cons.prems(2) m(1) True by (simp add: l)
      ultimately show ?thesis using beforeKey_order(1) by metis
    qed
    then have "x \<in> set q" using Cons.prems(4) assms(6) by (auto simp: l)
    then have "filter (\<lambda>y. jo_ref y \<noteq> r) (levelOrders ls) = levelOrders ls"
      using pre(6) assms(5) by (intro filter_True) (metis IntI empty_iff imageI)
    then show ?thesis using True pre removeRef_filter [OF pre(5), of r] by (auto simp: l level_fit_def)
  next
    case False
    then have "x \<notin> set q" using pre(4) assms(6) by (auto simp: level_fit_def)
    then have "x \<in> set (levelOrders ls)" using Cons.prems(4) by (simp add: l)
    moreover from this have "filter (\<lambda>y. jo_ref y \<noteq> r) q = q" using pre(6) assms(5) by (intro filter_True) (metis IntI empty_iff imageI)
    ultimately show ?thesis using Cons.IH [OF pre(1-3)] Cons.prems(1) False by (simp add: l)
  qed
qed simp


section \<open>A sound book\<close>

definition resting :: "JBook \<Rightarrow> JOrder list" where
  "resting b = levelOrders (jb_bids b) @ levelOrders (jb_asks b)"

text \<open>The index names exactly the resting orders, each by its own object.\<close>

definition indexes :: "(string \<rightharpoonup> JOrder) \<Rightarrow> JOrder set \<Rightarrow> bool" where
  "indexes m X \<longleftrightarrow> (\<forall>i c. map_option jcore (m i) = Some c \<longleftrightarrow> c \<in> jcore ` X \<and> jo_orderId c = i)"

definition side_sound :: "string \<Rightarrow> JSide \<Rightarrow> JLevels \<Rightarrow> bool" where
  "side_sound symbol side ls \<longleftrightarrow> levels_fit ls \<and> in_order side ls \<and>
     (\<forall>o'\<in>set (levelOrders ls). jo_side o' = side \<and> jo_symbol o' = symbol)"

definition book_sound :: "JBook \<Rightarrow> bool" where
  "book_sound b \<longleftrightarrow> side_sound (jb_symbol b) BUY (jb_bids b) \<and> side_sound (jb_symbol b) SELL (jb_asks b) \<and>
     distinct (map jo_orderId (resting b)) \<and> distinct (map jo_ref (resting b)) \<and> indexes (jb_index b) (set (resting b))"

lemma newJBook_sound: "book_sound (newJBook symbol)"
  by (simp add: book_sound_def newJBook_def side_sound_def resting_def indexes_def)

lemma levelsOf_setLevels [simp]: "levelsOf d (setLevels d' ls b) = (if d = d' then ls else levelsOf d b)"
  by (cases d; cases d') (simp_all add: levelsOf_def setLevels_def)

lemma levelsOf_update [simp]: "levelsOf d (b\<lparr>jb_index := i\<rparr>) = levelsOf d b" "levelsOf d (b\<lparr>jb_tradeSeq := n\<rparr>) = levelsOf d b"
  by (simp_all add: levelsOf_def split: JSide.split)

lemma setLevels_fields [simp]:
  "jb_symbol (setLevels d ls b) = jb_symbol b" "jb_index (setLevels d ls b) = jb_index b" "jb_tradeSeq (setLevels d ls b) = jb_tradeSeq b"
  by (simp_all add: setLevels_def split: JSide.split)

lemma set_resting: "set (resting b) = set (levelOrders (levelsOf d b)) \<union> set (levelOrders (levelsOf (JSide_opposite d) b))"
  by (cases d) (auto simp: resting_def levelsOf_def JSide_opposite_def)

lemma distinct_resting:
  "distinct (map g (resting b)) \<longleftrightarrow> distinct (map g (levelOrders (levelsOf d b))) \<and> distinct (map g (levelOrders (levelsOf (JSide_opposite d) b))) \<and>
     g ` set (levelOrders (levelsOf d b)) \<inter> g ` set (levelOrders (levelsOf (JSide_opposite d) b)) = {}"
  by (cases d) (auto simp: resting_def levelsOf_def JSide_opposite_def)

lemma distinct_shrunk:
  assumes "distinct (map g (resting b))" and "distinct (map g (levelOrders ls))"
    and "g ` set (levelOrders ls) \<subseteq> g ` set (levelOrders (levelsOf d b))"
    and "levelsOf d b1 = ls" and "levelsOf (JSide_opposite d) b1 = levelsOf (JSide_opposite d) b"
  shows "distinct (map g (resting b1))"
  using assms(1-3) unfolding distinct_resting [of _ b1 d] distinct_resting [of _ b d] assms(4,5) by (metis Int_mono bot.extremum_uniqueI order_refl)

lemma book_sound_sides:
  "book_sound b \<longleftrightarrow> side_sound (jb_symbol b) d (levelsOf d b) \<and>
     side_sound (jb_symbol b) (JSide_opposite d) (levelsOf (JSide_opposite d) b) \<and>
     distinct (map jo_orderId (resting b)) \<and> distinct (map jo_ref (resting b)) \<and> indexes (jb_index b) (set (resting b))"
  by (cases d) (auto simp: book_sound_def levelsOf_def JSide_opposite_def)

lemma JSide_opposite_neq [simp]: "JSide_opposite d \<noteq> d" "d \<noteq> JSide_opposite d" "JSide_opposite (JSide_opposite d) = d"
  by (cases d; simp add: JSide_opposite_def)+

lemma indexes_Some: "indexes m X \<Longrightarrow> m i = Some o' \<Longrightarrow> \<exists>x\<in>X. jo_orderId x = i \<and> jcore x = jcore o'"
proof -
  assume "indexes m X" "m i = Some o'"
  then have "jcore o' \<in> jcore ` X" "jo_orderId (jcore o') = i" unfolding indexes_def by (metis option.simps(9))+
  then obtain x where "x \<in> X" "jcore o' = jcore x" by blast
  moreover from this(2) have "jo_orderId x = jo_orderId o'" by (metis jcore_simps(2))
  ultimately show ?thesis using \<open>jo_orderId (jcore o') = i\<close> by auto
qed

lemma indexes_None: "indexes m X \<Longrightarrow> m i = None \<longleftrightarrow> i \<notin> jo_orderId ` X"
proof
  assume ix: "indexes m X" and "m i = None"
  then have "c \<notin> jcore ` X \<or> jo_orderId c \<noteq> i" for c unfolding indexes_def by (metis option.distinct(1) option.simps(8))
  then show "i \<notin> jo_orderId ` X" by (metis (no_types, lifting) image_iff jcore_simps(2))
next
  assume "indexes m X" "i \<notin> jo_orderId ` X"
  then show "m i = None" using indexes_Some [of m X i] by (cases "m i") auto
qed

lemma indexes_drop:
  assumes "indexes m X" and "\<And>c. c \<in> jcore ` Y \<longleftrightarrow> c \<in> jcore ` X \<and> jo_orderId c \<notin> D"
  shows "indexes (\<lambda>i. if i \<in> D then None else m i) Y"
  using assms unfolding indexes_def by auto

lemma indexes_add:
  assumes "indexes m X" and "jo_orderId o' \<notin> jo_orderId ` X" and "jcore ` Y = insert (jcore o') (jcore ` X)"
  shows "indexes (m(jo_orderId o' \<mapsto> o')) Y"
proof -
  have "jo_orderId c \<noteq> jo_orderId o'" if "c \<in> jcore ` X" for c using that assms(2) by (auto simp: image_iff)
  then show ?thesis using assms(1,3) unfolding indexes_def by auto
qed


section \<open>Submitting is placing\<close>

lemma sweep_left:
  "sweep t r xs = (fs, r', ys) \<Longrightarrow> 0 \<le> sint r \<Longrightarrow> \<forall>x\<in>set xs. 0 < sint (lt_left x) \<Longrightarrow> 0 \<le> sint r' \<and> sint r' \<le> sint r"
proof (induction t r xs arbitrary: fs r' ys rule: sweep.induct)
  case (2 t r x xs)
  let ?f = "take_from r x"
  have f: "0 \<le> sint (r - ?f) \<and> sint (r - ?f) \<le> sint r" if "0 < sint r"
    using that 2(5) sint_take_away [of ?f r] by (auto simp: take_from_def go_signed)
  show ?case
  proof (cases "0 <s r \<and> willing t (lt_price x)")
    case True
    then have turn: "0 <s r \<and> willing t (lt_price x)" "0 < sint r" by (simp_all add: go_signed)
    show ?thesis
    proof (cases "lt_account x = tk_account t")
      case own: True
      then obtain zs where "sweep t r xs = (fs, r', zs)" using 2(3) turn by (auto simp: Let_def split: prod.splits)
      then show ?thesis using 2(1) [OF turn(1) own] 2(4,5) by simp
    next
      case other: False
      then obtain gs zs where "sweep t (r - ?f) xs = (gs, r', zs)" using 2(3) turn by (auto simp: Let_def split: prod.splits)
      then show ?thesis using 2(2) [OF turn(1) other refl] 2(5) f [OF turn(2)] by fastforce
    qed
  qed (use 2 in auto)
qed simp

definition jplaced_status :: "JOrder \<Rightarrow> i64 \<Rightarrow> JOrderStatus" where
  "jplaced_status inc r =
     (if r = 0 then FILLED else if r \<noteq> jo_quantity inc then PARTIALLY_FILLED
      else if jo_type inc = MARKET then REJECTED else ACCEPTED)"

lemma finalize_spec:
  assumes "jo_remaining inc = r" and "0 \<le> sint r" and "sint r \<le> sint (jo_quantity inc)"
  shows "finalize inc trades b =
    (\<lparr>mr_orderId = jo_orderId inc, mr_status = jplaced_status inc r, mr_filledQuantity = jo_quantity inc - r, mr_trades = trades\<rparr>,
     if 0 <s r \<and> jo_type inc = LIMIT then restOrder inc b else b)"
proof -
  have n: "0 <s jo_quantity inc - r \<longleftrightarrow> r \<noteq> jo_quantity inc"
  proof -
    have "sint (jo_quantity inc - r) = sint (jo_quantity inc) - sint r" using assms by (intro sint_take_away) auto
    then show ?thesis using assms(3) by (auto simp: go_signed) (metis linorder_neqE not_less signed_word_eqI)
  qed
  have z: "0 <s r \<longleftrightarrow> r \<noteq> 0" using assms(2) by (auto simp: go_signed sint_zero_iff order.strict_iff_order)
  show ?thesis
    using assms(1) by (cases "jo_type inc") (simp_all add: finalize_def Let_def filled_def isFilled_def n z jplaced_status_def)
qed

lemma crosses_in_order:
  assumes "in_order (JSide_opposite (jo_side inc)) ls"
  shows "sorted_wrt (\<lambda>a b. Jcrosses inc (fst b) \<longrightarrow> Jcrosses inc (fst a)) ls"
proof -
  have "sorted_wrt (\<lambda>a b. beforeKey (JSide_opposite (jo_side inc)) (fst a) (fst b)) ls"
    using assms by (simp add: in_order_def sorted_wrt_map)
  then show ?thesis
    by (rule sorted_wrt_mono_rel [rotated])
      (auto simp: beforeKey_def JSide_opposite_def Jcrosses_def go_signed split: if_splits)
qed

lemma jside_jtaker [simp]: "jside (jo_side o' = BUY) = jo_side o'" "jside (\<not> d) = JSide_opposite (jside d)"
  by (cases "jo_side o'"; cases d; simp add: jside_def JSide_opposite_def)+

text \<open>What the walk leaves of the opposite side is still sound, and the index follows it.\<close>

lemma walked_sound:
  fixes n :: i64
  assumes ok: "book_sound b" and fit: "levels_fit ls" and sub: "subseq (map fst ls) (map fst (levelsOf d b))"
    and core: "jcore ` set (levelOrders ls) \<subseteq> jcore ` set (levelOrders (levelsOf d b))"
    and dist: "distinct (map jo_orderId (levelOrders ls))" "distinct (map jo_ref (levelOrders ls))"
  defines "b1 \<equiv> (setLevels d ls b)\<lparr>jb_index := (\<lambda>i. if i \<in> ids (levelOrders (levelsOf d b)) - ids (levelOrders ls) then None
    else jb_index b i), jb_tradeSeq := n\<rparr>"
  shows "book_sound b1" and "jcore ` set (resting b1) \<subseteq> jcore ` set (resting b)"
proof -
  let ?old = "levelOrders (levelsOf d b)" and ?new = "levelOrders ls" and ?far = "levelOrders (levelsOf (JSide_opposite d) b)"
  note S = ok [unfolded book_sound_sides [of b d]]
  have Sd: "side_sound (jb_symbol b) d (levelsOf d b)" using S by blast
  have far: "levelsOf (JSide_opposite d) b1 = levelsOf (JSide_opposite d) b" and near: "levelsOf d b1 = ls"
    and sym: "jb_symbol b1 = jb_symbol b" by (simp_all add: b1_def)
  have rest: "set (resting b1) = set ?new \<union> set ?far" "set (resting b) = set ?old \<union> set ?far"
    using set_resting [of b1 d] set_resting [of b d] far near by simp_all
  show "jcore ` set (resting b1) \<subseteq> jcore ` set (resting b)" using core rest by auto
  have core_side: "jo_side o' = d \<and> jo_symbol o' = jb_symbol b" if o': "o' \<in> set ?new" for o'
  proof -
    obtain x where x: "x \<in> set ?old" "jcore x = jcore o'" using core o' by (metis imageE imageI subsetD)
    have "jo_side x = jo_side o'" using arg_cong [OF x(2), of jo_side] by simp
    moreover have "jo_symbol x = jo_symbol o'" using arg_cong [OF x(2), of jo_symbol] by simp
    ultimately have "jo_side x = jo_side o'" "jo_symbol x = jo_symbol o'" by simp_all
    then show ?thesis using Sd x(1) unfolding side_sound_def by metis
  qed
  have side: "side_sound (jb_symbol b1) d (levelsOf d b1)"
    using Sd fit core_side in_order_subseq [OF _ sub] by (simp add: side_sound_def near sym)
  note idr = ids_jcore [OF core]
  have ds: "distinct (map jo_orderId (resting b1))" "distinct (map jo_ref (resting b1))"
    by (rule distinct_shrunk [OF _ dist(1) conjunct1 [OF idr] near far]; use S in blast)
      (rule distinct_shrunk [OF _ dist(2) conjunct2 [OF idr] near far]; use S in blast)
  have key: "c \<in> jcore ` set (resting b1) \<longleftrightarrow> c \<in> jcore ` set (resting b) \<and> jo_orderId c \<notin> ids ?old - ids ?new" for c
  proof -
    have apart: "ids ?old \<inter> ids ?far = {}" and old: "distinct (map jo_orderId ?old)"
      using S unfolding distinct_resting [of _ b d] by simp_all
    have "c \<in> jcore ` set ?new" if x: "x \<in> set ?old" "c = jcore x" "jo_orderId c \<in> ids ?new" for x
    proof -
      obtain y where y: "y \<in> set ?new" "jo_orderId y = jo_orderId x" using x by auto
      obtain z where z: "z \<in> set ?old" "jcore z = jcore y" using core y(1) by (metis imageE imageI subsetD)
      have "jo_orderId z = jo_orderId x" using arg_cong [OF z(2), of jo_orderId] y(2) by simp
      then have "z = x" using old z(1) x(1) by (auto simp: distinct_map dest: inj_onD)
      then show ?thesis using x(2) y(1) z(2) by auto
    qed
    then have k: "c \<in> jcore ` set ?old \<Longrightarrow> jo_orderId c \<in> ids ?new \<Longrightarrow> c \<in> jcore ` set ?new" by blast
    have id: "c \<in> jcore ` X \<Longrightarrow> jo_orderId c \<in> jo_orderId ` X" for X by auto
    show ?thesis using core apart k id [of "set ?new"] id [of "set ?far"] id [of "set ?old"]
      unfolding rest image_Un by blast
  qed
  have "indexes (jb_index b1) (set (resting b1))"
    using indexes_drop [of "jb_index b" "set (resting b)" "set (resting b1)", OF _ key] S by (simp add: b1_def)
  then show "book_sound b1" using S side ds far sym book_sound_sides [of b1 d] by simp
qed


lemma rest_sound:
  assumes ok: "book_sound b" and sym: "jo_symbol o' = jb_symbol b" and pos: "0 < sint (jo_remaining o')"
    and fresh: "jo_orderId o' \<notin> ids (resting b)" "jo_ref o' \<notin> jo_ref ` set (resting b)"
  shows "book_sound (restOrder o' b)" and "jcore ` set (resting (restOrder o' b)) = insert (jcore o') (jcore ` set (resting b))"
    and "book_queues (restOrder o' b) = (book_queues b)(jo_side o' = BUY := enqueue (jo_side o' = BUY) (jlot o') (book_queues b (jo_side o' = BUY)))"
proof -
  let ?d = "jo_side o'" and ?b = "restOrder o' b" and ?p = "jo_priceTicks o'"
  let ?ls = "levelsOf ?d b"
  note S = ok [unfolded book_sound_sides [of b ?d]]
  have Sd: "levels_fit ?ls" "in_order ?d ?ls" "\<forall>x\<in>set (levelOrders ?ls). jo_side x = ?d \<and> jo_symbol x = jb_symbol b"
    using S unfolding side_sound_def by blast+
  have near: "levelsOf ?d ?b = addLast ?d ?p o' ?ls" and far: "levelsOf (JSide_opposite ?d) ?b = levelsOf (JSide_opposite ?d) b"
    and sm: "jb_symbol ?b = jb_symbol b" by (simp_all add: restOrder_def)
  have m: "mset (levelOrders (addLast ?d ?p o' ?ls)) = add_mset o' (mset (levelOrders ?ls))" by (rule addLast_mset)
  have s: "set (levelOrders (addLast ?d ?p o' ?ls)) = insert o' (set (levelOrders ?ls))" using arg_cong [OF m, of set_mset] by simp
  have rest: "set (resting ?b) = insert o' (set (resting b))"
    using set_resting [of ?b ?d] set_resting [of b ?d] near far s by simp
  then show "jcore ` set (resting ?b) = insert (jcore o') (jcore ` set (resting b))" by simp
  have side: "side_sound (jb_symbol ?b) ?d (levelsOf ?d ?b)"
    using Sd sym pos addLast_fit [OF Sd(1), of ?p o' ?d] addLast_in_order [OF Sd(2), of ?p o']
    by (simp add: side_sound_def near sm s level_fit_def)
  have dist: "distinct (map g (resting ?b))" if "distinct (map g (resting b))" "g o' \<notin> g ` set (resting b)" for g :: "JOrder \<Rightarrow> 'x"
  proof -
    have "mset (map g (levelOrders (addLast ?d ?p o' ?ls))) = mset (map g (o' # levelOrders ?ls))" by (simp add: m)
    then have "distinct (map g (levelOrders (addLast ?d ?p o' ?ls))) = distinct (map g (o' # levelOrders ?ls))"
      by (rule mset_eq_imp_distinct_iff)
    then show ?thesis
      using that unfolding distinct_resting [of _ ?b ?d] distinct_resting [of _ b ?d] near far set_resting [of b ?d] by (auto simp: s)
  qed
  have "indexes (jb_index ?b) (set (resting ?b))"
    unfolding restOrder_def rest [unfolded restOrder_def] using S fresh(1) by (auto intro!: indexes_add)
  then show "book_sound ?b"
    using S side dist fresh book_sound_sides [of ?b ?d] far sm by metis
  show "book_queues ?b = (book_queues b)(?d = BUY := enqueue (?d = BUY) (jlot o') (book_queues b (?d = BUY)))"
  proof
    fix c
    have "jside c \<noteq> ?d \<longleftrightarrow> c \<noteq> (?d = BUY)" by (cases ?d; cases c; simp add: jside_def)
    then show "book_queues ?b c = ((book_queues b)(?d = BUY := enqueue (?d = BUY) (jlot o') (book_queues b (?d = BUY)))) c"
      using addLast_enqueue [of ?ls "?d = BUY" o', OF Sd(1) _ refl] Sd(2) by (auto simp: book_queues_def restOrder_def)
  qed
qed

theorem Jsubmit_places:
  assumes ok: "book_sound b" and sym: "jo_symbol inc = jb_symbol b"
    and new: "jo_remaining inc = jo_quantity inc" "0 < sint (jo_quantity inc)"
    and fresh: "jo_orderId inc \<notin> ids (resting b)" "jo_ref inc \<notin> jo_ref ` set (resting b)"
    and pl: "place (jtaker inc) (jo_orderId inc) (jo_quantity inc) (book_queues b) = (fs, r, L)"
  shows "\<exists>b'. Jsubmit clock b inc = Inr (\<lparr>mr_orderId = jo_orderId inc, mr_status = jplaced_status inc r,
      mr_filledQuantity = jo_quantity inc - r, mr_trades = print_trades (jb_symbol b) clock inc (jb_tradeSeq b) fs\<rparr>, b') \<and>
    book_sound b' \<and> book_queues b' = L \<and> jb_symbol b' = jb_symbol b \<and> jb_tradeSeq b' = jb_tradeSeq b + of_nat (length fs) \<and>
    jcore ` set (resting b') \<subseteq> insert (jcore inc) (jcore ` set (resting b))"
proof -
  let ?opp = "JSide_opposite (jo_side inc)" and ?d = "jo_side inc = BUY"
  let ?st = "\<lparr>jr_incoming = inc, jr_index = jb_index b, jr_trades = [], jr_tradeSeq = jb_tradeSeq b\<rparr>"
  note S = ok [unfolded book_sound_sides [of b ?opp]]
  have So: "levels_fit (levelsOf ?opp b)" "in_order ?opp (levelsOf ?opp b)" using S unfolding side_sound_def by blast+
  have do: "distinct (map jo_orderId (levelOrders (levelsOf ?opp b)))" "distinct (map jo_ref (levelOrders (levelsOf ?opp b)))"
    using S unfolding distinct_resting [of _ b ?opp] by blast+
  obtain ys where sw: "sweep (jtaker inc) (jo_quantity inc) (book_queues b (\<not> ?d)) = (fs, r, ys)"
    and L: "L = (if 0 <s r \<and> jo_type inc \<noteq> MARKET
      then (book_queues b)(\<not> ?d := ys, ?d := enqueue ?d ((jlot inc)\<lparr>lt_left := r\<rparr>) (book_queues b ?d))
      else (book_queues b)(\<not> ?d := ys))"
    using pl by (auto simp: place_def jlot_def Let_def split: prod.splits if_splits)
  then have "sweep (jtaker (jr_incoming ?st)) (jo_remaining (jr_incoming ?st)) (map jlot (levelOrders (levelsOf ?opp b))) = (fs, r, ys)"
    using new(1) by (simp add: book_queues_def)
  from matchLevels_sweep [OF So(1) _ _ do(1) this, of "jb_symbol b" clock]
  obtain ls where w: "matchLevels (jb_symbol b) clock (levelsOf ?opp b) ?st =
        Inr (ls, swept (jb_symbol b) clock ?st fs r (ids (levelOrders (levelsOf ?opp b)) - ids (levelOrders ls)))"
      "map jlot (levelOrders ls) = ys" "levels_fit ls"
      "jcore ` set (levelOrders ls) \<subseteq> jcore ` set (levelOrders (levelsOf ?opp b))" "distinct (map jo_orderId (levelOrders ls))"
      "distinct (map jo_ref (levelOrders ls))" "0 \<le> sint r" "subseq (map fst ls) (map fst (levelsOf ?opp b))"
    using crosses_in_order [OF So(2)] new do(2) by auto
  define b1 where "b1 = (setLevels ?opp ls b)\<lparr>jb_index := (\<lambda>i. if i \<in> ids (levelOrders (levelsOf ?opp b)) - ids (levelOrders ls) then None
      else jb_index b i), jb_tradeSeq := jb_tradeSeq b + of_nat (length fs)\<rparr>"
  have b1: "book_sound b1" "jcore ` set (resting b1) \<subseteq> jcore ` set (resting b)"
    unfolding b1_def by (rule walked_sound [OF ok w(3,8,4,5,6)])+
  have q1: "book_queues b1 = (book_queues b)(\<not> ?d := ys)"
  proof
    fix c
    have "jside c = ?opp \<longleftrightarrow> c = (\<not> ?d)" by (cases "jo_side inc"; cases c; simp add: jside_def JSide_opposite_def)
    then show "book_queues b1 c = ((book_queues b)(\<not> ?d := ys)) c"
      using w(2) by (auto simp: book_queues_def b1_def)
  qed
  let ?inc = "inc\<lparr>jo_remaining := r\<rparr>"
  have "sint r \<le> sint (jo_quantity inc)"
    using sweep_left [OF sw] new So(1) by (force simp: book_queues_def levels_fit_def level_fit_def levelOrders_def)
  then have fin: "finalize ?inc trades b1 = (\<lparr>mr_orderId = jo_orderId inc, mr_status = jplaced_status inc r,
      mr_filledQuantity = jo_quantity inc - r, mr_trades = trades\<rparr>, if 0 <s r \<and> jo_type inc = LIMIT then restOrder ?inc b1 else b1)" for trades
    using finalize_spec [of ?inc r trades b1] w(7) by (simp add: jplaced_status_def)
  define st where "st = swept (jb_symbol b) clock ?st fs r (ids (levelOrders (levelsOf ?opp b)) - ids (levelOrders ls))"
  have st: "jr_incoming st = ?inc" "jr_trades st = print_trades (jb_symbol b) clock inc (jb_tradeSeq b) fs"
      "b1 = (setLevels ?opp ls b)\<lparr>jb_index := jr_index st, jb_tradeSeq := jr_tradeSeq st\<rparr>"
    by (simp_all add: st_def b1_def swept_def cong: if_cong)
  have sub: "Jsubmit clock b inc = Inr (\<lparr>mr_orderId = jo_orderId inc, mr_status = jplaced_status inc r,
      mr_filledQuantity = jo_quantity inc - r, mr_trades = print_trades (jb_symbol b) clock inc (jb_tradeSeq b) fs\<rparr>,
      if 0 <s r \<and> jo_type inc = LIMIT then restOrder ?inc b1 else b1)"
    using sym w(1) [folded st_def] fin by (simp add: Jsubmit_def st Let_def)
  have meta: "jb_symbol b1 = jb_symbol b" "jb_tradeSeq b1 = jb_tradeSeq b + of_nat (length fs)" by (simp_all add: b1_def)
  show ?thesis
  proof (cases "0 <s r \<and> jo_type inc = LIMIT")
    case True
    have fresh1: "jo_orderId ?inc \<notin> ids (resting b1)" "jo_ref ?inc \<notin> jo_ref ` set (resting b1)"
      using ids_jcore [OF b1(2)] fresh by auto
    have "jo_symbol ?inc = jb_symbol b1" "0 < sint (jo_remaining ?inc)" using sym meta True by (simp_all add: go_signed)
    note R = rest_sound [OF b1(1) this fresh1]
    have "book_queues (restOrder ?inc b1) = L" using R(3) q1 L True by simp
    moreover have "jb_symbol (restOrder ?inc b1) = jb_symbol b" "jb_tradeSeq (restOrder ?inc b1) = jb_tradeSeq b + of_nat (length fs)"
      using meta by (simp_all add: restOrder_def)
    ultimately show ?thesis using sub True R(1,2) b1(2) by auto
  next
    case False
    then have "book_queues b1 = L" using q1 L by (cases "jo_type inc") auto
    then show ?thesis using sub False b1 meta by auto
  qed
qed


section \<open>Cancelling is withdrawing\<close>

lemma one_id:
  assumes "distinct (map jo_orderId (resting b))" and "distinct (map jo_ref (resting b))" and "x \<in> set (resting b)" "y \<in> set (resting b)"
  shows "jo_orderId y = jo_orderId x \<longleftrightarrow> y = x" and "jo_ref y = jo_ref x \<longleftrightarrow> y = x"
  using assms by (auto simp: distinct_map dest: inj_onD)

lemma book_queues_tags: "x \<in> set (resting b) \<longleftrightarrow> (\<exists>d. x \<in> set (levelOrders (levelsOf (jside d) b)))"
  by (auto simp: resting_def levelsOf_def jside_def ex_bool_eq)

lemma tags_resting: "(\<exists>d. i \<in> lt_tag ` set (book_queues b d)) \<longleftrightarrow> i \<in> ids (resting b)"
proof -
  have "lt_tag ` set (book_queues b d) = ids (levelOrders (levelsOf (jside d) b))" for d by (simp add: book_queues_def image_image)
  moreover have "set (resting b) = (\<Union>d. set (levelOrders (levelsOf (jside d) b)))" using book_queues_tags [of _ b] by auto
  ultimately show ?thesis by (simp only: image_UN) simp
qed

theorem Jcancel_withdraws:
  assumes ok: "book_sound b" and c: "Jcancel i b = (found, b')"
  shows "found \<longleftrightarrow> i \<in> ids (resting b)" and "book_sound b'" and "book_queues b' = withdraw i (book_queues b)"
    and "jb_symbol b' = jb_symbol b" and "jb_tradeSeq b' = jb_tradeSeq b" and "set (resting b') \<subseteq> set (resting b)"
proof -
  have ix: "indexes (jb_index b) (set (resting b))" and dist: "distinct (map jo_orderId (resting b))" "distinct (map jo_ref (resting b))"
    using ok unfolding book_sound_def by blast+
  show found: "found \<longleftrightarrow> i \<in> ids (resting b)"
    using c indexes_None [OF ix, of i] by (auto simp: Jcancel_def split: option.splits)
  have "book_sound b' \<and> book_queues b' = withdraw i (book_queues b) \<and> jb_symbol b' = jb_symbol b \<and>
    jb_tradeSeq b' = jb_tradeSeq b \<and> set (resting b') \<subseteq> set (resting b)"
  proof (cases "jb_index b i")
    case None
    then have b': "b' = b" and "i \<notin> ids (resting b)" using c indexes_None [OF ix, of i] by (auto simp: Jcancel_def)
    then have "lt_tag x \<noteq> i" if "x \<in> set (book_queues b d)" for x d using that tags_resting [of i b] by blast
    then have "withdraw i (book_queues b) = book_queues b" unfolding withdraw_def by (intro ext filter_True) blast
    then show ?thesis using ok b' by simp
  next
    case (Some o')
    obtain x where x: "x \<in> set (resting b)" "jo_orderId x = i" "jcore x = jcore o'" using indexes_Some [OF ix Some] by blast
    have same: "jo_ref o' = jo_ref x" "jo_side o' = jo_side x" "jo_priceTicks o' = jo_priceTicks x"
      using arg_cong [OF x(3), of jo_ref] arg_cong [OF x(3), of jo_side] arg_cong [OF x(3), of jo_priceTicks] by simp_all
    let ?d = "jo_side x" and ?r = "jo_ref x"
    let ?ls = "levelsOf ?d b" and ?ls' = "removeFromLevel (jo_priceTicks x) ?r (levelsOf ?d b)"
    note S = ok [unfolded book_sound_sides [of b ?d]]
    have Sd: "levels_fit ?ls" "in_order ?d ?ls" "\<forall>y\<in>set (levelOrders ?ls). jo_side y = ?d \<and> jo_symbol y = jb_symbol b"
      using S unfolding side_sound_def by blast+
    have "x \<notin> set (levelOrders (levelsOf (JSide_opposite ?d) b))" using S unfolding side_sound_def by (metis JSide_opposite_neq(2))
    then have here: "x \<in> set (levelOrders ?ls)" using x(1) set_resting [of b ?d] by blast
    have far_out: "y \<noteq> x" if "y \<in> set (levelOrders (levelsOf (JSide_opposite ?d) b))" for y
      using that \<open>x \<notin> set (levelOrders (levelsOf (JSide_opposite ?d) b))\<close> by blast
    have refs: "distinct (map jo_ref (levelOrders ?ls))" using dist(2) unfolding distinct_resting [of _ b ?d] by blast
    note R = removeFromLevel_filter [OF Sd(1,2) refs here refl refl]
    have b': "b' = (setLevels ?d ?ls' b)\<lparr>jb_index := (jb_index b)(i := None)\<rparr>" using c Some same by (simp add: Jcancel_def)
    have near: "levelsOf ?d b' = ?ls'" and far: "levelsOf (JSide_opposite ?d) b' = levelsOf (JSide_opposite ?d) b"
      and meta: "jb_symbol b' = jb_symbol b" "jb_tradeSeq b' = jb_tradeSeq b" by (simp_all add: b')
    have rest: "set (resting b') = set (resting b) - {x}"
      using set_resting [of b' ?d] set_resting [of b ?d] R near far far_out one_id(2) [OF dist x(1)] by auto
    have side: "side_sound (jb_symbol b') ?d (levelsOf ?d b')"
      using Sd R in_order_subseq [OF Sd(2)] by (auto simp: side_sound_def near meta)
    have ds: "distinct (map g (resting b'))" if g: "distinct (map g (resting b))" for g :: "JOrder \<Rightarrow> 'x"
    proof -
      have "distinct (map g (levelOrders ?ls))" using g unfolding distinct_resting [of _ b ?d] by blast
      then have "distinct (map g (levelOrders ?ls'))" using R by (simp add: distinct_map_filter)
      then show ?thesis by (rule distinct_shrunk [OF g _ _ near far]) (use R in auto)
    qed
    have ix': "jb_index b' = (\<lambda>j. if j \<in> {i} then None else jb_index b j)" by (auto simp: b')
    have core_inj: "jcore y = jcore x \<longleftrightarrow> y = x" "jo_orderId (jcore y) = i \<longleftrightarrow> y = x" if "y \<in> set (resting b)" for y
      using one_id(1) [OF dist x(1) that] x(2) by (metis jcore_simps(2), simp)
    have "c \<in> jcore ` set (resting b') \<longleftrightarrow> c \<in> jcore ` set (resting b) \<and> jo_orderId c \<notin> {i}" for c
    proof -
      have "jcore y \<in> jcore ` (set (resting b) - {x}) \<longleftrightarrow> jo_orderId (jcore y) \<noteq> i" if y: "y \<in> set (resting b)" for y
      proof (cases "y = x")
        case True
        then show ?thesis using x(2) by (auto dest!: core_inj(1) [THEN iffD1, rotated, OF sym])
      next
        case False
        then show ?thesis using y core_inj(2) [OF y] by blast
      qed
      note kept = this
      show ?thesis
      proof (cases "c \<in> jcore ` set (resting b)")
        case True
        then obtain y where "y \<in> set (resting b)" "c = jcore y" by blast
        then show ?thesis using kept [of y] unfolding rest by simp
      next
        case False
        then show ?thesis unfolding rest by blast
      qed
    qed
    then have "indexes (jb_index b') (set (resting b'))" unfolding ix' by (rule indexes_drop [OF ix])
    moreover have "side_sound (jb_symbol b') (JSide_opposite ?d) (levelsOf (JSide_opposite ?d) b')"
      unfolding far meta using S by blast
    ultimately have "book_sound b'" unfolding book_sound_sides [of b' ?d] using side ds [OF dist(1)] ds [OF dist(2)] by (intro conjI)
    moreover have "book_queues b' = withdraw i (book_queues b)"
    proof
      fix e
      have keep: "filter (\<lambda>y. jo_orderId y \<noteq> i) (levelOrders (levelsOf (JSide_opposite ?d) b)) = levelOrders (levelsOf (JSide_opposite ?d) b)"
      proof (rule filter_True, rule ballI)
        fix y
        assume y: "y \<in> set (levelOrders (levelsOf (JSide_opposite ?d) b))"
        then have "y \<in> set (resting b)" using set_resting [of b ?d] by simp
        then show "jo_orderId y \<noteq> i" using core_inj(2) far_out [OF y] by simp
      qed
      have drop: "filter (\<lambda>y. jo_ref y \<noteq> ?r) (levelOrders ?ls) = filter (\<lambda>y. jo_orderId y \<noteq> i) (levelOrders ?ls)"
      proof (rule filter_cong [OF refl])
        fix y
        assume "y \<in> set (levelOrders ?ls)"
        then have "y \<in> set (resting b)" using set_resting [of b ?d] by simp
        then show "jo_ref y \<noteq> ?r \<longleftrightarrow> jo_orderId y \<noteq> i" using one_id [OF dist x(1)] x(2) by simp
      qed
      have "jside e = ?d \<or> jside e = JSide_opposite ?d" by (cases ?d; cases e; simp add: jside_def JSide_opposite_def)
      then show "book_queues b' e = withdraw i (book_queues b) e"
        using near far R keep drop by (auto simp: book_queues_def withdraw_def filter_map comp_def)
    qed
    ultimately show ?thesis using meta rest by blast
  qed
  then show "book_sound b'" and "book_queues b' = withdraw i (book_queues b)"
    and "jb_symbol b' = jb_symbol b" and "jb_tradeSeq b' = jb_tradeSeq b" and "set (resting b') \<subseteq> set (resting b)" by blast+
qed

end
