(* ===== verification/JavaEngine.thy ===== *)
theory JavaEngine
  imports JavaSound Proto
begin

text \<open>
  The Java engine around its books: \<open>MatchingEngine.java\<close> (a book per symbol, made on first use),
  the durable ledger (\<open>DoubleEntry.java\<close>, \<open>JdbcTradeLedger.java\<close>, the tables of
  \<open>V1__ledger.sql\<close>), the trade topic (\<open>KafkaTradePublisher.java\<close>) and the gRPC front door
  \<open>MatchingEngineService.java\<close>. Calls are served one after the other. What the outside decides is a
  \<open>JWorld\<close>: the clock of each trade, whether the database commits it, whether the broker takes it.
\<close>

section \<open>MatchingEngine\<close>

text \<open>\<open>je_objects\<close> counts the orders constructed so far: the identity of the next one.\<close>

record JEngine =
  je_actors :: "string \<rightharpoonup> JBook"
  je_sequence :: i64
  je_objects :: nat

definition newJEngine :: JEngine where
  "newJEngine = \<lparr>je_actors = Map.empty, je_sequence = 0, je_objects = 0\<rparr>"

definition actorFor :: "string \<Rightarrow> JEngine \<Rightarrow> JBook \<times> JEngine" where
  "actorFor symbol e =
     (case je_actors e symbol of
        Some b \<Rightarrow> (b, e)
      | None \<Rightarrow> (newJBook symbol, e\<lparr>je_actors := (je_actors e)(symbol \<mapsto> newJBook symbol)\<rparr>))"

definition nextSequence :: "JEngine \<Rightarrow> i64 \<times> JEngine" where
  "nextSequence e = (je_sequence e + 1, e\<lparr>je_sequence := je_sequence e + 1\<rparr>)"

definition engineSubmit :: "(i64 \<Rightarrow> i64) \<Rightarrow> JOrder \<Rightarrow> JEngine \<Rightarrow> (error + MatchResult) \<times> JEngine" where
  "engineSubmit clock o' e =
     (let (b, e1) = actorFor (jo_symbol o') e
      in (case Jsubmit clock b o' of
            Inl x \<Rightarrow> (Inl x, e1)
          | Inr (result, b') \<Rightarrow> (Inr result, e1\<lparr>je_actors := (je_actors e1)(jo_symbol o' \<mapsto> b')\<rparr>)))"

definition engineCancel :: "string \<Rightarrow> string \<Rightarrow> JEngine \<Rightarrow> bool \<times> JEngine" where
  "engineCancel symbol orderId e =
     (let (b, e1) = actorFor symbol e; (found, b') = Jcancel orderId b
      in (found, e1\<lparr>je_actors := (je_actors e1)(symbol \<mapsto> b')\<rparr>))"

section \<open>The ledger\<close>

record LedgerEntry =
  ent_accountId :: string
  ent_asset :: string
  ent_delta :: i64

text \<open>\<open>Math.multiplyExact\<close>.\<close>

definition multiplyExact :: "i64 \<Rightarrow> i64 \<Rightarrow> error + i64" where
  "multiplyExact a b = (if sint (a * b) = sint a * sint b then Inr (a * b) else Inl ''long overflow'')"

definition entriesFor :: "JTrade \<Rightarrow> error + LedgerEntry list" where
  "entriesFor t =
     (case multiplyExact (jt_priceTicks t) (jt_quantity t) of
        Inl x \<Rightarrow> Inl x
      | Inr cash \<Rightarrow> Inr
          [\<lparr>ent_accountId = jt_buyAccountId t, ent_asset = ''CASH'', ent_delta = - cash\<rparr>,
           \<lparr>ent_accountId = jt_buyAccountId t, ent_asset = jt_symbol t, ent_delta = jt_quantity t\<rparr>,
           \<lparr>ent_accountId = jt_sellAccountId t, ent_asset = ''CASH'', ent_delta = cash\<rparr>,
           \<lparr>ent_accountId = jt_sellAccountId t, ent_asset = jt_symbol t, ent_delta = - jt_quantity t\<rparr>])"

text \<open>The tables: \<open>trades\<close>, whose primary key is the trade id, and \<open>ledger_entries\<close>.\<close>

record TradeRow =
  row_trade_id :: string
  row_symbol :: string
  row_price_ticks :: i64
  row_quantity :: i64
  row_buy_order_id :: string
  row_sell_order_id :: string
  row_ts_millis :: i64

record JDatabase =
  db_trades :: "TradeRow list"
  db_ledger_entries :: "(string \<times> LedgerEntry) list"

definition emptyDatabase :: JDatabase where
  "emptyDatabase = \<lparr>db_trades = [], db_ledger_entries = []\<rparr>"

definition recorded_ids :: "JDatabase \<Rightarrow> string set" where
  "recorded_ids db = row_trade_id ` set (db_trades db)"

definition rowFor :: "JTrade \<Rightarrow> TradeRow" where
  "rowFor t = \<lparr>row_trade_id = jt_tradeId t, row_symbol = jt_symbol t, row_price_ticks = jt_priceTicks t,
     row_quantity = jt_quantity t, row_buy_order_id = jt_buyOrderId t, row_sell_order_id = jt_sellOrderId t,
     row_ts_millis = jt_tsMillis t\<rparr>"

text \<open>
  \<open>record\<close> inside its transaction. The table checks that a quantity is positive; a trade id that is
  there already is left alone without an error.
\<close>

definition insertTrade :: "JTrade \<Rightarrow> JDatabase \<Rightarrow> error + JDatabase" where
  "insertTrade t db =
     (if \<not> 0 <s jt_quantity t then Inl ''check constraint violated''
      else if jt_tradeId t \<in> recorded_ids db then Inr db
      else (case entriesFor t of
              Inl x \<Rightarrow> Inl x
            | Inr entries \<Rightarrow> Inr (db\<lparr>db_trades := db_trades db @ [rowFor t],
                db_ledger_entries := db_ledger_entries db @ map (\<lambda>e. (jt_tradeId t, e)) entries\<rparr>)))"

text \<open>
  The transaction around it: it commits, or it fails at any point and the tables are as before, or it
  commits and the connection is lost before the caller hears of it.
\<close>

datatype JCommit = Commits | RollsBack | CommitsUnheard

definition recordTrade :: "(JTrade \<Rightarrow> JCommit) \<Rightarrow> JTrade \<Rightarrow> JDatabase \<Rightarrow> error option \<times> JDatabase" where
  "recordTrade commits t db =
     (case insertTrade t db of
        Inl x \<Rightarrow> (Some x, db)
      | Inr db' \<Rightarrow>
          (case commits t of
             Commits \<Rightarrow> (None, db')
           | RollsBack \<Rightarrow> (Some ''database unavailable'', db)
           | CommitsUnheard \<Rightarrow> (Some ''connection lost'', db')))"

text \<open>The loop of \<open>submitOrder\<close>: the first failure ends it, what was recorded before stays.\<close>

fun recordAll :: "(JTrade \<Rightarrow> JCommit) \<Rightarrow> JTrade list \<Rightarrow> JDatabase \<Rightarrow> error option \<times> JDatabase" where
  "recordAll commits [] db = (None, db)"
| "recordAll commits (t # ts) db =
     (case recordTrade commits t db of
        (Some x, db') \<Rightarrow> (Some x, db')
      | (None, db') \<Rightarrow> recordAll commits ts db')"

section \<open>The trade topic\<close>

definition toProto :: "JTrade \<Rightarrow> PbTrade" where
  "toProto t = \<lparr>ptr_TradeId = jt_tradeId t, ptr_Symbol = jt_symbol t, ptr_PriceTicks = jt_priceTicks t,
     ptr_Quantity = jt_quantity t, ptr_BuyOrderId = jt_buyOrderId t, ptr_SellOrderId = jt_sellOrderId t,
     ptr_TsMillis = jt_tsMillis t, ptr_BuyAccountId = jt_buyAccountId t, ptr_SellAccountId = jt_sellAccountId t\<rparr>"

text \<open>
  \<open>publish\<close>: a record keyed by symbol; or the future of \<open>send\<close> fails, which is logged; or \<open>send\<close>
  itself throws (no metadata in time, the producer is closed), which nothing in \<open>publish\<close> catches.
\<close>

datatype JSend = Sent | SendFails | SendThrows

definition publish :: "(JTrade \<Rightarrow> JSend) \<Rightarrow> JTrade \<Rightarrow> (string \<times> PbTrade) list \<Rightarrow> error + (string \<times> PbTrade) list" where
  "publish delivers t topic =
     (case delivers t of
        Sent \<Rightarrow> Inr (topic @ [(jt_symbol t, toProto t)])
      | SendFails \<Rightarrow> Inr topic
      | SendThrows \<Rightarrow> Inl ''send failed'')"

text \<open>The second loop of \<open>submitOrder\<close>: a send that throws ends it.\<close>

fun publishAll :: "(JTrade \<Rightarrow> JSend) \<Rightarrow> JTrade list \<Rightarrow> (string \<times> PbTrade) list \<Rightarrow> error option \<times> (string \<times> PbTrade) list" where
  "publishAll delivers [] topic = (None, topic)"
| "publishAll delivers (t # ts) topic =
     (case publish delivers t topic of
        Inl x \<Rightarrow> (Some x, topic)
      | Inr topic' \<Rightarrow> publishAll delivers ts topic')"

section \<open>MatchingEngineService\<close>

datatype JCode = INVALID_ARGUMENT | INTERNAL

record JWorld =
  jw_clock :: "i64 \<Rightarrow> i64"
  jw_commits :: "JTrade \<Rightarrow> JCommit"
  jw_delivers :: "JTrade \<Rightarrow> JSend"

record JService =
  sv_engine :: JEngine
  sv_db :: JDatabase
  sv_topic :: "(string \<times> PbTrade) list"
  sv_defaultDepth :: i32

definition toDomainSide :: "PbSide \<Rightarrow> JSide" where
  "toDomainSide s = (if s = Side_SELL then SELL else BUY)"

definition toDomainType :: "PbOrderType \<Rightarrow> JOrderType" where
  "toDomainType t = (if t = OrderType_MARKET then MARKET else LIMIT)"

definition toProtoStatus :: "JOrderStatus \<Rightarrow> PbOrderStatus" where
  "toProtoStatus status =
     (case status of
        ACCEPTED \<Rightarrow> OrderStatus_ACCEPTED
      | PARTIALLY_FILLED \<Rightarrow> OrderStatus_PARTIALLY_FILLED
      | FILLED \<Rightarrow> OrderStatus_FILLED
      | CANCELLED \<Rightarrow> OrderStatus_CANCELLED
      | REJECTED \<Rightarrow> OrderStatus_REJECTED)"

definition jorder_id :: "i64 \<Rightarrow> string" where
  "jorder_id n = ''o'' @ fmt_d n"

definition submitOrder :: "JWorld \<Rightarrow> PbNewOrder \<Rightarrow> JService \<Rightarrow> ((JCode \<times> string) + PbOrderAck) \<times> JService" where
  "submitOrder w req sv =
     (let (n, e) = nextSequence (sv_engine sv)
      in (case newJOrder (je_objects e) (jorder_id n) (pno_ClientOrderId req) (pno_AccountId req) (pno_Symbol req)
             (toDomainSide (pno_Side req)) (toDomainType (pno_Type req)) (pno_PriceTicks req) (pno_Quantity req) n of
            Inl msg \<Rightarrow> (Inl (INVALID_ARGUMENT, msg), sv\<lparr>sv_engine := e\<rparr>)
          | Inr o' \<Rightarrow>
              (case engineSubmit (jw_clock w) o' (e\<lparr>je_objects := je_objects e + 1\<rparr>) of
                 (Inl x, e') \<Rightarrow> (Inl (INTERNAL, ''engine error''), sv\<lparr>sv_engine := e'\<rparr>)
               | (Inr result, e') \<Rightarrow>
                   (case recordAll (jw_commits w) (mr_trades result) (sv_db sv) of
                      (Some x, db) \<Rightarrow> (Inl (INTERNAL, ''engine error''), sv\<lparr>sv_engine := e', sv_db := db\<rparr>)
                    | (None, db) \<Rightarrow>
                        (case publishAll (jw_delivers w) (mr_trades result) (sv_topic sv) of
                           (Some x, topic) \<Rightarrow>
                             (Inl (INTERNAL, ''engine error''), sv\<lparr>sv_engine := e', sv_db := db, sv_topic := topic\<rparr>)
                         | (None, topic) \<Rightarrow>
                             (Inr \<lparr>pack_OrderId = mr_orderId result, pack_Status = toProtoStatus (mr_status result),
                                pack_FilledQuantity = mr_filledQuantity result, pack_Reason = []\<rparr>,
                              sv\<lparr>sv_engine := e', sv_db := db, sv_topic := topic\<rparr>))))))"

text \<open>The account of the request is not looked at.\<close>

definition cancelOrder :: "PbCancelOrderRequest \<Rightarrow> JService \<Rightarrow> ((JCode \<times> string) + PbOrderAck) \<times> JService" where
  "cancelOrder req sv =
     (let (removed, e) = engineCancel (pco_Symbol req) (pco_OrderId req) (sv_engine sv)
      in (Inr (if removed then \<lparr>pack_OrderId = pco_OrderId req, pack_Status = OrderStatus_CANCELLED, pack_FilledQuantity = 0, pack_Reason = []\<rparr>
               else \<lparr>pack_OrderId = pco_OrderId req, pack_Status = OrderStatus_REJECTED, pack_FilledQuantity = 0,
                 pack_Reason = ''order not found or already filled''\<rparr>),
          sv\<lparr>sv_engine := e\<rparr>))"

definition Jlevel :: "i64 \<times> i64 \<Rightarrow> PbPriceLevel option" where
  "Jlevel l = Some \<lparr>ppl_PriceTicks = fst l, ppl_Quantity = snd l\<rparr>"

definition getBook :: "i64 \<Rightarrow> PbBookRequest \<Rightarrow> JService \<Rightarrow> ((JCode \<times> string) + PbBookSnapshot) \<times> JService" where
  "getBook now req sv =
     (let depth = (if 0 <s pbr_Depth req then pbr_Depth req else sv_defaultDepth sv);
          (b, e) = actorFor (pbr_Symbol req) (sv_engine sv)
      in (Inr \<lparr>pbs_Symbol = pbr_Symbol req, pbs_Bids = map Jlevel (Jlevels (jb_bids b) 0 depth),
             pbs_Asks = map Jlevel (Jlevels (jb_asks b) 0 depth), pbs_TsMillis = now\<rparr>,
          sv\<lparr>sv_engine := e\<rparr>))"

text \<open>A new process over the same database and topic: the books and all counters start again.\<close>

definition newService :: "i32 \<Rightarrow> JDatabase \<Rightarrow> (string \<times> PbTrade) list \<Rightarrow> JService" where
  "newService defaultDepth db topic =
     \<lparr>sv_engine = newJEngine, sv_db = db, sv_topic = topic, sv_defaultDepth = defaultDepth\<rparr>"

definition restart :: "JService \<Rightarrow> JService" where
  "restart sv = newService (sv_defaultDepth sv) (sv_db sv) (sv_topic sv)"

end
