(* ===== verification/JavaService.thy ===== *)
theory JavaService
  imports JavaEngine
begin

text \<open>
  What the Java service does on a sound engine: a good order is placed in the price-time queues of
  its symbol and its trades are recorded and published, a cancel withdraws, everything else leaves the
  queues alone.
\<close>

section \<open>Sound engines\<close>

definition the_book :: "JEngine \<Rightarrow> string \<Rightarrow> JBook" where
  "the_book e symbol = fst (actorFor symbol e)"

definition jqueues :: "JService \<Rightarrow> string \<Rightarrow> string sides" where
  "jqueues sv symbol = book_queues (the_book (sv_engine sv) symbol)"

definition numbered :: "JEngine \<Rightarrow> JOrder \<Rightarrow> bool" where
  "numbered e x \<longleftrightarrow> (\<exists>k. jo_orderId x = jorder_id k \<and> sint k \<le> sint (je_sequence e)) \<and> jo_ref x < je_objects e"

definition engine_sound :: "JEngine \<Rightarrow> bool" where
  "engine_sound e \<longleftrightarrow> (\<forall>symbol b. je_actors e symbol = Some b \<longrightarrow>
     book_sound b \<and> jb_symbol b = symbol \<and> (\<forall>x\<in>set (resting b). numbered e x))"

definition sequence_room :: "nat \<Rightarrow> JEngine \<Rightarrow> bool" where
  "sequence_room n e \<longleftrightarrow> 0 \<le> sint (je_sequence e) \<and> sint (je_sequence e) + int n < 2 ^ 63"

lemma jorder_id_inj [simp]: "jorder_id m = jorder_id n \<longleftrightarrow> m = n"
  by (simp add: jorder_id_def fmt_d_inj)

lemma jorder_id_nonempty [simp]: "jorder_id n \<noteq> []"
  by (simp add: jorder_id_def)

lemma newJBook_empty [simp]: "resting (newJBook symbol) = []" "jb_symbol (newJBook symbol) = symbol"
  by (simp_all add: resting_def newJBook_def)

lemma the_book_sound:
  assumes "engine_sound e"
  shows "book_sound (the_book e symbol)" and "jb_symbol (the_book e symbol) = symbol"
    and "x \<in> set (resting (the_book e symbol)) \<Longrightarrow> numbered e x"
  using assms by (auto simp: engine_sound_def the_book_def actorFor_def newJBook_sound split: option.splits)

lemma actorFor_book: "actorFor symbol e = (b, e1) \<Longrightarrow> b = the_book e symbol \<and> je_sequence e1 = je_sequence e \<and>
    je_objects e1 = je_objects e \<and> je_actors e1 symbol = Some b \<and> (\<forall>t. the_book e1 t = the_book e t) \<and>
    (\<forall>t. t \<noteq> symbol \<longrightarrow> je_actors e1 t = je_actors e t)"
  by (auto simp: actorFor_def the_book_def split: option.splits if_splits)

lemma actorFor_sound: "engine_sound e \<Longrightarrow> actorFor symbol e = (b, e1) \<Longrightarrow> engine_sound e1"
  using newJBook_sound [of symbol] by (auto simp: actorFor_def engine_sound_def numbered_def split: option.splits if_splits)

lemma the_book_put [simp]: "the_book (e\<lparr>je_actors := (je_actors e)(symbol \<mapsto> b)\<rparr>) = (the_book e)(symbol := b)"
  by (auto simp: the_book_def actorFor_def fun_eq_iff split: option.splits)

lemma the_book_counters [simp]:
  "the_book (e\<lparr>je_objects := n\<rparr>) = the_book e" "the_book (e\<lparr>je_sequence := k\<rparr>) = the_book e"
  by (auto simp: the_book_def actorFor_def fun_eq_iff split: option.splits)

lemma new_engine_sound: "engine_sound newJEngine" "the_book newJEngine symbol = newJBook symbol"
  by (simp_all add: engine_sound_def newJEngine_def the_book_def actorFor_def)

lemma engine_sound_put:
  assumes "engine_sound e" and "book_sound b" and "jb_symbol b = symbol" and "\<And>x. x \<in> set (resting b) \<Longrightarrow> numbered e x"
  shows "engine_sound (e\<lparr>je_actors := (je_actors e)(symbol \<mapsto> b)\<rparr>)"
  using assms by (auto simp: engine_sound_def numbered_def)

lemma numbered_more:
  "numbered e x \<Longrightarrow> sint (je_sequence e) \<le> sint k \<Longrightarrow> je_objects e \<le> n \<Longrightarrow> numbered (e\<lparr>je_sequence := k, je_objects := n\<rparr>) x"
  by (auto simp: numbered_def intro: order_trans)

lemma numbered_jcore: "jcore x = jcore y \<Longrightarrow> numbered e x = numbered e y"
proof -
  assume j: "jcore x = jcore y"
  show ?thesis using arg_cong [OF j, of jo_orderId] arg_cong [OF j, of jo_ref] by (simp add: numbered_def)
qed

section \<open>What is filled\<close>

lemma sweep_fills:
  "sweep t r xs = (fs, r', ys) \<Longrightarrow> (x, f) \<in> set fs \<Longrightarrow> \<forall>x\<in>set xs. 0 < sint (lt_left x) \<Longrightarrow>
   x \<in> set xs \<and> 0 < sint f \<and> sint f \<le> sint r \<and> sint f \<le> sint (lt_left x)"
proof (induction t r xs arbitrary: fs r' ys rule: sweep.induct)
  case (2 t r z zs)
  let ?f = "take_from r z"
  show ?case
  proof (cases "0 <s r \<and> willing t (lt_price z)")
    case True
    then have turn: "0 <s r \<and> willing t (lt_price z)" "0 < sint r" by (simp_all add: go_signed)
    have f: "0 < sint ?f" "sint ?f \<le> sint r" "sint ?f \<le> sint (lt_left z)" "sint (r - ?f) \<le> sint r"
      using turn(2) 2(5) sint_take_away [of ?f r] by (auto simp: take_from_def go_signed)
    show ?thesis
    proof (cases "lt_account z = tk_account t")
      case own: True
      then obtain ws where "sweep t r zs = (fs, r', ws)" using 2(3) turn by (auto simp: Let_def split: prod.splits)
      then show ?thesis using 2(1) [OF turn(1) own] 2(4,5) by simp
    next
      case other: False
      then obtain gs ws where gs: "sweep t (r - ?f) zs = (gs, r', ws)" "fs = (z, ?f) # gs"
        using 2(3) turn by (auto simp: Let_def split: prod.splits)
      then consider "(x, f) = (z, ?f)" | "(x, f) \<in> set gs" using 2(4) by auto
      then show ?thesis
      proof cases
        case 1
        then show ?thesis using f by simp
      next
        case 2
        then show ?thesis using "2.IH"(2) [OF turn(1) other refl] \<open>\<forall>x\<in>set (z # zs). 0 < sint (lt_left x)\<close> gs(1) f(4) by fastforce
      qed
    qed
  qed (use 2 in auto)
qed simp

lemma print_trades_set:
  "t \<in> set (print_trades symbol clock inc n fs) \<Longrightarrow>
   \<exists>(x, f)\<in>set fs. jt_priceTicks t = lt_price x \<and> jt_quantity t = f \<and> jt_symbol t = symbol"
  by (induction symbol clock inc n fs rule: print_trades.induct) (auto simp: Let_def)

lemma print_trades_ids:
  "map jt_tradeId (print_trades symbol clock inc n fs) = map (\<lambda>k. trade_id symbol (n + of_nat (Suc k))) [0..<length fs]"
proof (induction fs arbitrary: n)
  case (Cons p fs)
  obtain x f where p: "p = (x, f)" by (cases p)
  have "[0..<Suc (length fs)] = 0 # map Suc [0..<length fs]" by (simp add: upt_conv_Cons map_Suc_upt del: upt_Suc)
  then show ?case using Cons [of "n + 1"] by (simp add: p Let_def add.assoc del: upt_Suc)
qed simp

lemma book_lots: "book_sound b \<Longrightarrow> x \<in> set (book_queues b d) \<Longrightarrow> 0 < sint (lt_left x)"
  by (cases d) (auto simp: book_queues_def book_sound_def side_sound_def levelsOf_def jside_def levels_fit_def level_fit_def levelOrders_def)


section \<open>Submitting\<close>

definition jorder :: "PbNewOrder \<Rightarrow> JEngine \<Rightarrow> JOrder" where
  "jorder req e = \<lparr>jo_ref = je_objects e, jo_orderId = jorder_id (je_sequence e + 1), jo_clientOrderId = pno_ClientOrderId req,
     jo_accountId = pno_AccountId req, jo_symbol = pno_Symbol req, jo_side = toDomainSide (pno_Side req),
     jo_type = toDomainType (pno_Type req), jo_priceTicks = pno_PriceTicks req, jo_quantity = pno_Quantity req,
     jo_sequence = je_sequence e + 1, jo_remaining = pno_Quantity req\<rparr>"

definition good_request :: "PbNewOrder \<Rightarrow> bool" where
  "good_request req \<longleftrightarrow> 0 <s pno_Quantity req \<and> (toDomainType (pno_Type req) = LIMIT \<longrightarrow> 0 <s pno_PriceTicks req)"

lemma jorder_simps [simp]:
  "jo_orderId (jorder req e) = jorder_id (je_sequence e + 1)" "jo_ref (jorder req e) = je_objects e"
  "jo_symbol (jorder req e) = pno_Symbol req" "jo_quantity (jorder req e) = pno_Quantity req"
  "jo_remaining (jorder req e) = pno_Quantity req" "jo_accountId (jorder req e) = pno_AccountId req"
  "jo_priceTicks (jorder req e) = pno_PriceTicks req" "jo_type (jorder req e) = toDomainType (pno_Type req)"
  "jo_side (jorder req e) = toDomainSide (pno_Side req)"
  by (simp_all add: jorder_def)

lemma newJOrder_good:
  "good_request req \<Longrightarrow> newJOrder (je_objects e) (jorder_id (je_sequence e + 1)) (pno_ClientOrderId req) (pno_AccountId req) (pno_Symbol req)
     (toDomainSide (pno_Side req)) (toDomainType (pno_Type req)) (pno_PriceTicks req) (pno_Quantity req) (je_sequence e + 1) = Inr (jorder req e)"
  by (auto simp: good_request_def newJOrder_def jorder_def go_signed)

lemma sequence_step: "sequence_room (Suc n) e \<Longrightarrow> sint (je_sequence e + 1) = sint (je_sequence e) + 1"
  using sint_i64_add [of "je_sequence e" 1] by (simp add: sequence_room_def)

lemma engineSubmit_places:
  assumes ok: "engine_sound e" and room: "sequence_room (Suc n) e" and req: "good_request req"
    and pl: "place (jtaker (jorder req e)) (jorder_id (je_sequence e + 1)) (pno_Quantity req) (book_queues (the_book e (pno_Symbol req))) = (fs, r, L)"
  defines "b \<equiv> the_book e (pno_Symbol req)" and "e1 \<equiv> e\<lparr>je_sequence := je_sequence e + 1, je_objects := je_objects e + 1\<rparr>"
  shows "\<exists>e' b'. engineSubmit clock (jorder req e) e1 =
      (Inr \<lparr>mr_orderId = jorder_id (je_sequence e + 1), mr_status = jplaced_status (jorder req e) r,
        mr_filledQuantity = pno_Quantity req - r, mr_trades = print_trades (pno_Symbol req) clock (jorder req e) (jb_tradeSeq b) fs\<rparr>, e') \<and>
    engine_sound e' \<and> sequence_room n e' \<and> je_sequence e' = je_sequence e + 1 \<and>
    the_book e' = (the_book e)(pno_Symbol req := b') \<and> book_queues b' = L \<and> jb_tradeSeq b' = jb_tradeSeq b + of_nat (length fs)"
proof -
  let ?sy = "pno_Symbol req" and ?o = "jorder req e"
  have e1: "the_book e1 = the_book e" "je_sequence e1 = je_sequence e + 1" "je_objects e1 = Suc (je_objects e)" by (simp_all add: e1_def)
  have older: "numbered e1 x" if "numbered e x" for x
    using numbered_more [OF that, of "je_sequence e + 1" "Suc (je_objects e)"] sequence_step [OF room] by (simp add: e1_def)
  have "engine_sound e1" using ok older by (auto simp: engine_sound_def e1_def)
  obtain b0 e2 where act: "actorFor ?sy e1 = (b0, e2)" by (cases "actorFor ?sy e1")
  note A = actorFor_book [OF act]
  have b0: "b0 = b" using A e1(1) by (simp add: b_def)
  have e2: "the_book e2 = the_book e" using A e1(1) by auto
  have "engine_sound e2" by (rule actorFor_sound [OF \<open>engine_sound e1\<close> act])
  note B = the_book_sound [OF ok, where symbol = ?sy, folded b_def]
  have fresh: "jo_orderId ?o \<notin> ids (resting b)" "jo_ref ?o \<notin> jo_ref ` set (resting b)"
    using B(3) sequence_step [OF room] by (fastforce simp: numbered_def)+
  have "jo_symbol ?o = jb_symbol b" "0 < sint (jo_quantity ?o)" using B(2) req by (simp_all add: good_request_def go_signed)
  from Jsubmit_places [OF B(1) this(1) _ this(2) fresh, of fs r L clock] pl
  obtain b' where sub: "Jsubmit clock b ?o = Inr (\<lparr>mr_orderId = jo_orderId ?o, mr_status = jplaced_status ?o r,
        mr_filledQuantity = jo_quantity ?o - r, mr_trades = print_trades (jb_symbol b) clock ?o (jb_tradeSeq b) fs\<rparr>, b')"
      "book_sound b'" "book_queues b' = L" "jb_symbol b' = jb_symbol b" "jb_tradeSeq b' = jb_tradeSeq b + of_nat (length fs)"
      "jcore ` set (resting b') \<subseteq> insert (jcore ?o) (jcore ` set (resting b))" by (auto simp: b_def)
  let ?e' = "e2\<lparr>je_actors := (je_actors e2)(?sy \<mapsto> b')\<rparr>"
  have "numbered e2 x" if "x \<in> set (resting b')" for x
  proof -
    have "jcore x = jcore ?o \<or> (\<exists>y\<in>set (resting b). jcore x = jcore y)" using sub(6) that by auto
    moreover have "numbered e1 ?o" by (auto simp: numbered_def e1)
    ultimately have "numbered e1 x" using older B(3) numbered_jcore by metis
    then show ?thesis using A by (simp add: numbered_def)
  qed
  then have "engine_sound ?e'" using \<open>engine_sound e2\<close> sub(2,4) B(2) by (intro engine_sound_put) auto
  moreover have "engineSubmit clock ?o e1 = (Inr \<lparr>mr_orderId = jorder_id (je_sequence e + 1), mr_status = jplaced_status ?o r,
        mr_filledQuantity = pno_Quantity req - r, mr_trades = print_trades ?sy clock ?o (jb_tradeSeq b) fs\<rparr>, ?e')"
    using act b0 sub(1) B(2) by (simp add: engineSubmit_def)
  moreover have "sequence_room n ?e'" "je_sequence ?e' = je_sequence e + 1"
    using A e1(2) room sequence_step [OF room] by (simp_all add: sequence_room_def)
  ultimately show ?thesis using sub(3,5) e2 by (intro exI [of _ ?e'] exI [of _ b']) simp
qed


section \<open>Recording and publishing\<close>

definition recordable :: "JTrade \<Rightarrow> bool" where
  "recordable t \<longleftrightarrow> 0 < sint (jt_quantity t) \<and> 0 < sint (jt_priceTicks t) \<and> sint (jt_priceTicks t) * sint (jt_quantity t) < 2 ^ 63"

lemma multiplyExact_small:
  "0 \<le> sint a \<Longrightarrow> 0 \<le> sint b \<Longrightarrow> sint a * sint b < 2 ^ 63 \<Longrightarrow> multiplyExact a b = Inr (a * b)"
proof -
  assume a: "0 \<le> sint a" "0 \<le> sint b" "sint a * sint b < 2 ^ 63"
  then have "0 \<le> sint a * sint b" by simp
  then have "sint (a * b) = sint a * sint b" using a(3) by (intro sint_i64_mult) auto
  then show ?thesis by (simp add: multiplyExact_def)
qed

lemma recordTrade_ok: "commits t = Commits \<Longrightarrow> recordable t \<Longrightarrow>
    \<exists>db'. recordTrade commits t db = (None, db') \<and> recorded_ids db' = insert (jt_tradeId t) (recorded_ids db)"
  using multiplyExact_small [of "jt_priceTicks t" "jt_quantity t"]
  by (auto simp: recordTrade_def insertTrade_def recordable_def entriesFor_def recorded_ids_def rowFor_def go_signed)

lemma recordAll_ok:
  "\<forall>t\<in>set ts. commits t = Commits \<and> recordable t \<Longrightarrow> \<exists>db'. recordAll commits ts db = (None, db') \<and> recorded_ids db' = jt_tradeId ` set ts \<union> recorded_ids db"
proof (induction ts arbitrary: db)
  case (Cons t ts)
  obtain db1 where "recordTrade commits t db = (None, db1)" "recorded_ids db1 = insert (jt_tradeId t) (recorded_ids db)"
    using recordTrade_ok [of commits t db] Cons.prems by auto
  moreover obtain db2 where "recordAll commits ts db1 = (None, db2)" "recorded_ids db2 = jt_tradeId ` set ts \<union> recorded_ids db1"
    using Cons.IH [of db1] Cons.prems by auto
  ultimately show ?case by auto
qed simp

lemma publish_all:
  "\<forall>t\<in>set ts. delivers t = Sent \<Longrightarrow> publishAll delivers ts topic = (None, topic @ map (\<lambda>t. (jt_symbol t, toProto t)) ts)"
  by (induction ts arbitrary: topic) (simp_all add: publish_def)

section \<open>The service\<close>

text \<open>What a request that succeeds leaves behind.\<close>

lemma submitOrder_places:
  assumes ok: "engine_sound (sv_engine sv)" and room: "sequence_room (Suc n) (sv_engine sv)" and req: "good_request req"
    and pl: "place (jtaker (jorder req (sv_engine sv))) (jorder_id (je_sequence (sv_engine sv) + 1)) (pno_Quantity req) (jqueues sv (pno_Symbol req)) = (fs, r, L)"
    and sub: "submitOrder w req sv = (res, sv')"
  defines "ts \<equiv> print_trades (pno_Symbol req) (jw_clock w) (jorder req (sv_engine sv)) (jb_tradeSeq (the_book (sv_engine sv) (pno_Symbol req))) fs"
    and "ack \<equiv> \<lparr>pack_OrderId = jorder_id (je_sequence (sv_engine sv) + 1), pack_Status = toProtoStatus (jplaced_status (jorder req (sv_engine sv)) r),
      pack_FilledQuantity = pno_Quantity req - r, pack_Reason = []\<rparr>"
  shows "engine_sound (sv_engine sv')" and "sequence_room n (sv_engine sv')" and "je_sequence (sv_engine sv') = je_sequence (sv_engine sv) + 1"
    and "jqueues sv' = (jqueues sv)(pno_Symbol req := L)"
    and "case recordAll (jw_commits w) ts (sv_db sv) of
        (None, db) \<Rightarrow> sv_db sv' = db \<and>
          (case publishAll (jw_delivers w) ts (sv_topic sv) of
             (None, topic) \<Rightarrow> res = Inr ack \<and> sv_topic sv' = topic
           | (Some x, topic) \<Rightarrow> res = Inl (INTERNAL, ''engine error'') \<and> sv_topic sv' = topic)
      | (Some x, db) \<Rightarrow> res = Inl (INTERNAL, ''engine error'') \<and> sv_db sv' = db \<and> sv_topic sv' = sv_topic sv"
    and "\<exists>b'. the_book (sv_engine sv') = (the_book (sv_engine sv))(pno_Symbol req := b') \<and>
      jb_tradeSeq b' = jb_tradeSeq (the_book (sv_engine sv) (pno_Symbol req)) + of_nat (length fs)"
    and "sv_defaultDepth sv' = sv_defaultDepth sv"
proof -
  let ?e = "sv_engine sv" and ?sy = "pno_Symbol req"
  let ?e1 = "?e\<lparr>je_sequence := je_sequence ?e + 1, je_objects := je_objects ?e + 1\<rparr>"
  obtain e' b' where e': "engineSubmit (jw_clock w) (jorder req ?e) ?e1 =
      (Inr \<lparr>mr_orderId = jorder_id (je_sequence ?e + 1), mr_status = jplaced_status (jorder req ?e) r,
        mr_filledQuantity = pno_Quantity req - r, mr_trades = ts\<rparr>, e')"
      "engine_sound e'" "sequence_room n e'" "je_sequence e' = je_sequence ?e + 1" "the_book e' = (the_book ?e)(?sy := b')" "book_queues b' = L"
      "jb_tradeSeq b' = jb_tradeSeq (the_book ?e ?sy) + of_nat (length fs)"
    using engineSubmit_places [OF ok room req pl [unfolded jqueues_def], of "jw_clock w"] unfolding ts_def by blast
  obtain err db where ra: "recordAll (jw_commits w) ts (sv_db sv) = (err, db)" by (cases "recordAll (jw_commits w) ts (sv_db sv)")
  obtain perr topic where pa: "publishAll (jw_delivers w) ts (sv_topic sv) = (perr, topic)"
    by (cases "publishAll (jw_delivers w) ts (sv_topic sv)")
  note eval = newJOrder_good [OF req, of ?e] ra pa
  have fail: "submitOrder w req sv = (Inl (INTERNAL, ''engine error''), sv\<lparr>sv_engine := e', sv_db := db\<rparr>)" if "err = Some x" for x
    using that e'(1) by (simp add: submitOrder_def nextSequence_def eval)
  have unsent: "submitOrder w req sv = (Inl (INTERNAL, ''engine error''), sv\<lparr>sv_engine := e', sv_db := db, sv_topic := topic\<rparr>)"
    if "err = None" "perr = Some x" for x using that e'(1) by (simp add: submitOrder_def nextSequence_def eval)
  have acked: "submitOrder w req sv = (Inr ack, sv\<lparr>sv_engine := e', sv_db := db, sv_topic := topic\<rparr>)"
    if "err = None" "perr = None" using that e'(1) by (simp add: submitOrder_def nextSequence_def eval ack_def)
  have eng: "sv_engine sv' = e'" "sv_defaultDepth sv' = sv_defaultDepth sv"
    using fail unsent acked sub by (cases err; cases perr; force)+
  show "engine_sound (sv_engine sv')" "sequence_room n (sv_engine sv')" "je_sequence (sv_engine sv') = je_sequence ?e + 1"
    using e' eng by simp_all
  show "jqueues sv' = (jqueues sv)(?sy := L)" using e'(5,6) eng by (auto simp: jqueues_def fun_eq_iff)
  show "case recordAll (jw_commits w) ts (sv_db sv) of
        (None, db) \<Rightarrow> sv_db sv' = db \<and>
          (case publishAll (jw_delivers w) ts (sv_topic sv) of
             (None, topic) \<Rightarrow> res = Inr ack \<and> sv_topic sv' = topic
           | (Some x, topic) \<Rightarrow> res = Inl (INTERNAL, ''engine error'') \<and> sv_topic sv' = topic)
      | (Some x, db) \<Rightarrow> res = Inl (INTERNAL, ''engine error'') \<and> sv_db sv' = db \<and> sv_topic sv' = sv_topic sv"
    using fail unsent acked sub ra pa by (cases err; cases perr) auto
  show "\<exists>b'. the_book (sv_engine sv') = (the_book ?e)(?sy := b') \<and>
      jb_tradeSeq b' = jb_tradeSeq (the_book ?e ?sy) + of_nat (length fs)" using e'(5,7) eng by auto
  show "sv_defaultDepth sv' = sv_defaultDepth sv" by (rule eng(2))
qed

lemma submitOrder_refused:
  assumes bad: "\<not> good_request req" and ok: "engine_sound (sv_engine sv)" and room: "sequence_room (Suc n) (sv_engine sv)"
  shows "\<exists>msg. submitOrder w req sv = (Inl (INVALID_ARGUMENT, msg), sv\<lparr>sv_engine := (sv_engine sv)\<lparr>je_sequence := je_sequence (sv_engine sv) + 1\<rparr>\<rparr>)"
    and "engine_sound ((sv_engine sv)\<lparr>je_sequence := je_sequence (sv_engine sv) + 1\<rparr>)"
    and "sequence_room n ((sv_engine sv)\<lparr>je_sequence := je_sequence (sv_engine sv) + 1\<rparr>)"
proof -
  show "\<exists>msg. submitOrder w req sv = (Inl (INVALID_ARGUMENT, msg), sv\<lparr>sv_engine := (sv_engine sv)\<lparr>je_sequence := je_sequence (sv_engine sv) + 1\<rparr>\<rparr>)"
    using bad by (auto simp: submitOrder_def nextSequence_def newJOrder_def good_request_def go_signed)
  have "numbered ((sv_engine sv)\<lparr>je_sequence := je_sequence (sv_engine sv) + 1\<rparr>) x" if "numbered (sv_engine sv) x" for x
    using numbered_more [OF that, of "je_sequence (sv_engine sv) + 1" "je_objects (sv_engine sv)"] sequence_step [OF room]
    by (simp add: numbered_def)
  then show "engine_sound ((sv_engine sv)\<lparr>je_sequence := je_sequence (sv_engine sv) + 1\<rparr>)"
    using ok by (simp add: engine_sound_def)
  show "sequence_room n ((sv_engine sv)\<lparr>je_sequence := je_sequence (sv_engine sv) + 1\<rparr>)"
    using room sequence_step [OF room] by (simp add: sequence_room_def)
qed

lemma cancelOrder_withdraws:
  assumes ok: "engine_sound (sv_engine sv)" and c: "cancelOrder req sv = (res, sv')"
  shows "engine_sound (sv_engine sv')" and "je_sequence (sv_engine sv') = je_sequence (sv_engine sv)"
    and "jqueues sv' = (jqueues sv)(pco_Symbol req := withdraw (pco_OrderId req) (jqueues sv (pco_Symbol req)))"
    and "\<exists>ack. res = Inr ack \<and> pack_OrderId ack = pco_OrderId req \<and> pack_FilledQuantity ack = 0 \<and>
      pack_Status ack = (if \<exists>d. pco_OrderId req \<in> lt_tag ` set (jqueues sv (pco_Symbol req) d) then OrderStatus_CANCELLED else OrderStatus_REJECTED)"
    and "sv_db sv' = sv_db sv" "sv_topic sv' = sv_topic sv" "sv_defaultDepth sv' = sv_defaultDepth sv"
    and "jb_tradeSeq (the_book (sv_engine sv') t) = jb_tradeSeq (the_book (sv_engine sv) t)"
proof -
  let ?e = "sv_engine sv" and ?sy = "pco_Symbol req" and ?i = "pco_OrderId req"
  obtain b e1 where act: "actorFor ?sy ?e = (b, e1)" by (cases "actorFor ?sy ?e")
  note A = actorFor_book [OF act]
  obtain found b' where jc: "Jcancel ?i b = (found, b')" by (cases "Jcancel ?i b")
  note B = the_book_sound [OF ok, where symbol = ?sy]
  have b: "b = the_book ?e ?sy" using A by blast
  note J = Jcancel_withdraws [OF B(1) jc [unfolded b]]
  let ?e' = "e1\<lparr>je_actors := (je_actors e1)(?sy \<mapsto> b')\<rparr>"
  have sv': "sv' = sv\<lparr>sv_engine := ?e'\<rparr>" and res: "\<exists>ack. res = Inr ack \<and> pack_OrderId ack = ?i \<and> pack_FilledQuantity ack = 0 \<and>
      pack_Status ack = (if found then OrderStatus_CANCELLED else OrderStatus_REJECTED)"
    using c act jc by (auto simp: cancelOrder_def engineCancel_def)
  have "engine_sound e1" by (rule actorFor_sound [OF ok act])
  moreover have "numbered e1 x" if "x \<in> set (resting b')" for x
    using B(3) J(6) that A by (auto simp: numbered_def)
  ultimately show "engine_sound (sv_engine sv')" using J(2,4) B(2) by (auto simp: sv' intro: engine_sound_put)
  show "je_sequence (sv_engine sv') = je_sequence ?e" "sv_db sv' = sv_db sv" "sv_topic sv' = sv_topic sv" "sv_defaultDepth sv' = sv_defaultDepth sv"
    using A by (simp_all add: sv')
  have bk: "the_book ?e' = (the_book ?e)(?sy := b')" using A by auto
  show "jqueues sv' = (jqueues sv)(?sy := withdraw ?i (jqueues sv ?sy))" using bk J(3) by (auto simp: jqueues_def sv' fun_eq_iff)
  show "jb_tradeSeq (the_book (sv_engine sv') t) = jb_tradeSeq (the_book ?e t)" using bk J(5) by (simp add: sv')
  show "\<exists>ack. res = Inr ack \<and> pack_OrderId ack = ?i \<and> pack_FilledQuantity ack = 0 \<and>
      pack_Status ack = (if \<exists>d. ?i \<in> lt_tag ` set (jqueues sv ?sy d) then OrderStatus_CANCELLED else OrderStatus_REJECTED)"
    using res J(1) tags_resting [of ?i "the_book ?e ?sy"] by (simp add: jqueues_def)
qed

end
