(* ===== verification/JavaLink.thy ===== *)
theory JavaLink
  imports JavaService EngineClient
begin

text \<open>
  The gateway's \<open>GRPCClient\<close> over the Java service is a price-time engine: through any stub that
  delivers calls to the service, a client's orders are placed in the Java books. The stub and the
  transport are generated and third-party code: what is relied on is \<open>delivers_calls\<close>.
\<close>

section \<open>The connection\<close>

text \<open>
  A call with a live context reaches the service, and its message or its status comes back; how a
  status reads as a Go error is \<open>render\<close>.
\<close>

definition reply :: "(JCode \<times> string \<Rightarrow> error) \<Rightarrow> ((JCode \<times> string) + 'a) \<times> JService \<Rightarrow> (error + 'a option) \<times> JService" where
  "reply render p = (case p of (Inl status, sv) \<Rightarrow> (Inl (render status), sv) | (Inr msg, sv) \<Rightarrow> (Inr (Some msg), sv))"

definition delivers_calls :: "(JCode \<times> string \<Rightarrow> error) \<Rightarrow> JWorld \<Rightarrow> i64 \<Rightarrow> JService EngineStub \<Rightarrow> bool" where
  "delivers_calls render w now stub \<longleftrightarrow>
     (\<forall>m sv. st_SubmitOrder stub None m sv = reply render (submitOrder w m sv)) \<and>
     (\<forall>m sv. st_CancelOrder stub None m sv = reply render (cancelOrder m sv)) \<and>
     (\<forall>m sv. st_GetBook stub None m sv = reply render (getBook now m sv))"

definition loopback :: "(JCode \<times> string \<Rightarrow> error) \<Rightarrow> JWorld \<Rightarrow> i64 \<Rightarrow> JService EngineStub" where
  "loopback render w now =
     \<lparr>st_SubmitOrder = (\<lambda>ctxErr m sv. case ctxErr of Some err \<Rightarrow> (Inl err, sv) | None \<Rightarrow> reply render (submitOrder w m sv)),
      st_CancelOrder = (\<lambda>ctxErr m sv. case ctxErr of Some err \<Rightarrow> (Inl err, sv) | None \<Rightarrow> reply render (cancelOrder m sv)),
      st_GetBook = (\<lambda>ctxErr m sv. case ctxErr of Some err \<Rightarrow> (Inl err, sv) | None \<Rightarrow> reply render (getBook now m sv))\<rparr>"

lemma loopback_delivers: "delivers_calls render w now (loopback render w now)"
  by (simp add: delivers_calls_def loopback_def)

text \<open>A world in which every record commits and is heard to, and the broker takes every trade.\<close>

definition calm :: "JWorld \<Rightarrow> bool" where
  "calm w \<longleftrightarrow> (\<forall>t. jw_commits w t = Commits \<and> jw_delivers w t = Sent)"

definition calm_world :: "(i64 \<Rightarrow> i64) \<Rightarrow> JWorld" where
  "calm_world clock = \<lparr>jw_clock = clock, jw_commits = (\<lambda>t. Commits), jw_delivers = (\<lambda>t. Sent)\<rparr>"

lemma calm_world [simp]: "calm (calm_world clock)"
  by (simp add: calm_def calm_world_def)

section \<open>The engine as its client sees it\<close>

definition topic_prints :: "(string \<times> PbTrade) list \<Rightarrow> (i64 \<times> i64) list" where
  "topic_prints recs = map (\<lambda>(k, t). (ptr_PriceTicks t, ptr_Quantity t)) recs"

text \<open>One order over the gRPC client, in any world that satisfies \<open>weather\<close>.\<close>

definition java_submits ::
  "(JWorld \<Rightarrow> bool) \<Rightarrow> JService \<Rightarrow> NewOrder \<Rightarrow> error + OrderAck \<Rightarrow> (i64 \<times> i64) list \<Rightarrow> JService \<Rightarrow> bool" where
  "java_submits weather sv o' r ex sv' \<longleftrightarrow> (\<exists>render w now stub. delivers_calls render w now stub \<and> weather w \<and>
     GRPCSubmitOrder stub sv None o' = (r, sv')) \<and> ex = topic_prints (drop (length (sv_topic sv)) (sv_topic sv'))"

definition java_cancels :: "JService \<Rightarrow> CancelOrder \<Rightarrow> error + OrderAck \<Rightarrow> JService \<Rightarrow> bool" where
  "java_cancels sv c r sv' \<longleftrightarrow> (\<exists>render w now stub. delivers_calls render w now stub \<and> GRPCCancelOrder stub sv None c = (r, sv'))"

text \<open>Orders whose executions cannot overflow the ledger's \<open>price * quantity\<close>.\<close>

definition modest :: "NewOrder \<Rightarrow> bool" where
  "modest o' \<longleftrightarrow> documented o' \<and> sint (no_Quantity o') \<le> 2 ^ 31 \<and>
     (no_Type o' = OrderTypeLimit \<longrightarrow> sint (no_PriceTicks o') \<le> 2 ^ 31)"

definition java_ok :: "nat \<Rightarrow> JService \<Rightarrow> bool" where
  "java_ok n sv \<longleftrightarrow> engine_sound (sv_engine sv) \<and> sequence_room n (sv_engine sv) \<and>
     (\<forall>sy d. \<forall>x\<in>set (jqueues sv sy d). 0 < sint (lt_price x) \<and> sint (lt_price x) \<le> 2 ^ 31)"

definition java_issued :: "JService \<Rightarrow> string \<Rightarrow> bool" where
  "java_issued sv i \<longleftrightarrow> (\<exists>k. i = jorder_id k \<and> sint k \<le> sint (je_sequence (sv_engine sv)))"

lemma domain_side: "valid_side s \<Longrightarrow> toDomainSide (toProtoSide s) = (if s = SideBuy then BUY else SELL)"
  by (auto simp: valid_side_def toDomainSide_def toProtoSide_def pb_side_defs SideBuy_def SideSell_def)

lemma domain_type: "valid_type t \<Longrightarrow> toDomainType (toProtoType t) = (if t = OrderTypeMarket then MARKET else LIMIT)"
  by (auto simp: valid_type_def toDomainType_def toProtoType_def pb_type_defs OrderTypeLimit_def OrderTypeMarket_def)

lemma wire_taker: "documented o' \<Longrightarrow> jtaker (jorder (wireOrder o') e) = taker_of o'"
  by (simp add: jtaker_def taker_of_def wireOrder_def documented_def domain_side domain_type)

lemma wire_good: "documented o' \<Longrightarrow> good_request (wireOrder o')"
  by (auto simp: good_request_def wireOrder_def documented_def domain_type valid_type_def)

lemma wire_status:
  "documented o' \<Longrightarrow> fromProtoStatus (toProtoStatus (jplaced_status (jorder (wireOrder o') e) r)) = placed_status (taker_of o') (no_Quantity o') r"
  by (simp add: fromProtoStatus_def toProtoStatus_def jplaced_status_def placed_status_def wireOrder_def taker_of_def documented_def
      domain_type pb_status_defs)

lemma place_prices:
  assumes "place t tag qty L = (fs, r, M)" and "y \<in> set (M b)"
  shows "(\<exists>x\<in>set (L b). lt_price x = lt_price y) \<or> (lt_price y = tk_price t \<and> \<not> tk_market t)"
proof -
  obtain fs' r' ys where sw: "sweep t qty (L (\<not> tk_buy t)) = (fs', r', ys)" by (metis prod_cases3)
  let ?mine = "\<lparr>lt_price = tk_price t, lt_account = tk_account t, lt_left = r', lt_tag = tag\<rparr>"
  have "M (\<not> tk_buy t) = ys" "set (M (tk_buy t)) \<subseteq> set (L (tk_buy t)) \<union> (if tk_market t then {} else {?mine})"
    using assms(1) by (auto simp: place_def sw set_enqueue Let_def split: if_splits)
  then consider "b = (\<not> tk_buy t)" "y \<in> set ys" | "y = ?mine" "\<not> tk_market t" | "y \<in> set (L b)"
    using assms(2) by (cases "b = tk_buy t") (auto split: if_splits)
  then show ?thesis using sweep_lots [OF sw] by cases auto
qed

lemma place_fills:
  assumes "place t tag qty L = (fs, r, M)" and "(x, f) \<in> set fs" and "\<And>b y. y \<in> set (L b) \<Longrightarrow> 0 < sint (lt_left y)"
  shows "x \<in> set (L (\<not> tk_buy t)) \<and> 0 < sint f \<and> sint f \<le> sint qty"
proof -
  obtain ys where "sweep t qty (L (\<not> tk_buy t)) = (fs, r, ys)"
    using assms(1) by (auto simp: place_def Let_def split: prod.splits)
  then show ?thesis using sweep_fills [OF _ assms(2)] assms(3) by blast
qed

lemma jqueues_lots: "engine_sound (sv_engine sv) \<Longrightarrow> x \<in> set (jqueues sv sy d) \<Longrightarrow> 0 < sint (lt_left x)"
  using book_lots the_book_sound(1) by (fastforce simp: jqueues_def)

lemma jqueues_tags: "engine_sound (sv_engine sv) \<Longrightarrow> x \<in> set (jqueues sv sy d) \<Longrightarrow> java_issued sv (lt_tag x)"
proof -
  assume ok: "engine_sound (sv_engine sv)" and x: "x \<in> set (jqueues sv sy d)"
  then have "lt_tag x \<in> ids (resting (the_book (sv_engine sv) sy))" using tags_resting by (fastforce simp: jqueues_def)
  then show ?thesis using the_book_sound(3) [OF ok] by (auto simp: java_issued_def numbered_def)
qed

lemma topic_prints_trades: "topic_prints (map (\<lambda>t. (jt_symbol t, toProto t)) ts) = map (\<lambda>t. (jt_priceTicks t, jt_quantity t)) ts"
  by (simp add: topic_prints_def toProto_def)

lemma trades_recordable:
  assumes "place t tag qty L = (fs, r, M)" and "\<And>b y. y \<in> set (L b) \<Longrightarrow> 0 < sint (lt_left y)"
    and "\<And>b y. y \<in> set (L b) \<Longrightarrow> 0 < sint (lt_price y) \<and> sint (lt_price y) \<le> 2 ^ 31" and "sint qty \<le> 2 ^ 31"
    and "tr \<in> set (print_trades sy clock inc n fs)"
  shows "recordable tr"
proof -
  obtain x f where x: "(x, f) \<in> set fs" "jt_priceTicks tr = lt_price x" "jt_quantity tr = f"
    using print_trades_set [OF assms(5)] by auto
  have "x \<in> set (L (\<not> tk_buy t))" "0 < sint f" "sint f \<le> 2 ^ 31"
    using place_fills [OF assms(1) x(1)] assms(2,4) by force+
  moreover from this(1) have "0 < sint (lt_price x)" "sint (lt_price x) \<le> 2 ^ 31" using assms(3) by auto
  moreover from calculation have "sint (lt_price x) * sint f \<le> 2 ^ 31 * 2 ^ 31" by (intro mult_mono) auto
  ultimately show ?thesis by (simp add: recordable_def x)
qed


section \<open>The laws\<close>

lemma java_placed:
  assumes ok: "java_ok (Suc n) sv" and fit: "modest o'" and w: "calm w" and sub: "submitOrder w (wireOrder o') sv = (res, sv')"
  shows "\<exists>ack fs left L. res = Inr ack \<and>
    place (taker_of o') (pack_OrderId ack) (no_Quantity o') (jqueues sv (no_Symbol o')) = (fs, left, L) \<and>
    jqueues sv' = (jqueues sv)(no_Symbol o' := L) \<and>
    fromProtoStatus (pack_Status ack) = placed_status (taker_of o') (no_Quantity o') left \<and>
    pack_FilledQuantity ack = no_Quantity o' - left \<and>
    topic_prints (drop (length (sv_topic sv)) (sv_topic sv')) = executions fs \<and>
    java_ok n sv' \<and> pack_OrderId ack = jorder_id (je_sequence (sv_engine sv) + 1) \<and>
    je_sequence (sv_engine sv') = je_sequence (sv_engine sv) + 1"
proof -
  let ?req = "wireOrder o'" and ?e = "sv_engine sv" and ?sy = "no_Symbol o'"
  have doc: "documented o'" "sint (no_Quantity o') \<le> 2 ^ 31" "no_Type o' = OrderTypeLimit \<Longrightarrow> sint (no_PriceTicks o') \<le> 2 ^ 31"
    using fit by (simp_all add: modest_def)
  have es: "engine_sound ?e" "sequence_room (Suc n) ?e"
    and prices: "\<And>sy d x. x \<in> set (jqueues sv sy d) \<Longrightarrow> 0 < sint (lt_price x) \<and> sint (lt_price x) \<le> 2 ^ 31"
    using ok by (auto simp: java_ok_def)
  have req: "pno_Symbol ?req = ?sy" "pno_Quantity ?req = no_Quantity o'" by (simp_all add: wireOrder_def)
  let ?i = "jorder_id (je_sequence ?e + 1)"
  obtain fs left L where pl: "place (taker_of o') ?i (no_Quantity o') (jqueues sv ?sy) = (fs, left, L)" by (metis prod_cases3)
  then have "place (jtaker (jorder ?req ?e)) ?i (pno_Quantity ?req) (jqueues sv (pno_Symbol ?req)) = (fs, left, L)"
    by (simp add: wire_taker [OF doc(1)] req)
  note S = submitOrder_places [OF es wire_good [OF doc(1)] this sub]
  let ?ts = "print_trades (pno_Symbol ?req) (jw_clock w) (jorder ?req ?e) (jb_tradeSeq (the_book ?e (pno_Symbol ?req))) fs"
  have "\<forall>t\<in>set ?ts. jw_commits w t = Commits \<and> recordable t"
    using trades_recordable [OF pl _ _ doc(2)] jqueues_lots [OF es(1)] prices w by (force simp: calm_def)
  from recordAll_ok [OF this, of "sv_db sv"] obtain db where "recordAll (jw_commits w) ?ts (sv_db sv) = (None, db)" by blast
  then have r: "res = Inr \<lparr>pack_OrderId = ?i, pack_Status = toProtoStatus (jplaced_status (jorder ?req ?e) left),
      pack_FilledQuantity = pno_Quantity ?req - left, pack_Reason = []\<rparr>"
    and topic: "sv_topic sv' = sv_topic sv @ map (\<lambda>t. (jt_symbol t, toProto t)) ?ts"
    using S(5) w publish_all [of ?ts "jw_delivers w" "sv_topic sv"] by (simp_all add: calm_def)
  have ex: "topic_prints (drop (length (sv_topic sv)) (sv_topic sv')) = executions fs"
    by (simp add: topic topic_prints_trades print_trades_executions)
  have "0 < sint (lt_price x) \<and> sint (lt_price x) \<le> 2 ^ 31" if x: "x \<in> set (L d)" for x d
  proof -
    have "0 < sint (no_PriceTicks o') \<and> sint (no_PriceTicks o') \<le> 2 ^ 31" if "\<not> tk_market (taker_of o')"
      using that doc(1,3) by (auto simp: documented_def valid_type_def taker_of_def go_signed)
    then show ?thesis using place_prices [OF pl x] prices by (force simp: taker_of_def)
  qed
  then have "java_ok n sv'" using S(1,2,4) prices by (auto simp: java_ok_def req)
  then show ?thesis using pl S(3,4) r ex wire_status [OF doc(1), of ?e left] by (simp add: req)
qed

lemma java_submits_reply:
  assumes "java_submits weather sv o' r ex sv'"
  shows "\<exists>render w res. weather w \<and> submitOrder w (wireOrder o') sv = (res, sv') \<and>
    r = (case res of Inl status \<Rightarrow> Inl (render status) | Inr ack \<Rightarrow> Inr (fromProtoAck (Some ack))) \<and>
    ex = topic_prints (drop (length (sv_topic sv)) (sv_topic sv'))"
proof -
  obtain render w now stub where d: "delivers_calls render w now stub" "weather w" "GRPCSubmitOrder stub sv None o' = (r, sv')"
    and ex: "ex = topic_prints (drop (length (sv_topic sv)) (sv_topic sv'))" using assms by (auto simp: java_submits_def)
  obtain res sv1 where s: "submitOrder w (wireOrder o') sv = (res, sv1)" by (cases "submitOrder w (wireOrder o') sv")
  then have "sv1 = sv'" "r = (case res of Inl status \<Rightarrow> Inl (render status) | Inr ack \<Rightarrow> Inr (fromProtoAck (Some ack)))"
    using d(1,3) by (cases res; simp add: delivers_calls_def GRPCSubmitOrder_def reply_def)+
  then show ?thesis using s d(2) ex by blast
qed

lemma java_cancels_reply:
  assumes "java_cancels sv c r sv'"
  shows "\<exists>render res. cancelOrder \<lparr>pco_OrderId = co_OrderID c, pco_Symbol = co_Symbol c, pco_AccountId = co_AccountID c\<rparr> sv = (res, sv') \<and>
    r = (case res of Inl status \<Rightarrow> Inl (render status) | Inr ack \<Rightarrow> Inr (fromProtoAck (Some ack)))"
proof -
  let ?m = "\<lparr>pco_OrderId = co_OrderID c, pco_Symbol = co_Symbol c, pco_AccountId = co_AccountID c\<rparr>"
  obtain render w now stub where d: "delivers_calls render w now stub" "GRPCCancelOrder stub sv None c = (r, sv')"
    using assms by (auto simp: java_cancels_def)
  obtain res sv1 where s: "cancelOrder ?m sv = (res, sv1)" by (cases "cancelOrder ?m sv")
  then have "sv1 = sv'" "r = (case res of Inl status \<Rightarrow> Inl (render status) | Inr ack \<Rightarrow> Inr (fromProtoAck (Some ack)))"
    using d by (cases res; simp add: delivers_calls_def GRPCCancelOrder_def reply_def)+
  then show ?thesis using s by blast
qed

lemma ack_simps:
  "ack_OrderID (fromProtoAck (Some p)) = pack_OrderId p" "ack_Status (fromProtoAck (Some p)) = fromProtoStatus (pack_Status p)"
  "ack_FilledQuantity (fromProtoAck (Some p)) = pack_FilledQuantity p"
  by (simp_all add: fromProtoAck_def deref_def)

lemma java_submit_law:
  assumes ok: "java_ok (Suc n) sv" and fit: "modest o'" and sub: "java_submits calm sv o' r ex sv'"
  shows "\<exists>ack fs left L. r = Inr ack \<and>
      place (taker_of o') (ack_OrderID ack) (no_Quantity o') (jqueues sv (no_Symbol o')) = (fs, left, L) \<and>
      jqueues sv' = (jqueues sv)(no_Symbol o' := L) \<and>
      ack_Status ack = placed_status (taker_of o') (no_Quantity o') left \<and>
      ack_FilledQuantity ack = no_Quantity o' - left \<and> ex = executions fs \<and>
      java_ok n sv' \<and> ack_OrderID ack \<noteq> [] \<and> \<not> java_issued sv (ack_OrderID ack) \<and> java_issued sv' (ack_OrderID ack)"
    and "java_issued sv i \<Longrightarrow> java_issued sv' i"
proof -
  obtain render w res where s: "calm w" "submitOrder w (wireOrder o') sv = (res, sv')"
      "r = (case res of Inl status \<Rightarrow> Inl (render status) | Inr ack \<Rightarrow> Inr (fromProtoAck (Some ack)))"
      "ex = topic_prints (drop (length (sv_topic sv)) (sv_topic sv'))"
    using java_submits_reply [OF sub] by blast
  note P = java_placed [OF ok fit s(1,2)]
  have "sint (je_sequence (sv_engine sv) + 1) = sint (je_sequence (sv_engine sv)) + 1"
    using ok sequence_step by (auto simp: java_ok_def)
  then show "\<exists>ack fs left L. r = Inr ack \<and>
      place (taker_of o') (ack_OrderID ack) (no_Quantity o') (jqueues sv (no_Symbol o')) = (fs, left, L) \<and>
      jqueues sv' = (jqueues sv)(no_Symbol o' := L) \<and>
      ack_Status ack = placed_status (taker_of o') (no_Quantity o') left \<and>
      ack_FilledQuantity ack = no_Quantity o' - left \<and> ex = executions fs \<and>
      java_ok n sv' \<and> ack_OrderID ack \<noteq> [] \<and> \<not> java_issued sv (ack_OrderID ack) \<and> java_issued sv' (ack_OrderID ack)"
    and "java_issued sv i \<Longrightarrow> java_issued sv' i"
    using P s(3,4) by (fastforce simp: ack_simps java_issued_def)+
qed

interpretation java_engine: price_time_engine "java_submits calm" java_cancels jqueues java_ok modest java_issued
proof (unfold_locales, goal_cases)
  case (1 n sv o')
  let ?w = "calm_world (\<lambda>n. 0)"
  have "\<exists>r sv'. GRPCSubmitOrder (loopback snd ?w 0) sv None o' = (r, sv')" by (metis prod.exhaust)
  then show ?case unfolding java_submits_def using loopback_delivers calm_world by blast
next
  case (2 n sv o' r ex sv')
  then show ?case by (rule java_submit_law(1))
next
  case (3 n sv o' r ex sv' i)
  then show ?case by (intro java_submit_law(2) [of n sv o' r ex sv'])
next
  case (4 n sv c)
  have "\<exists>r sv'. GRPCCancelOrder (loopback snd (calm_world (\<lambda>n. 0)) 0) sv None c = (r, sv')" by (metis prod.exhaust)
  then show ?case unfolding java_cancels_def using loopback_delivers by blast
next
  case (5 n sv c r sv')
  then have es: "engine_sound (sv_engine sv)" by (simp add: java_ok_def)
  let ?m = "\<lparr>pco_OrderId = co_OrderID c, pco_Symbol = co_Symbol c, pco_AccountId = co_AccountID c\<rparr>"
  obtain render res where s: "cancelOrder ?m sv = (res, sv')" "r = (case res of Inl status \<Rightarrow> Inl (render status) | Inr ack \<Rightarrow> Inr (fromProtoAck (Some ack)))"
    using java_cancels_reply [OF 5(4)] by blast
  note C = cancelOrder_withdraws [OF es s(1)]
  have "java_ok n sv'" using 5(1) C(1,2,3) by (auto simp: java_ok_def sequence_room_def withdraw_def)
  moreover have "\<exists>ack. r = Inr ack \<and> ack_FilledQuantity ack = 0 \<and>
      ack_Status ack = (if \<exists>b. co_OrderID c \<in> lt_tag ` set (jqueues sv (co_Symbol c) b) then StatusCancelled else StatusRejected)"
  proof -
    obtain ack where "res = Inr ack" "pack_FilledQuantity ack = 0" "pack_Status ack =
        (if \<exists>d. co_OrderID c \<in> lt_tag ` set (jqueues sv (co_Symbol c) d) then OrderStatus_CANCELLED else OrderStatus_REJECTED)"
      using C(4) by auto
    then show ?thesis using s(2)
      by (cases "\<exists>d. co_OrderID c \<in> lt_tag ` set (jqueues sv (co_Symbol c) d)") (simp_all add: ack_simps fromProtoStatus_def pb_status_defs)
  qed
  ultimately show ?case using C(3) by simp
next
  case (6 n sv c r sv' i)
  then have es: "engine_sound (sv_engine sv)" by (simp add: java_ok_def)
  obtain render res where "cancelOrder \<lparr>pco_OrderId = co_OrderID c, pco_Symbol = co_Symbol c, pco_AccountId = co_AccountID c\<rparr> sv = (res, sv')"
    using java_cancels_reply [OF 6(2)] by blast
  then show ?case using cancelOrder_withdraws(2) [OF es] 6(3) by (simp add: java_issued_def)
next
  case (7 n sv x sy b)
  then show ?case by (intro jqueues_tags) (simp_all add: java_ok_def)
qed

end
