(* ===== verification/JavaRuns.thy ===== *)
theory JavaRuns
  imports JavaLink
begin

text \<open>
  The Java service over any sequence of calls and restarts: its books stay sound, in price-time order
  and uncrossed, its ledger balances, and without a restart whatever is published is recorded.
\<close>

section \<open>Runs\<close>

datatype JRequest = CallSubmit JWorld PbNewOrder | CallCancel PbCancelOrderRequest | CallBook i64 PbBookRequest | Restart

fun jserve :: "JService \<Rightarrow> JRequest \<Rightarrow> JService" where
  "jserve sv (CallSubmit w req) = snd (submitOrder w req sv)"
| "jserve sv (CallCancel req) = snd (cancelOrder req sv)"
| "jserve sv (CallBook now req) = snd (getBook now req sv)"
| "jserve sv Restart = restart sv"

definition jserves :: "i32 \<Rightarrow> JRequest list \<Rightarrow> JService" where
  "jserves depth rs = foldl jserve (newService depth emptyDatabase []) rs"

section \<open>The ledger\<close>

text \<open>The four postings of a recorded trade, given its buyer and seller.\<close>

definition postings :: "TradeRow \<Rightarrow> string \<times> string \<Rightarrow> LedgerEntry list" where
  "postings row p =
     [\<lparr>ent_accountId = fst p, ent_asset = ''CASH'', ent_delta = - (row_price_ticks row * row_quantity row)\<rparr>,
      \<lparr>ent_accountId = fst p, ent_asset = row_symbol row, ent_delta = row_quantity row\<rparr>,
      \<lparr>ent_accountId = snd p, ent_asset = ''CASH'', ent_delta = row_price_ticks row * row_quantity row\<rparr>,
      \<lparr>ent_accountId = snd p, ent_asset = row_symbol row, ent_delta = - row_quantity row\<rparr>]"

definition tagged :: "TradeRow \<Rightarrow> string \<times> string \<Rightarrow> (string \<times> LedgerEntry) list" where
  "tagged row p = map (Pair (row_trade_id row)) (postings row p)"

definition row_sound :: "TradeRow \<Rightarrow> bool" where
  "row_sound row \<longleftrightarrow> 0 < sint (row_price_ticks row) \<and> 0 < sint (row_quantity row) \<and>
     sint (row_price_ticks row * row_quantity row) = sint (row_price_ticks row) * sint (row_quantity row)"

definition db_sound :: "JDatabase \<Rightarrow> bool" where
  "db_sound db \<longleftrightarrow> distinct (map row_trade_id (db_trades db)) \<and> (\<forall>row\<in>set (db_trades db). row_sound row) \<and>
     (\<exists>parties. db_ledger_entries db = concat (map (\<lambda>row. tagged row (parties row)) (db_trades db)))"

lemma emptyDatabase_sound: "db_sound emptyDatabase"
  by (simp add: db_sound_def emptyDatabase_def)

lemma rowFor_id [simp]: "row_trade_id (rowFor t) = jt_tradeId t"
  by (simp add: rowFor_def)

lemma insertTrade_sound:
  assumes "db_sound db" and "0 < sint (jt_priceTicks t)" and "insertTrade t db = Inr db'"
  shows "db_sound db'"
proof (cases "jt_tradeId t \<in> recorded_ids db")
  case True
  then show ?thesis using assms by (auto simp: insertTrade_def split: if_splits)
next
  case False
  obtain parties where p: "db_ledger_entries db = concat (map (\<lambda>row. tagged row (parties row)) (db_trades db))"
    using assms(1) by (auto simp: db_sound_def)
  let ?parties = "parties(rowFor t := (jt_buyAccountId t, jt_sellAccountId t))"
  have new: "rowFor t \<notin> set (db_trades db)" using False unfolding recorded_ids_def by (metis imageI rowFor_id)
  then have old: "map (\<lambda>row. tagged row (?parties row)) (db_trades db) = map (\<lambda>row. tagged row (parties row)) (db_trades db)"
    by (intro map_cong) auto
  have exact: "sint (jt_priceTicks t * jt_quantity t) = sint (jt_priceTicks t) * sint (jt_quantity t)" "0 < sint (jt_quantity t)"
    and db': "db' = db\<lparr>db_trades := db_trades db @ [rowFor t],
      db_ledger_entries := db_ledger_entries db @ tagged (rowFor t) (jt_buyAccountId t, jt_sellAccountId t)\<rparr>"
    using assms(3) False
    by (auto simp: insertTrade_def entriesFor_def multiplyExact_def tagged_def postings_def rowFor_def go_signed split: if_splits)
  have "row_sound (rowFor t)" using exact assms(2) by (simp add: row_sound_def rowFor_def)
  moreover have entries: "db_ledger_entries db' = concat (map (\<lambda>row. tagged row (?parties row)) (db_trades db'))"
    by (simp add: db' p old [symmetric] del: fun_upd_apply) (simp add: old)
  moreover have "row_trade_id (rowFor t) \<notin> row_trade_id ` set (db_trades db)" using False by (simp add: recorded_ids_def rowFor_def)
  moreover have rows: "db_trades db' = db_trades db @ [rowFor t]" by (simp add: db')
  moreover have "distinct (map row_trade_id (db_trades db))" "\<forall>row\<in>set (db_trades db). row_sound row"
    using assms(1) by (simp_all add: db_sound_def)
  ultimately have "distinct (map row_trade_id (db_trades db')) \<and> (\<forall>row\<in>set (db_trades db'). row_sound row)"
    unfolding rows by simp
  moreover have "\<exists>parties. db_ledger_entries db' = concat (map (\<lambda>row. tagged row (parties row)) (db_trades db'))"
    using entries by blast
  ultimately show ?thesis unfolding db_sound_def by blast
qed

lemma recordTrade_sound:
  "db_sound db \<Longrightarrow> 0 < sint (jt_priceTicks t) \<Longrightarrow> recordTrade commits t db = (err, db') \<Longrightarrow> db_sound db'"
  using insertTrade_sound [of db t] by (auto simp: recordTrade_def split: sum.splits JCommit.splits)

lemma recordAll_sound:
  "db_sound db \<Longrightarrow> \<forall>t\<in>set ts. 0 < sint (jt_priceTicks t) \<Longrightarrow> recordAll commits ts db = (err, db') \<Longrightarrow> db_sound db'"
  by (induction commits ts db rule: recordAll.induct) (auto split: prod.splits option.splits dest: recordTrade_sound)

lemma tagged_id: "(i, e) \<in> set (tagged row p) \<Longrightarrow> i = row_trade_id row"
  by (auto simp: tagged_def)

lemma entries_of_row:
  assumes "distinct (map row_trade_id rows)" and "row \<in> set rows"
  shows "filter (\<lambda>(i, e). i = row_trade_id row) (concat (map (\<lambda>row. tagged row (parties row)) rows)) = tagged row (parties row)"
  using assms
proof (induction rows)
  case (Cons r rows)
  have mine: "filter (\<lambda>(i, e). i = row_trade_id row) (tagged row p) = tagged row p" for p
    by (intro filter_True) (auto dest: tagged_id)
  have none: "filter (\<lambda>(i, e). i = row_trade_id row) (tagged r' p) = []" if "row_trade_id r' \<noteq> row_trade_id row" for r' p
    using that by (intro filter_False) (auto dest: tagged_id)
  show ?case
  proof (cases "row \<in> set rows")
    case True
    then have "row_trade_id r \<noteq> row_trade_id row" using Cons.prems(1) by auto
    then show ?thesis using Cons True none by simp
  next
    case False
    then have "row = r" using Cons.prems(2) by simp
    moreover have "filter (\<lambda>(i, e). i = row_trade_id row) (concat (map (\<lambda>row. tagged row (parties row)) rows)) = []"
      using Cons.prems(1) calculation by (intro filter_False) (force dest: tagged_id)
    ultimately show ?thesis using mine by simp
  qed
qed simp

text \<open>The signed total of an asset over the entries of a trade.\<close>

definition trade_total :: "string \<Rightarrow> string \<Rightarrow> (string \<times> LedgerEntry) list \<Rightarrow> int" where
  "trade_total i asset entries = (\<Sum>(j, e)\<leftarrow>entries. if j = i \<and> ent_asset e = asset then sint (ent_delta e) else 0)"

lemma tagged_total: "row_sound row \<Longrightarrow> trade_total i asset (tagged row p) = 0"
proof -
  assume ok: "row_sound row"
  then have "0 \<le> sint (row_price_ticks row * row_quantity row)" by (simp add: row_sound_def)
  then have "sint (- (row_price_ticks row * row_quantity row)) = - sint (row_price_ticks row * row_quantity row)"
    by (intro sint_i64_uminus) simp
  moreover have "sint (- row_quantity row) = - sint (row_quantity row)"
    using ok by (intro sint_i64_uminus) (simp add: row_sound_def)
  ultimately show ?thesis by (auto simp: trade_total_def tagged_def postings_def)
qed

lemma rows_total: "\<forall>row\<in>set rows. row_sound row \<Longrightarrow> trade_total i asset (concat (map (\<lambda>row. tagged row (parties row)) rows)) = 0"
  using tagged_total by (induction rows) (fastforce simp: trade_total_def)+

lemma db_sound_facts:
  assumes "db_sound db"
  shows "distinct (map row_trade_id (db_trades db))" and "trade_total i asset (db_ledger_entries db) = 0"
    and "(j, e) \<in> set (db_ledger_entries db) \<Longrightarrow> j \<in> recorded_ids db"
    and "row \<in> set (db_trades db) \<Longrightarrow> \<exists>p. map snd (filter (\<lambda>(j, e). j = row_trade_id row) (db_ledger_entries db)) = postings row p"
proof -
  obtain parties where p: "db_ledger_entries db = concat (map (\<lambda>row. tagged row (parties row)) (db_trades db))"
    and d: "distinct (map row_trade_id (db_trades db))" "\<forall>row\<in>set (db_trades db). row_sound row"
    using assms by (auto simp: db_sound_def)
  show "distinct (map row_trade_id (db_trades db))" by (rule d(1))
  show "trade_total i asset (db_ledger_entries db) = 0" using d(2) by (simp add: p rows_total)
  show "j \<in> recorded_ids db" if "(j, e) \<in> set (db_ledger_entries db)"
    using that by (auto simp: p recorded_ids_def dest: tagged_id)
  show "\<exists>p. map snd (filter (\<lambda>(j, e). j = row_trade_id row) (db_ledger_entries db)) = postings row p" if "row \<in> set (db_trades db)"
    by (rule exI [of _ "parties row"], unfold p entries_of_row [OF d(1) that]) (simp add: tagged_def comp_def)
qed


section \<open>What every call keeps\<close>

text \<open>
  \<open>tape_room\<close> counts the trades of a symbol: a submission prints at most one trade more than it uses
  up resting orders, and leaves at most one order.
\<close>

definition tape_room :: "JService \<Rightarrow> bool" where
  "tape_room sv \<longleftrightarrow> (\<forall>sy. 0 \<le> sint (jb_tradeSeq (the_book (sv_engine sv) sy)) \<and>
     sint (jb_tradeSeq (the_book (sv_engine sv) sy)) + int (length (jqueues sv sy True)) + int (length (jqueues sv sy False)) \<le>
       2 * sint (je_sequence (sv_engine sv)))"

definition service_sound :: "nat \<Rightarrow> JService \<Rightarrow> bool" where
  "service_sound n sv \<longleftrightarrow> engine_sound (sv_engine sv) \<and> 0 \<le> sint (je_sequence (sv_engine sv)) \<and>
     sint (je_sequence (sv_engine sv)) + int n < 2 ^ 62 \<and> tape_room sv \<and> db_sound (sv_db sv) \<and>
     (\<forall>sy. orderly (jqueues sv sy) \<and> (\<forall>d. \<forall>x\<in>set (jqueues sv sy d). 0 < sint (lt_price x)))"

lemma service_room: "service_sound (Suc n) sv \<Longrightarrow> sequence_room (Suc n) (sv_engine sv)"
  by (simp add: service_sound_def sequence_room_def)

lemma new_queues [simp]: "jqueues (newService depth db topic) sy = (\<lambda>d. [])"
  by (auto simp: jqueues_def newService_def new_engine_sound book_queues_def newJBook_def levelsOf_def split: JSide.split)

lemma new_counters: "je_sequence newJEngine = 0" "jb_tradeSeq (newJBook symbol) = 0"
  by (simp_all add: newJEngine_def newJBook_def)

lemma orderly_empty: "orderly (\<lambda>d. [])"
  by (simp add: orderly_def side_sorted_def apart_def)

lemma newService_sound: "db_sound db \<Longrightarrow> n < 2 ^ 62 \<Longrightarrow> service_sound n (newService depth db topic)"
  using of_nat_less_iff [of n "2 ^ 62", where 'a = int]
  by (auto simp: service_sound_def tape_room_def orderly_empty)
    (simp_all add: newService_def new_engine_sound new_counters)

lemma tape_room_mono:
  assumes "tape_room sv" and "\<And>sy d. length (jqueues sv' sy d) \<le> length (jqueues sv sy d)"
    and "\<And>sy. jb_tradeSeq (the_book (sv_engine sv') sy) = jb_tradeSeq (the_book (sv_engine sv) sy)"
    and "sint (je_sequence (sv_engine sv)) \<le> sint (je_sequence (sv_engine sv'))"
  shows "tape_room sv'"
  unfolding tape_room_def
proof
  fix sy
  have len: "int (length (jqueues sv' sy d)) \<le> int (length (jqueues sv sy d))" for d using assms(2) by simp
  have old: "0 \<le> sint (jb_tradeSeq (the_book (sv_engine sv) sy))"
      "sint (jb_tradeSeq (the_book (sv_engine sv) sy)) + int (length (jqueues sv sy True)) + int (length (jqueues sv sy False)) \<le>
        2 * sint (je_sequence (sv_engine sv))" using assms(1) by (simp_all add: tape_room_def)
  show "0 \<le> sint (jb_tradeSeq (the_book (sv_engine sv') sy)) \<and>
      sint (jb_tradeSeq (the_book (sv_engine sv') sy)) + int (length (jqueues sv' sy True)) + int (length (jqueues sv' sy False)) \<le>
        2 * sint (je_sequence (sv_engine sv'))"
    using old len [of True] len [of False] assms(4) unfolding assms(3) by linarith
qed

lemma place_count:
  assumes "place t tag qty L = (fs, r, M)"
  shows "length fs + length (M True) + length (M False) \<le> length (L True) + length (L False) + 2"
proof -
  obtain ys where sw: "sweep t qty (L (\<not> tk_buy t)) = (fs, r, ys)" using assms by (auto simp: place_def Let_def split: prod.splits)
  have enq: "length (enqueue b x ys) = Suc (length ys)" for b x and ys :: "'a lot list"
    by (induction b x ys rule: enqueue.induct) simp_all
  have "M (\<not> tk_buy t) = ys" "length (M (tk_buy t)) \<le> Suc (length (L (tk_buy t)))"
    using assms by (auto simp: place_def sw enq Let_def split: if_splits)
  moreover have "length fs + length ys \<le> Suc (length (L (\<not> tk_buy t)))" using sweep_count [OF sw] by (auto split: if_splits)
  ultimately show ?thesis by (cases "tk_buy t") simp_all
qed

lemma submitOrder_count:
  assumes ok: "service_sound (Suc n) sv" and req: "good_request req"
    and pl: "place (jtaker (jorder req (sv_engine sv))) (jorder_id (je_sequence (sv_engine sv) + 1)) (pno_Quantity req) (jqueues sv (pno_Symbol req)) = (fs, r, L)"
  shows "sint (jb_tradeSeq (the_book (sv_engine sv) (pno_Symbol req))) + int (length fs) < 2 ^ 63"
proof -
  let ?e = "sv_engine sv" and ?sy = "pno_Symbol req"
  have "sint (jb_tradeSeq (the_book ?e ?sy)) + int (length (jqueues sv ?sy True)) + int (length (jqueues sv ?sy False)) \<le> 2 * sint (je_sequence ?e)"
    using ok by (auto simp: service_sound_def tape_room_def)
  moreover have "int (length fs) + int (length (L True)) + int (length (L False)) \<le> int (length (jqueues sv ?sy True)) + int (length (jqueues sv ?sy False)) + 2"
    using place_count [OF pl] by linarith
  moreover have "sint (je_sequence ?e) + 1 < 2 ^ 62" using ok by (simp add: service_sound_def)
  ultimately show ?thesis by simp
qed

lemma submitOrder_sound:
  assumes ok: "service_sound (Suc n) sv"
  shows "service_sound n (snd (submitOrder w req sv))"
proof (cases "good_request req")
  case False
  have es: "engine_sound (sv_engine sv)" using ok by (simp add: service_sound_def)
  obtain msg where bad: "submitOrder w req sv =
      (Inl (INVALID_ARGUMENT, msg), sv\<lparr>sv_engine := (sv_engine sv)\<lparr>je_sequence := je_sequence (sv_engine sv) + 1\<rparr>\<rparr>)"
    using submitOrder_refused(1) [OF False es service_room [OF ok]] by blast
  let ?sv = "sv\<lparr>sv_engine := (sv_engine sv)\<lparr>je_sequence := je_sequence (sv_engine sv) + 1\<rparr>\<rparr>"
  have "jqueues ?sv = jqueues sv" by (simp add: jqueues_def fun_eq_iff)
  then have "service_sound n ?sv"
    using ok submitOrder_refused(2) [OF False es service_room [OF ok]] sequence_step [OF service_room [OF ok]]
      tape_room_mono [of sv ?sv] by (simp add: service_sound_def)
  then show ?thesis using bad by simp
next
  case True
  let ?e = "sv_engine sv" and ?sy = "pno_Symbol req"
  have es: "engine_sound ?e" "orderly (jqueues sv ?sy)" and prices: "\<And>sy d x. x \<in> set (jqueues sv sy d) \<Longrightarrow> 0 < sint (lt_price x)"
    and tape: "tape_room sv" using ok by (auto simp: service_sound_def)
  obtain fs r L where pl: "place (jtaker (jorder req ?e)) (jorder_id (je_sequence ?e + 1)) (pno_Quantity req) (jqueues sv ?sy) = (fs, r, L)"
    by (metis prod_cases3)
  obtain res sv' where sub: "submitOrder w req sv = (res, sv')" by (cases "submitOrder w req sv")
  note S = submitOrder_places [OF es(1) service_room [OF ok] True pl sub]
  let ?ts = "print_trades ?sy (jw_clock w) (jorder req ?e) (jb_tradeSeq (the_book ?e ?sy)) fs"
  have step: "sint (je_sequence ?e + 1) = sint (je_sequence ?e) + 1" by (rule sequence_step [OF service_room [OF ok]])
  have lots: "\<And>b y. y \<in> set (jqueues sv ?sy b) \<Longrightarrow> 0 < sint (lt_left y)" using jqueues_lots [OF es(1)] by blast
  have fill_price: "0 < sint (jt_priceTicks t)" if "t \<in> set ?ts" for t
    using print_trades_set [OF that] place_fills [OF pl _ lots] prices by fastforce
  have db: "db_sound (sv_db sv')"
  proof -
    obtain err db' where ra: "recordAll (jw_commits w) ?ts (sv_db sv) = (err, db')" by (cases "recordAll (jw_commits w) ?ts (sv_db sv)")
    have "db_sound db'" using recordAll_sound [OF _ _ ra] fill_price ok by (simp add: service_sound_def)
    moreover have "sv_db sv' = db'" using S(5) ra by (cases err) auto
    ultimately show ?thesis by simp
  qed
  have price: "0 < sint (pno_PriceTicks req)" if "\<not> tk_market (jtaker (jorder req ?e))"
    using that True by (cases "toDomainType (pno_Type req)") (auto simp: good_request_def go_signed)
  have queues: "orderly (jqueues sv' sy) \<and> (\<forall>d. \<forall>x\<in>set (jqueues sv' sy d). 0 < sint (lt_price x))" for sy
  proof (cases "sy = ?sy")
    case True
    have "0 < sint (lt_price x)" if x: "x \<in> set (L d)" for x d
    proof -
      consider y where "y \<in> set (jqueues sv ?sy d)" "lt_price y = lt_price x" | "lt_price x = pno_PriceTicks req" "\<not> tk_market (jtaker (jorder req ?e))"
        using place_prices [OF pl x] by auto
      then show ?thesis
      proof cases
        case 1
        then show ?thesis using prices [OF 1(1)] by simp
      next
        case 2
        then show ?thesis using price by simp
      qed
    qed
    then show ?thesis using place_orderly [OF es(2) pl] True S(4) by simp
  next
    case False
    then show ?thesis using ok S(4) by (simp add: service_sound_def)
  qed
  obtain b' where b': "the_book (sv_engine sv') = (the_book ?e)(?sy := b')" "jb_tradeSeq b' = jb_tradeSeq (the_book ?e ?sy) + of_nat (length fs)"
    using S(6) by blast
  have here: "0 \<le> sint (jb_tradeSeq (the_book ?e ?sy))"
      "sint (jb_tradeSeq (the_book ?e ?sy)) + int (length (jqueues sv ?sy True)) + int (length (jqueues sv ?sy False)) \<le> 2 * sint (je_sequence ?e)"
    using tape by (auto simp: tape_room_def)
  have count: "int (length fs) + int (length (L True)) + int (length (L False)) \<le> int (length (jqueues sv ?sy True)) + int (length (jqueues sv ?sy False)) + 2"
    using place_count [OF pl] by linarith
  have top: "sint (je_sequence ?e) + 1 < 2 ^ 62" using ok by (simp add: service_sound_def)
  have fits: "int (length fs) < 2 ^ 63" "sint (jb_tradeSeq (the_book ?e ?sy)) + int (length fs) < 2 ^ 63" using here count top by simp_all
  then have "sint (of_nat (length fs) :: i64) = int (length fs)" using sint_i64_eq [of "int (length fs)"] by simp
  then have "sint (jb_tradeSeq b') = sint (jb_tradeSeq (the_book ?e ?sy)) + int (length fs)"
    using sint_i64_add [of "jb_tradeSeq (the_book ?e ?sy)" "of_nat (length fs)"] fits here(1) by (simp add: b'(2))
  then have "tape_room sv'"
    unfolding tape_room_def
  proof (intro allI)
    fix sy
    assume tseq: "sint (jb_tradeSeq b') = sint (jb_tradeSeq (the_book ?e ?sy)) + int (length fs)"
    show "0 \<le> sint (jb_tradeSeq (the_book (sv_engine sv') sy)) \<and>
      sint (jb_tradeSeq (the_book (sv_engine sv') sy)) + int (length (jqueues sv' sy True)) + int (length (jqueues sv' sy False)) \<le>
        2 * sint (je_sequence (sv_engine sv'))"
    proof (cases "sy = ?sy")
      case True
      then show ?thesis using here count tseq step by (simp add: b'(1) S(3,4))
    next
      case False
      have "0 \<le> sint (jb_tradeSeq (the_book ?e sy))"
        "sint (jb_tradeSeq (the_book ?e sy)) + int (length (jqueues sv sy True)) + int (length (jqueues sv sy False)) \<le> 2 * sint (je_sequence ?e)"
        using tape by (simp_all add: tape_room_def)
      then show ?thesis using False step by (simp add: b'(1) S(3,4))
    qed
  qed
  then have "service_sound n sv'" using ok S(1,3) step db queues by (simp add: service_sound_def)
  then show ?thesis using sub by simp
qed


lemma cancelOrder_sound:
  assumes ok: "service_sound n sv"
  shows "service_sound n (snd (cancelOrder req sv))"
proof -
  obtain res sv' where c: "cancelOrder req sv = (res, sv')" by (cases "cancelOrder req sv")
  have es: "engine_sound (sv_engine sv)" using ok by (simp add: service_sound_def)
  note C = cancelOrder_withdraws [OF es c]
  have len: "length (jqueues sv' sy d) \<le> length (jqueues sv sy d)" for sy d
    by (simp add: C(3) withdraw_def)
  have tape: "tape_room sv'" using ok len C(2,8) by (intro tape_room_mono [of sv sv']) (simp_all add: service_sound_def)
  moreover have "orderly (jqueues sv' sy)" for sy using ok by (simp add: C(3) service_sound_def withdraw_orderly)
  moreover have "\<forall>d. \<forall>x\<in>set (jqueues sv' sy d). 0 < sint (lt_price x)" for sy
    using ok by (auto simp: C(3) service_sound_def withdraw_def)
  ultimately show ?thesis using tape ok C(1,2,5) c by (simp add: service_sound_def)
qed

lemma getBook_facts:
  assumes "getBook now req sv = (res, sv')"
  shows "engine_sound (sv_engine sv) \<Longrightarrow> engine_sound (sv_engine sv')" and "jqueues sv' = jqueues sv"
    and "the_book (sv_engine sv') = the_book (sv_engine sv)" and "je_sequence (sv_engine sv') = je_sequence (sv_engine sv)"
    and "sv_db sv' = sv_db sv" "sv_topic sv' = sv_topic sv"
proof -
  obtain b e where act: "actorFor (pbr_Symbol req) (sv_engine sv) = (b, e)" by (cases "actorFor (pbr_Symbol req) (sv_engine sv)")
  have sv': "sv' = sv\<lparr>sv_engine := e\<rparr>" using assms act by (auto simp: getBook_def Let_def)
  note A = actorFor_book [OF act]
  show "engine_sound (sv_engine sv) \<Longrightarrow> engine_sound (sv_engine sv')" using actorFor_sound [OF _ act] by (simp add: sv')
  show "the_book (sv_engine sv') = the_book (sv_engine sv)" using A by (auto simp: sv')
  then show "jqueues sv' = jqueues sv" by (simp add: jqueues_def fun_eq_iff)
  show "je_sequence (sv_engine sv') = je_sequence (sv_engine sv)" using A by (simp add: sv')
  show "sv_db sv' = sv_db sv" "sv_topic sv' = sv_topic sv" by (simp_all add: sv')
qed

lemma getBook_sound:
  assumes ok: "service_sound n sv"
  shows "service_sound n (snd (getBook now req sv))"
proof -
  obtain res sv' where g: "getBook now req sv = (res, sv')" by (cases "getBook now req sv")
  note G = getBook_facts [OF g]
  have "tape_room sv'" using ok G(2-4) by (intro tape_room_mono [of sv sv']) (simp_all add: service_sound_def)
  then show ?thesis using ok G(1,2,4,5) g by (simp add: service_sound_def)
qed

lemma jserve_sound:
  assumes "service_sound (Suc n) sv"
  shows "service_sound n (jserve sv r)"
proof -
  have weak: "service_sound n sv" using assms by (simp add: service_sound_def)
  show ?thesis
  proof (cases r)
    case Restart
    have "db_sound (sv_db sv)" "n < 2 ^ 62" using weak by (auto simp: service_sound_def)
    then show ?thesis by (simp add: Restart restart_def newService_sound)
  qed (simp_all add: submitOrder_sound [OF assms] cancelOrder_sound [OF weak] getBook_sound [OF weak])
qed

lemma foldl_sound: "service_sound (length rs + n) sv \<Longrightarrow> service_sound n (foldl jserve sv rs)"
  by (induction rs arbitrary: sv) (auto intro: jserve_sound)

lemma jserves_sound: "length rs + n < 2 ^ 62 \<Longrightarrow> service_sound n (jserves depth rs)"
  unfolding jserves_def by (intro foldl_sound newService_sound emptyDatabase_sound)

section \<open>What is published is recorded\<close>

lemma cut_at:
  "\<forall>c\<in>set xs. c \<noteq> y \<Longrightarrow> dropWhile (\<lambda>c. c \<noteq> y) (xs @ y # ys) = y # ys"
  "\<forall>c\<in>set xs. c \<noteq> y \<Longrightarrow> takeWhile (\<lambda>c. c \<noteq> y) (xs @ y # ys) = xs"
  by (induction xs) simp_all

lemma trade_id_inj:
  assumes "trade_id s m = trade_id t n" and "0 < sint m" and "0 < sint n"
  shows "s = t \<and> m = n"
proof -
  have digits: "set (fmt_d k) \<subseteq> {c. c \<noteq> CHR ''-''}" if "0 < sint k" for k
    using that show_nat_chars by (auto simp: fmt_d_def)
  have strip: "dropWhile (\<lambda>c. c \<noteq> CHR ''-'') (rev (trade_id s k)) = CHR ''-'' # rev s"
    "takeWhile (\<lambda>c. c \<noteq> CHR ''-'') (rev (trade_id s k)) = rev (CHR ''T'' # fmt_d k)" if "0 < sint k" for s k
  proof -
    have e: "rev (trade_id s k) = rev (CHR ''T'' # fmt_d k) @ CHR ''-'' # rev s" by (simp add: trade_id_def)
    have "\<forall>c\<in>set (rev (CHR ''T'' # fmt_d k)). c \<noteq> CHR ''-''" using digits [OF that] by auto
    then show "dropWhile (\<lambda>c. c \<noteq> CHR ''-'') (rev (trade_id s k)) = CHR ''-'' # rev s"
      "takeWhile (\<lambda>c. c \<noteq> CHR ''-'') (rev (trade_id s k)) = rev (CHR ''T'' # fmt_d k)"
      unfolding e by (simp_all only: cut_at)
  qed
  have "rev s = rev t" using strip(1) [OF assms(2), of s] strip(1) [OF assms(3), of t] assms(1) by simp
  moreover have "fmt_d m = fmt_d n" using strip(2) [OF assms(2), of s] strip(2) [OF assms(3), of t] assms(1) by simp
  ultimately show ?thesis by (simp add: fmt_d_inj)
qed

text \<open>The row a published trade should have.\<close>

definition row_of :: "PbTrade \<Rightarrow> TradeRow" where
  "row_of t = \<lparr>row_trade_id = ptr_TradeId t, row_symbol = ptr_Symbol t, row_price_ticks = ptr_PriceTicks t,
     row_quantity = ptr_Quantity t, row_buy_order_id = ptr_BuyOrderId t, row_sell_order_id = ptr_SellOrderId t,
     row_ts_millis = ptr_TsMillis t\<rparr>"

lemma row_of_toProto [simp]: "row_of (toProto t) = rowFor t"
  by (simp add: row_of_def toProto_def rowFor_def)

definition ledger_follows :: "JService \<Rightarrow> bool" where
  "ledger_follows sv \<longleftrightarrow>
     (\<forall>row\<in>set (db_trades (sv_db sv)). \<exists>k. row_trade_id row = trade_id (row_symbol row) k \<and> 0 < sint k \<and>
        sint k \<le> sint (jb_tradeSeq (the_book (sv_engine sv) (row_symbol row)))) \<and>
     (\<forall>(key, t)\<in>set (sv_topic sv). key = ptr_Symbol t \<and> row_of t \<in> set (db_trades (sv_db sv)))"

lemma recordAll_fresh:
  assumes "distinct (map jt_tradeId ts)" and "\<forall>t\<in>set ts. jt_tradeId t \<notin> recorded_ids db" and "recordAll commits ts db = (err, db')"
  shows "set (db_trades db) \<subseteq> set (db_trades db') \<and> set (db_trades db') \<subseteq> set (db_trades db) \<union> rowFor ` set ts \<and>
    (err = None \<longrightarrow> rowFor ` set ts \<subseteq> set (db_trades db'))"
  using assms
proof (induction commits ts db rule: recordAll.induct)
  case (2 commits t ts db)
  obtain e1 db1 where r: "recordTrade commits t db = (e1, db1)" by (cases "recordTrade commits t db")
  show ?case
  proof (cases e1)
    case (Some x)
    have "db_trades db1 = db_trades db \<or> db_trades db1 = db_trades db @ [rowFor t]"
      using 2(3) r by (auto simp: recordTrade_def insertTrade_def split: if_splits sum.splits JCommit.splits)
    then show ?thesis using 2(4) r Some by auto
  next
    case None
    then have rows: "db_trades db1 = db_trades db @ [rowFor t]"
      using 2(3) r by (auto simp: recordTrade_def insertTrade_def split: if_splits sum.splits JCommit.splits)
    have "\<forall>t'\<in>set ts. jt_tradeId t' \<notin> recorded_ids db1"
    proof
      fix t'
      assume t': "t' \<in> set ts"
      then have "jt_tradeId t' \<noteq> jt_tradeId t" using 2(2) by (auto simp: image_iff)
      then show "jt_tradeId t' \<notin> recorded_ids db1" using 2(3) t' by (simp add: recorded_ids_def rows)
    qed
    then show ?thesis using 2(1) [OF r [symmetric] None] 2(2,4) r None by (auto simp: rows)
  qed
qed simp

lemma publish_some:
  "publishAll delivers ts topic = (err, topic') \<Longrightarrow> set topic' \<subseteq> set topic \<union> (\<lambda>t. (jt_symbol t, toProto t)) ` set ts"
proof (induction ts arbitrary: topic)
  case (Cons t ts)
  then show ?case by (cases "delivers t") (fastforce simp: publish_def)+
qed simp

lemma print_trades_symbol: "t \<in> set (print_trades symbol clock inc n fs) \<Longrightarrow> jt_symbol t = symbol"
  using print_trades_set by fastforce


text \<open>A call, other than a restart, keeps the ledger in step with the tape.\<close>

lemma submitOrder_follows:
  assumes ok: "service_sound (Suc n) sv" and fo: "ledger_follows sv"
  shows "ledger_follows (snd (submitOrder w req sv))"
proof (cases "good_request req")
  case False
  have es: "engine_sound (sv_engine sv)" using ok by (simp add: service_sound_def)
  show ?thesis using submitOrder_refused(1) [OF False es service_room [OF ok], of w] fo by (auto simp: ledger_follows_def)
next
  case True
  let ?e = "sv_engine sv" and ?sy = "pno_Symbol req"
  let ?n = "jb_tradeSeq (the_book ?e ?sy)"
  have es: "engine_sound ?e" and old: "0 \<le> sint ?n"
    using ok by (auto simp: service_sound_def tape_room_def)
  obtain fs r L where pl: "place (jtaker (jorder req ?e)) (jorder_id (je_sequence ?e + 1)) (pno_Quantity req) (jqueues sv ?sy) = (fs, r, L)"
    by (metis prod_cases3)
  obtain res sv' where sub: "submitOrder w req sv = (res, sv')" by (cases "submitOrder w req sv")
  note S = submitOrder_places [OF es service_room [OF ok] True pl sub]
  let ?ts = "print_trades ?sy (jw_clock w) (jorder req ?e) ?n fs"
  obtain b' where b': "the_book (sv_engine sv') = (the_book ?e)(?sy := b')" "jb_tradeSeq b' = ?n + of_nat (length fs)" using S(6) by blast
  have "service_sound n sv'" using submitOrder_sound [OF ok, of w req] sub by simp
  have fits: "sint ?n + int (length fs) < 2 ^ 63" using submitOrder_count [OF ok True pl] .
  have seq: "sint (?n + of_nat k) = sint ?n + int k" if "k \<le> length fs" for k
  proof -
    have "sint (of_nat k :: i64) = int k" using sint_i64_eq [of "int k"] fits old that by simp
    then show ?thesis using sint_i64_add [of ?n "of_nat k"] fits old that by simp
  qed
  have tid: "\<exists>k. jt_tradeId t = trade_id ?sy k \<and> sint ?n < sint k \<and> sint k \<le> sint (jb_tradeSeq b')" if t: "t \<in> set ?ts" for t
  proof -
    have "jt_tradeId t \<in> set (map jt_tradeId ?ts)" using t by simp
    then obtain k where k: "k < length fs" "jt_tradeId t = trade_id ?sy (?n + of_nat (Suc k))" unfolding print_trades_ids by auto
    then show ?thesis using seq [of "Suc k"] seq [of "length fs"] by (intro exI [of _ "?n + of_nat (Suc k)"]) (simp add: b'(2))
  qed
  have "inj_on (\<lambda>k. trade_id ?sy (?n + of_nat (Suc k))) {0..<length fs}"
  proof (rule inj_onI)
    fix j k
    assume jk: "j \<in> {0..<length fs}" "k \<in> {0..<length fs}" "trade_id ?sy (?n + of_nat (Suc j)) = trade_id ?sy (?n + of_nat (Suc k))"
    then have "?n + of_nat (Suc j) = ?n + of_nat (Suc k)" by (simp add: trade_id_def fmt_d_inj)
    then have "sint (?n + of_nat (Suc j)) = sint (?n + of_nat (Suc k))" by (rule arg_cong)
    then show "j = k" using seq [of "Suc j"] seq [of "Suc k"] jk(1,2) by simp
  qed
  then have dist: "distinct (map jt_tradeId ?ts)" unfolding print_trades_ids by (simp add: distinct_map)
  have new: "\<forall>t\<in>set ?ts. jt_tradeId t \<notin> recorded_ids (sv_db sv)"
  proof (intro ballI notI)
    fix t
    assume t: "t \<in> set ?ts" and "jt_tradeId t \<in> recorded_ids (sv_db sv)"
    then obtain row where row: "row \<in> set (db_trades (sv_db sv))" "row_trade_id row = jt_tradeId t" by (auto simp: recorded_ids_def)
    obtain k where k: "row_trade_id row = trade_id (row_symbol row) k" "0 < sint k" "sint k \<le> sint (jb_tradeSeq (the_book ?e (row_symbol row)))"
      using fo row(1) by (auto simp: ledger_follows_def)
    obtain k' where k': "jt_tradeId t = trade_id ?sy k'" "sint ?n < sint k'" using tid [OF t] by blast
    have "row_symbol row = ?sy \<and> k = k'" using trade_id_inj [of "row_symbol row" k ?sy k'] k k' row(2) old by simp
    then show False using k(3) k'(2) by simp
  qed
  obtain err db where ra: "recordAll (jw_commits w) ?ts (sv_db sv) = (err, db)" by (cases "recordAll (jw_commits w) ?ts (sv_db sv)")
  note R = recordAll_fresh [OF dist new ra]
  have db: "sv_db sv' = db" using S(5) ra by (cases err) auto
  have known: "\<exists>k. row_trade_id row = trade_id (row_symbol row) k \<and> 0 < sint k \<and> sint k \<le> sint (jb_tradeSeq (the_book (sv_engine sv') (row_symbol row)))"
    if row: "row \<in> set (db_trades db)" for row
  proof -
    have grow: "sint ?n \<le> sint (jb_tradeSeq b')" using seq [of "length fs"] by (simp add: b'(2))
    consider "row \<in> set (db_trades (sv_db sv))" | t where "t \<in> set ?ts" "row = rowFor t" using row R by auto
    then show ?thesis
    proof cases
      case 1
      then obtain k where "row_trade_id row = trade_id (row_symbol row) k" "0 < sint k" "sint k \<le> sint (jb_tradeSeq (the_book ?e (row_symbol row)))"
        using fo by (auto simp: ledger_follows_def)
      then show ?thesis using grow by (intro exI [of _ k]) (auto simp: b'(1))
    next
      case 2
      then have "row_symbol row = ?sy" "row_trade_id row = jt_tradeId t" using print_trades_symbol by (auto simp: rowFor_def)
      then show ?thesis using tid [OF 2(1)] old by (auto simp: b'(1))
    qed
  qed
  have topic: "key = ptr_Symbol t \<and> row_of t \<in> set (db_trades db)" if "(key, t) \<in> set (sv_topic sv')" for key t
  proof (cases err)
    case None
    obtain perr topic where pa: "publishAll (jw_delivers w) ?ts (sv_topic sv) = (perr, topic)"
      by (cases "publishAll (jw_delivers w) ?ts (sv_topic sv)")
    have "sv_topic sv' = topic" using S(5) ra None pa by (cases perr) auto
    then have "(key, t) \<in> set (sv_topic sv) \<union> (\<lambda>t. (jt_symbol t, toProto t)) ` set ?ts"
      using publish_some [OF pa] that by blast
    then show ?thesis using fo R None by (auto simp: ledger_follows_def toProto_def row_of_toProto [unfolded toProto_def])
  next
    case (Some x)
    then show ?thesis using S(5) ra that fo R by (auto simp: ledger_follows_def)
  qed
  show ?thesis using known topic sub by (auto simp: ledger_follows_def db)
qed

end
