(* ===== verification/LocalQueues.thy ===== *)
theory LocalQueues
  imports PriceTime EngineClient
begin

text \<open>
  The in-process engine keeps price-time queues: the slice of a symbol, read side by side in
  priority order, behaves as \<open>PriceTime\<close> says, and \<open>LocalEngine\<close> is a \<open>price_time_engine\<close>.
\<close>

section \<open>The two queues of a slice\<close>

definition side_of :: "bool \<Rightarrow> Side" where
  "side_of b = (if b then SideBuy else SideSell)"

definition lot_of :: "restingOrder \<Rightarrow> string lot" where
  "lot_of ro = \<lparr>lt_price = ro_price ro, lt_account = ro_accountID ro, lt_left = ro_remaining ro, lt_tag = ro_id ro\<rparr>"

definition side_queue :: "bool \<Rightarrow> restingOrder list \<Rightarrow> restingOrder list" where
  "side_queue b os = sort_key (prio (side_of b)) (filter (\<lambda>ro. ro_side ro = side_of b) os)"

definition local_queues :: "LocalEngine \<Rightarrow> string \<Rightarrow> string sides" where
  "local_queues e sy b = map lot_of (side_queue b (orders_of e sy))"

lemma lot_of_simps [simp]:
  "lt_price (lot_of ro) = ro_price ro" "lt_account (lot_of ro) = ro_accountID ro" "lt_left (lot_of ro) = ro_remaining ro"
  "lt_tag (lot_of ro) = ro_id ro" "lot_of (ro\<lparr>ro_remaining := q\<rparr>) = (lot_of ro)\<lparr>lt_left := q\<rparr>"
  by (simp_all add: lot_of_def)

lemma set_side_queue [simp]: "set (side_queue b os) = {ro \<in> set os. ro_side ro = side_of b}"
  by (simp add: side_queue_def)

lemma side_queue_mset: "mset (side_queue b os) = mset (filter (\<lambda>ro. ro_side ro = side_of b) os)"
  by (simp add: side_queue_def)

lemma sorted_side_queue: "sorted (map (prio (side_of b)) (side_queue b os))"
  by (simp add: side_queue_def)

lemma distinct_side_queue: "distinct (map ro_id os) \<Longrightarrow> distinct (map ro_id (side_queue b os))"
proof -
  have "mset (map ro_id (side_queue b os)) = mset (map ro_id (filter (\<lambda>ro. ro_side ro = side_of b) os))"
    by (simp only: mset_map side_queue_mset)
  moreover assume "distinct (map ro_id os)"
  then have "distinct (map ro_id (filter (\<lambda>ro. ro_side ro = side_of b) os))" by (simp add: distinct_map_filter)
  ultimately show ?thesis using mset_eq_imp_distinct_iff by blast
qed

lemma queue_of_side:
  "queue (side_of b) acct os = filter (\<lambda>ro. ro_accountID ro \<noteq> acct) (side_queue b os)"
  by (simp add: queue_def side_queue_def eligible_def [abs_def] filter_sort conj_commute)

lemma sort_key_map_same: "(\<And>x. k (g x) = k x) \<Longrightarrow> sort_key k (map g xs) = map g (sort_key k xs)"
proof -
  assume k: "\<And>x. k (g x) = k x"
  have "insort_key k (g x) (map g ys) = map g (insort_key k x ys)" for x ys by (induction ys) (simp_all add: k)
  then show ?thesis by (induction xs) simp_all
qed

lemma filter_map_swap: "(\<And>x. P (g x) = P x) \<Longrightarrow> filter P (filter Q (map g xs)) = filter Q (map g (filter P xs))"
  by (induction xs) auto

lemma sort_filter_map:
  assumes "\<And>x. k (g x) = k x" and "\<And>x. P (g x) = P x"
  shows "sort_key k (filter P (filter Q (map g xs))) = filter Q (map g (sort_key k (filter P xs)))"
proof -
  have "sort_key k (filter P (filter Q (map g xs))) = sort_key k (filter Q (map g (filter P xs)))"
    by (simp only: filter_map_swap [of P g, OF assms(2)])
  also have "\<dots> = filter Q (sort_key k (map g (filter P xs)))" by (rule filter_sort [symmetric])
  also have "\<dots> = filter Q (map g (sort_key k (filter P xs)))" by (simp only: sort_key_map_same [of k g, OF assms(1)])
  finally show ?thesis .
qed

lemma side_queue_deplete: "side_queue b (deplete fs os) = deplete fs (side_queue b os)"
proof -
  define g where "g ro = (case map_of (map (\<lambda>(m, f). (ro_id m, f)) fs) (ro_id ro) of None \<Rightarrow> ro
    | Some f \<Rightarrow> ro\<lparr>ro_remaining := ro_remaining ro - f\<rparr>)" for ro :: restingOrder
  have d: "deplete fs xs = filter (\<lambda>ro. ro_remaining ro \<noteq> 0) (map g xs)" for xs by (simp add: deplete_def g_def [abs_def])
  have k: "prio (side_of b) (g ro) = prio (side_of b) ro" and p: "(ro_side (g ro) = side_of b) = (ro_side ro = side_of b)" for ro
    by (simp_all add: g_def prio_def split: option.split)
  show ?thesis
    unfolding side_queue_def d by (rule sort_filter_map [of "prio (side_of b)" g "\<lambda>ro. ro_side ro = side_of b", OF k p])
qed

section \<open>The allocation is a sweep\<close>

lemma willing_crosses: "valid_side (no_Side o') \<Longrightarrow> valid_type (no_Type o') \<Longrightarrow> willing (taker_of o') p = crosses o' p"
  by (auto simp: willing_def taker_of_def crosses_def valid_side_def)

lemma deplete_own:
  "ro_id x \<notin> (\<lambda>(m, f). ro_id m) ` set fs \<Longrightarrow> ro_remaining x \<noteq> 0 \<Longrightarrow> deplete fs (x # xs) = x # deplete fs xs"
proof -
  assume "ro_id x \<notin> (\<lambda>(m, f). ro_id m) ` set fs" "ro_remaining x \<noteq> 0"
  moreover from this(1) have "map_of (map (\<lambda>(m, f). (ro_id m, f)) fs) (ro_id x) = None"
    by (force simp: map_of_eq_None_iff)
  ultimately show ?thesis by (simp add: deplete_def)
qed

lemma deplete_none: "(\<And>x. x \<in> set xs \<Longrightarrow> ro_id x \<notin> (\<lambda>(m, f). ro_id m) ` set fs \<and> ro_remaining x \<noteq> 0) \<Longrightarrow> deplete fs xs = xs"
  by (induction xs) (simp_all add: deplete_own, simp add: deplete_def)

lemma deplete_hit:
  assumes "ro_id x \<notin> ro_id ` set xs"
  shows "deplete ((x, f) # fs) (x # xs) =
    (if ro_remaining x - f = 0 then deplete fs xs else x\<lparr>ro_remaining := ro_remaining x - f\<rparr> # deplete fs xs)"
  using deplete_skip [OF assms, of f fs] by (simp add: deplete_def)

lemma allocate_ids: "(\<lambda>(m, f). ro_id m) ` set (allocate r ms) \<subseteq> ro_id ` set ms"
  using set_allocate by fastforce

lemma sweep_allocate:
  assumes "distinct (map ro_id xs)" and "\<forall>x\<in>set xs. ro_remaining x \<noteq> 0"
    and "sorted_wrt (\<lambda>a b. W (ro_price b) \<longrightarrow> W (ro_price a)) xs" and "\<And>p. willing t p = W p"
  defines "al \<equiv> \<lambda>r xs. allocate r (takeWhile (\<lambda>m. W (ro_price m)) (filter (\<lambda>ro. ro_accountID ro \<noteq> tk_account t) xs))"
  shows "sweep t r (map lot_of xs) =
    (map (map_prod lot_of id) (al r xs), r - (\<Sum>(m, f)\<leftarrow>al r xs. f), map lot_of (deplete (al r xs) xs))"
  using assms(1-3)
proof (induction xs arbitrary: r)
  case Nil
  then show ?case by (simp add: al_def deplete_def)
next
  case (Cons x xs)
  note IH = Cons.IH [OF _ _ _]
  have pre: "distinct (map ro_id xs)" "\<forall>x\<in>set xs. ro_remaining x \<noteq> 0"
    "sorted_wrt (\<lambda>a b. W (ro_price b) \<longrightarrow> W (ro_price a)) xs" using Cons.prems by simp_all
  have fresh: "ro_id x \<notin> ro_id ` set xs" and nz: "ro_remaining x \<noteq> 0" using Cons.prems by auto
  have out: "ro_id x \<notin> (\<lambda>(m, f). ro_id m) ` set (al r' xs)" for r'
  proof -
    have "ro_id ` set (takeWhile (\<lambda>m. W (ro_price m)) (filter (\<lambda>ro. ro_accountID ro \<noteq> tk_account t) xs)) \<subseteq> ro_id ` set xs"
      by (auto dest: set_takeWhileD)
    then show ?thesis using allocate_ids fresh unfolding al_def by blast
  qed
  have none: "deplete [] (x # xs) = x # xs" using Cons.prems(2) by (intro deplete_none) auto
  consider "0 <s r" "W (ro_price x)" "ro_accountID x = tk_account t" | "0 <s r" "W (ro_price x)" "ro_accountID x \<noteq> tk_account t"
    | "\<not> 0 <s r \<or> \<not> W (ro_price x)" by blast
  then show ?case
  proof cases
    case 1
    have "al r (x # xs) = al r xs" using 1 by (simp add: al_def)
    then show ?thesis using 1 Cons.IH [OF pre, of r] assms(4) deplete_own [OF out nz] by (simp add: Let_def)
  next
    case 2
    let ?f = "fill_size r x"
    have f: "take_from r (lot_of x) = ?f" by (simp add: take_from_def fill_size_def)
    have "al r (x # xs) = (x, ?f) # al (r - ?f) xs" using 2 by (simp add: al_def)
    then show ?thesis using 2 Cons.IH [OF pre, of "r - ?f"] assms(4) deplete_hit [OF fresh]
      by (simp add: f Let_def algebra_simps)
  next
    case 3
    have "\<forall>y\<in>set (x # xs). \<not> W (ro_price y)" if "\<not> W (ro_price x)" using that Cons.prems(3) by auto
    then have "takeWhile (\<lambda>m. W (ro_price m)) (filter (\<lambda>ro. ro_accountID ro \<noteq> tk_account t) (x # xs)) = []" if "\<not> W (ro_price x)"
      using that by (intro takeWhile_eq_Nil_iff [THEN iffD2]) (metis filter_is_subset hd_in_set subsetD)
    then have "al r (x # xs) = []" using 3 allocate_stop unfolding al_def by (cases "0 <s r") auto
    then show ?thesis using 3 assms(4) none by auto
  qed
qed

text \<open>The new resting order goes to the back of its price level.\<close>

lemma enqueue_insort:
  assumes "\<And>y. y \<in> set ys \<Longrightarrow> sint (ro_seq y) < sint (ro_seq x)"
  shows "map lot_of (insort_key (prio (side_of b)) x ys) = enqueue b (lot_of x) (map lot_of ys)"
  using assms
proof (induction ys)
  case (Cons y ys)
  have "prio (side_of b) x \<le> prio (side_of b) y \<longleftrightarrow> ahead b (ro_price x) (ro_price y)"
    using Cons.prems [of y] by (auto simp: prio_def side_of_def ahead_def go_signed less_eq_prod_def)
  then show ?case using Cons by simp
qed simp

lemma side_queue_snoc:
  assumes "book_ok (os @ [x])"
  shows "map lot_of (side_queue b (os @ [x])) =
    (if ro_side x = side_of b then enqueue b (lot_of x) (map lot_of (side_queue b os)) else map lot_of (side_queue b os))"
proof (cases "ro_side x = side_of b")
  case True
  have "insort_key (prio (side_of b)) x (side_queue b os) = side_queue b (os @ [x])"
    unfolding side_queue_def
  proof (rule sorted_key_unique)
    show "inj_on (prio (side_of b)) (set (filter (\<lambda>ro. ro_side ro = side_of b) (os @ [x])))"
      using inj_on_prio [OF book_ok_seqs [OF assms]] by (rule inj_on_subset) auto
  qed (simp_all add: sorted_insort_key True)
  moreover have "sint (ro_seq y) < sint (ro_seq x)" if "y \<in> set (side_queue b os)" for y
    using that assms by (auto simp: book_ok_def sorted_wrt_append)
  ultimately show ?thesis using enqueue_insort [of "side_queue b os" x b] True by metis
next
  case False
  then show ?thesis by (simp add: side_queue_def)
qed

section \<open>Submitting\<close>

text \<open>What the engine keeps besides \<open>books_ok\<close>: only documented sides rest, and there are finitely many books.\<close>

definition local_state :: "nat \<Rightarrow> LocalEngine \<Rightarrow> bool" where
  "local_state n e \<longleftrightarrow> books_ok e \<and> counter_room n e \<and> finite (dom (le_books e)) \<and>
     (\<forall>s. \<forall>ro\<in>set (orders_of e s). valid_side (ro_side ro))"

definition local_issued :: "LocalEngine \<Rightarrow> string \<Rightarrow> bool" where
  "local_issued e i \<longleftrightarrow> (\<exists>n. i = order_id n \<and> sint n \<le> sint (le_orderID e))"

definition local_submits ::
  "LocalEngine \<Rightarrow> NewOrder \<Rightarrow> error + OrderAck \<Rightarrow> (i64 \<times> i64) list \<Rightarrow> LocalEngine \<Rightarrow> bool" where
  "local_submits e o' r ex e' \<longleftrightarrow> (\<exists>now. SubmitOrder e None o' now = (r, e')) \<and>
     ex = (case r of Inl err \<Rightarrow> [] | Inr ack \<Rightarrow> map (\<lambda>t. (tr_PriceTicks t, tr_Quantity t)) (ack_Trades ack))"

definition local_cancels :: "LocalEngine \<Rightarrow> CancelOrder \<Rightarrow> error + OrderAck \<Rightarrow> LocalEngine \<Rightarrow> bool" where
  "local_cancels e c r e' \<longleftrightarrow> (\<exists>syms. range_keys (le_books e) syms \<and> CancelOrder e None c syms = (r, e'))"

lemma documented_guards: "documented o' \<Longrightarrow> passes_guards o'"
  by (auto simp: documented_def passes_guards_def go_signed)

lemma executions_trades:
  "map (\<lambda>t. (tr_PriceTicks t, tr_Quantity t)) (trades_of oid o' now tid fs) = executions (map (map_prod lot_of id) fs)"
  by (induction oid o' now tid fs rule: trades_of.induct) (simp_all add: executions_def)

lemma sweep_local:
  assumes "book_ok (orders_of e (no_Symbol o'))" and "documented o'"
  defines "fs \<equiv> allocation o' (no_Quantity o') e"
  shows "sweep (taker_of o') (no_Quantity o') (local_queues e (no_Symbol o') (\<not> tk_buy (taker_of o'))) =
    (map (map_prod lot_of id) fs, leftover o' fs, map lot_of (side_queue (\<not> tk_buy (taker_of o')) (deplete fs (orders_of e (no_Symbol o')))))"
proof -
  let ?os = "orders_of e (no_Symbol o')" and ?t = "taker_of o'" and ?b = "\<not> tk_buy (taker_of o')"
  have want: "wanted (no_Side o') = side_of ?b" and acct: "tk_account ?t = no_AccountID o'"
    using assms(2) by (auto simp: documented_def valid_side_def wanted_def side_of_def taker_of_def)
  have W: "willing ?t p = crosses o' p" for p using assms(2) willing_crosses by (simp add: documented_def)
  let ?xs = "side_queue ?b ?os"
  have "sorted_wrt (\<lambda>a b. prio (side_of ?b) a \<le> prio (side_of ?b) b) ?xs"
    using sorted_side_queue [of ?b ?os] by (simp add: sorted_wrt_map)
  then have mono: "sorted_wrt (\<lambda>a b. crosses o' (ro_price b) \<longrightarrow> crosses o' (ro_price a)) ?xs"
    by (rule sorted_wrt_mono_rel [rotated])
      (use assms(2) crosses_monotone [of o'] in \<open>auto simp: want documented_def\<close>)
  have nz: "\<forall>x\<in>set ?xs. ro_remaining x \<noteq> 0" using book_ok_pos(1) [OF assms(1)] by fastforce
  have al: "allocate (no_Quantity o') (takeWhile (\<lambda>m. crosses o' (ro_price m)) (filter (\<lambda>ro. ro_accountID ro \<noteq> no_AccountID o') ?xs)) = fs"
    by (simp add: fs_def allocation_def reachable_queue_def want queue_of_side)
  show ?thesis
    using sweep_allocate [OF distinct_side_queue [OF book_ok_ids [OF assms(1)]] nz mono W, of "no_Quantity o'"] al
    by (simp add: local_queues_def leftover_def side_queue_deplete acct)
qed

lemma place_local:
  assumes ok: "books_ok e" and room: "counter_room 1 e" and doc: "documented o'" and sub: "SubmitOrder e None o' now = (r, e')"
  defines "fs \<equiv> allocation o' (no_Quantity o') e"
  shows "place (taker_of o') (order_id (le_orderID e + 1)) (no_Quantity o') (local_queues e (no_Symbol o')) =
    (map (map_prod lot_of id) fs, leftover o' fs, local_queues e' (no_Symbol o'))"
proof -
  let ?sy = "no_Symbol o'" and ?t = "taker_of o'" and ?os = "orders_of e (no_Symbol o')"
  have bk: "book_ok ?os" by (rule books_ok_book [OF ok])
  note sw = sweep_local [OF bk doc, folded fs_def]
  have e': "orders_of e' ?sy = deplete fs ?os @ resting_part e o' fs"
    using SubmitOrder_spec(2) [OF ok documented_guards [OF doc] fs_def [THEN meta_eq_to_obj_eq] sub] by (simp add: spec_books_def)
  have bk': "book_ok (orders_of e' ?sy)"
    using SubmitOrder_books(1) [OF ok room, of None o' now] sub books_ok_book by simp
  have own: "deplete fs (side_queue (tk_buy ?t) ?os) = side_queue (tk_buy ?t) ?os"
  proof (rule deplete_none)
    fix x assume x: "x \<in> set (side_queue (tk_buy ?t) ?os)"
    have "m \<in> set ?os \<and> ro_side m \<noteq> ro_side x" if "(m, f) \<in> set fs" for m f
      using allocation_facts(1,3) [OF bk that [unfolded fs_def]] x doc
      by (auto simp: documented_def valid_side_def wanted_def side_of_def taker_of_def split: if_splits)
    moreover have "distinct (map ro_id ?os)" "x \<in> set ?os" using book_ok_ids [OF bk] x by auto
    ultimately show "ro_id x \<notin> (\<lambda>(m, f). ro_id m) ` set fs \<and> ro_remaining x \<noteq> 0"
      using book_ok_pos(1) [OF bk, of x] by (fastforce simp: distinct_map dest: inj_onD)
  qed
  have q: "local_queues e' ?sy b = map lot_of (side_queue b (deplete fs ?os @ resting_part e o' fs))" for b
    by (simp add: local_queues_def e')
  have bd: "book_ok (deplete fs ?os)"
    using bk' e' book_ok_filter [OF bk', of "\<lambda>ro. True"] by (auto simp: book_ok_def sorted_wrt_append)
  have side: "no_Side o' = side_of b \<longleftrightarrow> b = tk_buy ?t" for b
    using doc by (auto simp: documented_def valid_side_def side_of_def taker_of_def)
  have mk: "tk_market ?t \<longleftrightarrow> no_Type o' \<noteq> OrderTypeLimit"
    using doc by (auto simp: documented_def valid_type_def taker_of_def)
  let ?x = "\<lparr>ro_id = order_id (le_orderID e + 1), ro_accountID = no_AccountID o', ro_side = no_Side o',
      ro_price = no_PriceTicks o', ro_remaining = leftover o' fs, ro_seq = le_seq e + 1\<rparr>"
  let ?lot = "\<lparr>lt_price = tk_price ?t, lt_account = tk_account ?t, lt_left = leftover o' fs, lt_tag = order_id (le_orderID e + 1)\<rparr>"
  have lot: "lot_of ?x = ?lot" by (simp add: lot_of_def taker_of_def)
  have queues: "local_queues e' ?sy b = (if rests o' fs \<and> b = tk_buy ?t
      then enqueue b ?lot (map lot_of (side_queue b (deplete fs ?os))) else map lot_of (side_queue b (deplete fs ?os)))" for b
  proof (cases "rests o' fs")
    case True
    then have "resting_part e o' fs = [?x]" by (simp add: resting_part_def)
    then show ?thesis
      using side_queue_snoc [of "deplete fs ?os" ?x b] bk' True side [of b] unfolding q e' lot by simp
  next
    case False
    then show ?thesis by (simp add: q resting_part_def)
  qed
  show ?thesis
    unfolding place_def sw Let_def prod.case
    by (auto simp: queues fun_eq_iff rests_def mk local_queues_def [of e] side_queue_deplete own)
qed

lemma placed_status_local:
  assumes "documented o'"
  shows "statusFor (no_Type o') (no_Quantity o') (no_Quantity o' - left) left = placed_status (taker_of o') (no_Quantity o') left"
  using assms by (auto simp: statusFor_def placed_status_def taker_of_def documented_def valid_type_def go_signed)

section \<open>The books a call leaves\<close>

lemma SubmitOrder_finite:
  assumes "finite (dom (le_books e))"
  shows "finite (dom (le_books (snd (SubmitOrder e ctxErr o' now))))"
proof -
  have counter: "le_books (snd (nextOrderID e)) = le_books e" for e by (simp add: nextOrderID_def)
  have bk: "finite (dom (le_books e)) \<Longrightarrow> finite (dom (le_books (snd (book e s))))" for e s
    by (simp add: book_def Let_def split: option.split)
  have so: "finite (dom (le_books e)) \<Longrightarrow> finite (dom (le_books (set_orders e s os)))" for e s os
    by (simp add: set_orders_def)
  have fill: "finite (dom (le_books e)) \<Longrightarrow> finite (dom (le_books (snd (matchFill oid o' now j m f e))))" for oid j m f e
    by (simp add: matchFill_def Let_def nextTradeID_def so split: prod.split)
  have loop: "finite (dom (le_books e)) \<Longrightarrow> matchLoop oid o' now r ts e = (r', ts', e') \<Longrightarrow> finite (dom (le_books e'))"
    for oid r ts e r' ts' e'
    using matchLoop_rule [where P = "\<lambda>r ts e. finite (dom (le_books e))" and o' = o' and oid = oid and now = now] fill by blast
  have locked: "finite (dom (le_books (snd (submitLocked oid o' now e))))" if fin: "finite (dom (le_books e))" for oid e
  proof -
    obtain r ts e1 where l: "matchLoop oid o' now (no_Quantity o') [] (snd (book e (no_Symbol o'))) = (r, ts, e1)" by (metis prod_cases3)
    have "finite (dom (le_books e1))" by (rule loop [OF bk [OF fin] l])
    then show ?thesis using so [of "e1\<lparr>le_seq := le_seq e1 + 1\<rparr>"] by (simp add: submitLocked_def l nextSeq_def case_prod_beta Let_def)
  qed
  show ?thesis
    using assms locked counter
    by (cases rule: SubmitOrder_cases [where ctxErr = ctxErr and o' = o'])
      (simp_all add: SubmitOrder_err SubmitOrder_refused SubmitOrder_locked)
qed

lemma CancelOrder_finite: "finite (dom (le_books e)) \<Longrightarrow> finite (dom (le_books (snd (CancelOrder e None c syms))))"
  using cancelScan_engine [of c e syms] by (auto simp: CancelOrder_def set_orders_def split: prod.split)

lemma withdraw_local:
  assumes "\<And>t. orders_of e' t = filter (\<lambda>r. ro_id r \<noteq> i) (orders_of e t)"
  shows "local_queues e' sy = withdraw i (local_queues e sy)"
proof
  fix b
  have "side_queue b (orders_of e' sy) = filter (\<lambda>r. ro_id r \<noteq> i) (side_queue b (orders_of e sy))"
    by (simp add: assms side_queue_def filter_sort conj_commute)
  then show "local_queues e' sy b = withdraw i (local_queues e sy) b"
    by (simp add: local_queues_def withdraw_def filter_map comp_def)
qed

lemma local_queuesE:
  assumes "x \<in> set (local_queues e sy b)"
  obtains ro where "ro \<in> set (orders_of e sy)" "x = lot_of ro"
  using assms by (auto simp: local_queues_def)

lemma local_in_queues:
  assumes "local_state n e" and "ro \<in> set (orders_of e sy)"
  obtains b where "lot_of ro \<in> set (local_queues e sy b)"
proof (rule that [of "ro_side ro = SideBuy"])
  have "valid_side (ro_side ro)" using assms by (simp add: local_state_def)
  then show "lot_of ro \<in> set (local_queues e sy (ro_side ro = SideBuy))"
    using assms(2) by (auto simp: local_queues_def valid_side_def side_of_def)
qed

lemma withdraw_absent: "(\<And>b x. x \<in> set (L b) \<Longrightarrow> lt_tag x \<noteq> i) \<Longrightarrow> withdraw i L = L"
  by (auto simp: withdraw_def fun_eq_iff filter_id_conv)

section \<open>The engine serves its queues\<close>

lemma local_submit_law:
  assumes st: "local_state (Suc n) e" and doc: "documented o'" and sub: "local_submits e o' r ex e'"
  shows "\<exists>ack fs left L. r = Inr ack \<and>
    place (taker_of o') (ack_OrderID ack) (no_Quantity o') (local_queues e (no_Symbol o')) = (fs, left, L) \<and>
    local_queues e' = (local_queues e)(no_Symbol o' := L) \<and>
    ack_Status ack = placed_status (taker_of o') (no_Quantity o') left \<and>
    ack_FilledQuantity ack = no_Quantity o' - left \<and> ex = executions fs \<and>
    local_state n e' \<and> ack_OrderID ack \<noteq> '''' \<and> \<not> local_issued e (ack_OrderID ack) \<and> local_issued e' (ack_OrderID ack)"
    (is ?law) and "local_issued e i \<Longrightarrow> local_issued e' i"
proof -
  obtain now where now: "SubmitOrder e None o' now = (r, e')"
      "ex = (case r of Inl err \<Rightarrow> [] | Inr ack \<Rightarrow> map (\<lambda>t. (tr_PriceTicks t, tr_Quantity t)) (ack_Trades ack))"
    using sub by (auto simp: local_submits_def)
  define fs where "fs = allocation o' (no_Quantity o') e"
  have ok: "books_ok e" and room: "counter_room (Suc n) e" and fin: "finite (dom (le_books e))"
    and valid: "\<forall>s. \<forall>ro\<in>set (orders_of e s). valid_side (ro_side ro)"
    using st by (simp_all add: local_state_def)
  have room1: "counter_room 1 e" by (rule counter_room_le [OF room]) simp
  note guards = documented_guards [OF doc]
  note spec = SubmitOrder_spec [OF ok guards fs_def now(1)]
  have pl: "place (taker_of o') (order_id (le_orderID e + 1)) (no_Quantity o') (local_queues e (no_Symbol o')) =
      (map (map_prod lot_of id) fs, leftover o' fs, local_queues e' (no_Symbol o'))"
    unfolding fs_def by (rule place_local [OF ok room1 doc now(1)])
  have sum: "(\<Sum>(m, f)\<leftarrow>fs. f) = no_Quantity o' - leftover o' fs" by (simp add: leftover_def)
  have "orders_of e' t = orders_of e t" if "t \<noteq> no_Symbol o'" for t using spec(2) that by (simp add: spec_books_def)
  then have others: "local_queues e' = (local_queues e)(no_Symbol o' := local_queues e' (no_Symbol o'))"
    by (auto simp: local_queues_def fun_eq_iff)
  have next_id: "sint (le_orderID e + 1) = sint (le_orderID e) + 1" by (rule counter_next) (use room in \<open>simp add: counter_room_def\<close>)
  have books: "books_ok e'" "draws 1 e e'" using SubmitOrder_books [OF ok room1, of None o' now] now(1) by simp_all
  have sides: "valid_side (ro_side ro)" if "ro \<in> set (orders_of e' s)" for ro s
  proof -
    have "ro \<in> set (deplete fs (orders_of e s)) \<union> set (resting_part e o' fs) \<union> set (orders_of e s)"
      using that spec(2) by (auto simp: spec_books_def split: if_splits)
    then show ?thesis
      using valid doc by (auto simp: deplete_def resting_part_def documented_def split: if_splits option.splits)
  qed
  have state: "local_state n e'"
    using books draws_room [OF books(2), of n] room SubmitOrder_finite [OF fin, of None o' now] now(1) sides
    by (simp add: local_state_def)
  have ex: "ex = executions (map (map_prod lot_of id) fs)"
    using now(2) spec(1) by (simp add: spec_ack_def executions_trades)
  have ack: "r = Inr (spec_ack e o' now fs)" "ack_OrderID (spec_ack e o' now fs) = order_id (le_orderID e + 1)"
    "ack_Status (spec_ack e o' now fs) = placed_status (taker_of o') (no_Quantity o') (leftover o' fs)"
    "ack_FilledQuantity (spec_ack e o' now fs) = no_Quantity o' - leftover o' fs"
    using spec(1) placed_status_local [OF doc] by (simp_all add: spec_ack_def sum)
  show ?law
    by (rule exI [of _ "spec_ack e o' now fs"], rule exI [of _ "map (map_prod lot_of id) fs"], rule exI [of _ "leftover o' fs"],
      rule exI [of _ "local_queues e' (no_Symbol o')"])
      (use pl others ack ex state next_id spec(5) in \<open>simp add: local_issued_def\<close>)
  show "local_issued e i \<Longrightarrow> local_issued e' i"
    using spec(5) next_id by (auto simp: local_issued_def intro: order_trans)
qed

lemma local_cancel_law:
  assumes st: "local_state n e" and i: "co_OrderID c \<noteq> []"
    and own: "\<And>sy b x. x \<in> set (local_queues e sy b) \<Longrightarrow> lt_tag x = co_OrderID c \<Longrightarrow> sy = co_Symbol c \<and> lt_account x = co_AccountID c"
    and can: "local_cancels e c r e'"
  shows "local_queues e' = (local_queues e)(co_Symbol c := withdraw (co_OrderID c) (local_queues e (co_Symbol c))) \<and> local_state n e' \<and>
    (\<exists>ack. r = Inr ack \<and> ack_FilledQuantity ack = 0 \<and>
      ack_Status ack = (if \<exists>b. co_OrderID c \<in> lt_tag ` set (local_queues e (co_Symbol c) b) then StatusCancelled else StatusRejected))"
proof -
  obtain syms where c: "range_keys (le_books e) syms" "CancelOrder e None c syms = (r, e')" using can by (auto simp: local_cancels_def)
  have ok: "books_ok e" using st by (simp add: local_state_def)
  have absent: "withdraw (co_OrderID c) (local_queues e sy) = local_queues e sy" if "sy \<noteq> co_Symbol c" for sy
    using own that by (intro withdraw_absent) blast
  show ?thesis
  proof (cases "\<exists>s. co_OrderID c \<in> ro_id ` set (orders_of e s)")
    case True
    then obtain s ro where ro: "ro \<in> set (orders_of e s)" "ro_id ro = co_OrderID c" by auto
    obtain b where b: "lot_of ro \<in> set (local_queues e s b)" using local_in_queues [OF st ro(1)] .
    have mine: "s = co_Symbol c" "ro_accountID ro = co_AccountID c" using own [OF b] ro(2) by simp_all
    then have "may_cancel c ro" by (simp add: may_cancel_def)
    note f = CancelOrder_found [OF ok c(1) i ro this]
    have shrink: "orders_of e' t = filter (\<lambda>r. ro_id r \<noteq> co_OrderID c) (orders_of e t)" for t using f(2) [of t] c(2) by simp
    have "local_queues e' sy = withdraw (co_OrderID c) (local_queues e sy)" for sy by (rule withdraw_local [OF shrink])
    then have q: "local_queues e' = (local_queues e)(co_Symbol c := withdraw (co_OrderID c) (local_queues e (co_Symbol c)))"
      using absent by (auto simp: fun_eq_iff)
    have "local_state n e'"
      using CancelOrder_books [OF ok, of None c syms] draws_none_room CancelOrder_finite [of e c syms] st c(2) shrink
      by (auto simp: local_state_def)
    moreover have "co_OrderID c \<in> lt_tag ` set (local_queues e (co_Symbol c) b)"
      using b mine ro(2) by (force simp: image_iff)
    ultimately show ?thesis using q f(1) c(2) by (auto simp: cancel_answer_def ack_zero_def)
  next
    case False
    then have "CancelOrder e None c syms = (Inr (cancel_answer c StatusRejected ''order not found''), e)"
      using i by (intro CancelOrder_absent) auto
    moreover have none: "lt_tag x \<noteq> co_OrderID c" if "x \<in> set (local_queues e sy b)" for x sy b
      using False that by (elim local_queuesE) (metis imageI lot_of_simps(4))
    then have "withdraw (co_OrderID c) (local_queues e sy) = local_queues e sy" for sy by (intro withdraw_absent) blast
    ultimately show ?thesis using c(2) st none by (force simp: cancel_answer_def ack_zero_def)
  qed
qed

lemma CancelOrder_ids: "le_orderID (snd (CancelOrder e ctxErr c syms)) = le_orderID e"
  using cancelScan_engine [of c e syms]
  by (auto simp: CancelOrder_def split: option.split prod.split)

interpretation local_engine: price_time_engine local_submits local_cancels local_queues local_state documented local_issued
proof (unfold_locales, goal_cases)
  case (1 n e o')
  show ?case unfolding local_submits_def by (metis prod.exhaust)
next
  case (2 n e o' r ex e')
  then show ?case by (rule local_submit_law(1))
next
  case (3 n e o' r ex e' i)
  then show ?case by (intro local_submit_law(2) [of n e o' r ex e'])
next
  case (4 n e c)
  then have "finite (dom (le_books e))" by (simp add: local_state_def)
  from finite_distinct_list [OF this] obtain syms where "range_keys (le_books e) syms" by (auto simp: range_keys_def)
  then show ?case unfolding local_cancels_def by (metis prod.exhaust)
next
  case (5 n e c r e')
  then show ?case by (intro local_cancel_law)
next
  case (6 n e c r e' i)
  then obtain syms where "CancelOrder e None c syms = (r, e')" by (auto simp: local_cancels_def)
  then have "le_orderID e' = le_orderID e" using CancelOrder_ids by (metis snd_conv)
  then show ?case using 6 by (simp add: local_issued_def)
next
  case (7 n e x s b)
  then show ?case by (elim local_queuesE) (auto simp: local_state_def books_ok_def ids_ok_def local_issued_def)
qed

end
