(* ===== verification/JavaProps.thy ===== *)
theory JavaProps
  imports JavaRuns LocalQueues EngineRun
begin

text \<open>
  The Java engine's properties, alone and next to the in-process one: what a client sees, what the
  ledger keeps, and what a failed database or a restart loses.
\<close>

section \<open>Where the engines start\<close>

definition away_from :: "string set \<Rightarrow> LocalEngine \<Rightarrow> bool" where
  "away_from S e \<longleftrightarrow> finite (dom (le_books e)) \<and> (\<forall>s. \<forall>ro\<in>set (orders_of e s). valid_side (ro_side ro)) \<and>
     (\<forall>s. s \<notin> S \<longrightarrow> orders_of e s = [])"

lemma rest_seed_away: "away_from S e \<Longrightarrow> symbol \<in> S \<Longrightarrow> valid_side side \<Longrightarrow> away_from S (rest_seed symbol side price qty e)"
  by (auto simp: away_from_def rest_seed_def nextOrderID_def set_orders_def orders_of_def split: option.splits if_splits)

lemma seedPairs_away: "away_from S e \<Longrightarrow> symbol \<in> S \<Longrightarrow> away_from S (foldl (seedPair symbol) e is)"
  by (induction "is" arbitrary: e) (simp_all add: seedPair_rests rest_seed_away valid_side_def)

lemma book_dom: "dom (le_books (snd (book e s))) = insert s (dom (le_books e))"
  by (auto simp: book_def Let_def split: option.split)

lemma seedBooks_away: "away_from S e \<Longrightarrow> set syms \<subseteq> S \<Longrightarrow> away_from S (foldl seedBook e syms)"
proof (induction syms arbitrary: e)
  case (Cons s syms)
  have "away_from S (snd (book e s))"
    using Cons.prems(1) book_dom [of e s] by (simp add: away_from_def)
  then have "away_from S (seedBook e s)" using Cons.prems(2) unfolding seedBook_def by (intro seedPairs_away) auto
  then show ?case using Cons by simp
qed simp

lemma NewLocalEngine_away: "away_from (set seeds) (NewLocalEngine seeds)"
  unfolding NewLocalEngine_def by (intro seedBooks_away) (simp_all add: away_from_def empty_engine_def orders_of_def)

lemma local_start:
  assumes "10 * int (length seeds) + int n < 2 ^ 63"
  shows "local_state n (NewLocalEngine seeds)" and "local_engine.follows (- set seeds) [] (\<lambda>sy b. []) (NewLocalEngine seeds)"
proof -
  have "engine_inv n 0 (NewLocalEngine seeds)" by (rule engine_inv_new [OF assms])
  then show "local_state n (NewLocalEngine seeds)"
    using NewLocalEngine_away [of seeds] by (auto simp: local_state_def away_from_def engine_inv_def)
  show "local_engine.follows (- set seeds) [] (\<lambda>sy b. []) (NewLocalEngine seeds)"
    using NewLocalEngine_away [of seeds]
    by (auto simp: local_engine.follows_def local_queues_def away_from_def side_queue_def)
qed

lemma java_start:
  assumes "int n < 2 ^ 63"
  shows "java_ok n (newService depth db topic)" and "java_engine.follows S [] (\<lambda>sy b. []) (newService depth db topic)"
  using assms new_engine_sound(1)
  by (simp_all add: java_ok_def java_engine.follows_def sequence_room_def) (simp_all add: newService_def new_counters)

lemma java_sees:
  assumes "\<forall>o'\<in>set (placed_orders cs). modest o'" and "int (length (placed_orders cs)) < 2 ^ 63"
  shows "client_run (java_submits calm) java_cancels (newService depth db topic) [] cs outs \<longleftrightarrow> outs = spec_client cs [] (\<lambda>sy b. [])"
  using java_engine.client_sees_the_queues [OF java_start(2) [OF assms(2), where S = UNIV] java_start(1) [OF assms(2)]] assms(1)
  by simp

section \<open>Two engines, one exchange\<close>

text \<open>C15: over the gRPC client, while the database commits every record and the broker takes every trade
  (\<open>calm\<close>), a client that places documented orders of at most \<open>2 ^ 31\<close> units and ticks (\<open>modest\<close>) and
  withdraws them on a fresh Java engine sees, for every order, the status and filled quantity that
  price-time queues give, and the executions they give on the tape, in order, and nothing else; and
  every sequence of such commands is served. (When a record fails the client sees something else,
  see C38; an order of no positive quantity is answered with an error.)
\<close>

theorem java_clients_see_price_time:
  assumes "\<forall>o'\<in>set (placed_orders cs). modest o'" and "int (length (placed_orders cs)) < 2 ^ 63"
  shows "client_run (java_submits calm) java_cancels (newService depth db topic) [] cs outs \<longleftrightarrow> outs = spec_client cs [] (\<lambda>sy b. [])"
  using assms by (rule java_sees)

text \<open>C16: on documented orders of at most \<open>2 ^ 31\<close> units and ticks (\<open>modest\<close>), and while the database
  commits every record and the broker takes every trade (\<open>calm\<close>), the in-process engine and the Java
  engine behind gRPC give a client that stays off the seeded symbols the same runs: each serves every
  sequence of commands, and every run of the client against one is a run against the other, with the
  same statuses, quantities and executions. (Outside of that they differ: on an order of no positive
  quantity, see \<open>engines_differ_on_bad_orders\<close>, and when a record fails, see C38.)
\<close>

theorem engines_agree:
  assumes "\<forall>o'\<in>set (placed_orders cs). modest o' \<and> no_Symbol o' \<notin> set seeds"
    and "10 * int (length seeds) + int (length (placed_orders cs)) < 2 ^ 63"
  shows "(\<exists>outs. client_run local_submits local_cancels (NewLocalEngine seeds) [] cs outs) \<and>
    (client_run local_submits local_cancels (NewLocalEngine seeds) [] cs outs \<longleftrightarrow>
     client_run (java_submits calm) java_cancels (newService depth db topic) [] cs outs)"
proof -
  note L = local_start [OF assms(2)]
  have "\<forall>o'\<in>set (placed_orders cs). documented o' \<and> no_Symbol o' \<in> - set seeds" using assms(1) by (simp add: modest_def)
  from local_engine.client_sees_the_queues [OF L(2,1) this]
  have "client_run local_submits local_cancels (NewLocalEngine seeds) [] cs outs' \<longleftrightarrow> outs' = spec_client cs [] (\<lambda>sy b. [])" for outs'
    by simp
  moreover have "int (length (placed_orders cs)) < 2 ^ 63" using assms(2) by simp
  then have "client_run (java_submits calm) java_cancels (newService depth db topic) [] cs outs \<longleftrightarrow> outs = spec_client cs [] (\<lambda>sy b. [])"
    using assms(1) by (intro java_sees) auto
  ultimately show ?thesis by blast
qed

text \<open>The in-process engine acknowledges an order of no positive quantity as rejected, the Java engine answers an error.\<close>

lemma engines_differ_on_bad_orders:
  assumes "no_Quantity o' \<le>s 0" and "delivers_calls render w now stub"
  shows "(\<exists>ack e'. SubmitOrder e None o' t = (Inr ack, e') \<and> ack_Status ack = StatusRejected) \<and>
    (\<exists>msg sv'. GRPCSubmitOrder stub (newService depth db topic) None o' = (Inl (render (INVALID_ARGUMENT, msg)), sv'))"
proof -
  have "\<not> passes_guards o'" using assms(1) by (simp add: passes_guards_def go_signed)
  then have "\<exists>ack e'. SubmitOrder e None o' t = (Inr ack, e') \<and> ack_Status ack = StatusRejected"
    by (simp add: SubmitOrder_refused ack_zero_def)
  moreover have "\<not> good_request (wireOrder o')" using assms(1) by (simp add: good_request_def wireOrder_def go_signed)
  then have "\<exists>msg sv'. submitOrder w (wireOrder o') (newService depth db topic) = (Inl (INVALID_ARGUMENT, msg), sv')"
    using submitOrder_refused(1) [of "wireOrder o'" "newService depth db topic" 0 w]
    by (auto simp: newService_def new_engine_sound sequence_room_def new_counters)
  then have "\<exists>msg sv'. GRPCSubmitOrder stub (newService depth db topic) None o' = (Inl (render (INVALID_ARGUMENT, msg)), sv')"
    using assms(2) by (auto simp: delivers_calls_def GRPCSubmitOrder_def reply_def)
  ultimately show ?thesis by blast
qed

section \<open>Books and ledger\<close>

text \<open>C40: after any calls and restarts the books of the Java engine are sound: each side in price order, no
  bid reaching an ask of another account, every order with something left, all ids different, and the
  index names exactly the resting orders, so cancels find them.
\<close>

theorem java_books_stay_sound:
  assumes "length rs < 2 ^ 62"
  shows "orderly (jqueues (jserves depth rs) sy) \<and>
    distinct (map jo_orderId (resting (the_book (sv_engine (jserves depth rs)) sy))) \<and>
    (contains i (the_book (sv_engine (jserves depth rs)) sy) \<longleftrightarrow> (\<exists>d. i \<in> lt_tag ` set (jqueues (jserves depth rs) sy d)))"
proof -
  let ?sv = "jserves depth rs"
  have ok: "service_sound 0 ?sv" using jserves_sound [of rs 0 depth] assms by simp
  have "book_sound (the_book (sv_engine ?sv) sy)" using ok the_book_sound(1) by (simp add: service_sound_def)
  then have "indexes (jb_index (the_book (sv_engine ?sv) sy)) (set (resting (the_book (sv_engine ?sv) sy)))"
    and "distinct (map jo_orderId (resting (the_book (sv_engine ?sv) sy)))" unfolding book_sound_def by blast+
  then show ?thesis
    using ok indexes_None [of "jb_index (the_book (sv_engine ?sv) sy)" _ i] tags_resting [of i "the_book (sv_engine ?sv) sy"]
    by (simp add: service_sound_def contains_def jqueues_def)
qed

text \<open>C17: whatever fails and however often the engine restarts, the ledger balances: a trade id has at most
  one row, every row has exactly the four postings of its price and quantity, every posting belongs to
  a row, and the signed deltas of a trade in an asset add up to nothing, exactly.
\<close>

theorem ledger_always_balances:
  assumes "length rs < 2 ^ 62"
  shows "distinct (map row_trade_id (db_trades (sv_db (jserves depth rs)))) \<and>
    (\<forall>row\<in>set (db_trades (sv_db (jserves depth rs))). \<exists>p.
      map snd (filter (\<lambda>(j, e). j = row_trade_id row) (db_ledger_entries (sv_db (jserves depth rs)))) = postings row p) \<and>
    fst ` set (db_ledger_entries (sv_db (jserves depth rs))) \<subseteq> recorded_ids (sv_db (jserves depth rs)) \<and>
    trade_total i asset (db_ledger_entries (sv_db (jserves depth rs))) = 0"
proof -
  have "db_sound (sv_db (jserves depth rs))" using jserves_sound [of rs 0 depth] assms by (simp add: service_sound_def)
  note D = db_sound_facts [OF this]
  show ?thesis using D(1-4) by (intro conjI) (auto simp del: map_map)
qed

lemma jserves_follows: "length rs < 2 ^ 62 \<Longrightarrow> Restart \<notin> set rs \<Longrightarrow> ledger_follows (jserves depth rs)"
proof (induction rs rule: rev_induct)
  case Nil
  show ?case by (simp add: jserves_def ledger_follows_def) (simp add: newService_def emptyDatabase_def)
next
  case (snoc r rs)
  have ok: "service_sound (Suc 0) (jserves depth rs)" using jserves_sound [of rs 1 depth] snoc.prems(1) by simp
  have fo: "ledger_follows (jserves depth rs)" using snoc by simp
  have step: "jserves depth (rs @ [r]) = jserve (jserves depth rs) r" by (simp add: jserves_def)
  show ?case
  proof (cases r)
    case (CallSubmit w req)
    show ?thesis unfolding step unfolding CallSubmit jserve.simps by (rule submitOrder_follows [OF ok fo])
  next
    case (CallCancel req)
    obtain res sv' where c: "cancelOrder req (jserves depth rs) = (res, sv')" by (cases "cancelOrder req (jserves depth rs)")
    have es: "engine_sound (sv_engine (jserves depth rs))" using ok by (simp add: service_sound_def)
    note C = cancelOrder_withdraws [OF es c]
    show ?thesis using fo c C(5,6,8) unfolding step unfolding CallCancel jserve.simps by (simp add: ledger_follows_def)
  next
    case (CallBook now req)
    obtain res sv' where g: "getBook now req (jserves depth rs) = (res, sv')" by (cases "getBook now req (jserves depth rs)")
    show ?thesis using fo g getBook_facts [OF g] unfolding step unfolding CallBook jserve.simps by (simp add: ledger_follows_def)
  next
    case Restart
    then show ?thesis using snoc.prems(2) by simp
  qed
qed

text \<open>C18: as long as the process lives, every trade on the topic is in the ledger under its id, with its
  symbol, price, quantity, orders and time, even when the database fails at times.
\<close>

theorem published_trades_are_recorded:
  assumes "length rs < 2 ^ 62" and "Restart \<notin> set rs" and "(key, t) \<in> set (sv_topic (jserves depth rs))"
  shows "key = ptr_Symbol t \<and> row_of t \<in> set (db_trades (sv_db (jserves depth rs)))"
  using jserves_follows [OF assms(1,2), of depth] assms(3) by (auto simp: ledger_follows_def)

section \<open>What is lost\<close>

text \<open>C37: trade ids start again with the process, the ledger's idempotence key does not: once the first trade
  of a symbol has been recorded, the first trade after a restart is acknowledged as filled and
  published, and leaves no trace in the ledger.
\<close>

theorem restart_loses_trades:
  assumes "trade_id sy 1 \<in> recorded_ids (sv_db sv)" and "calm w"
    and "good_request sell" "good_request buy" and "pno_Symbol sell = sy" "pno_Symbol buy = sy"
    and "pno_Side sell = Side_SELL" "pno_Side buy = Side_BUY" and "pno_Type sell = OrderType_LIMIT" "pno_Type buy = OrderType_LIMIT"
    and "pno_PriceTicks buy = pno_PriceTicks sell" "pno_Quantity buy = pno_Quantity sell" and "pno_AccountId sell \<noteq> pno_AccountId buy"
  defines "sv1 \<equiv> snd (submitOrder w sell (restart sv))"
  shows "fst (submitOrder w buy sv1) = Inr \<lparr>pack_OrderId = jorder_id 2, pack_Status = OrderStatus_FILLED,
      pack_FilledQuantity = pno_Quantity buy, pack_Reason = []\<rparr> \<and>
    sv_db (snd (submitOrder w buy sv1)) = sv_db sv \<and>
    (\<exists>t. sv_topic (snd (submitOrder w buy sv1)) = sv_topic sv @ [(sy, t)] \<and>
      ptr_PriceTicks t = pno_PriceTicks sell \<and> ptr_Quantity t = pno_Quantity sell)"
proof -
  let ?e0 = "sv_engine (restart sv)" and ?p = "pno_PriceTicks sell" and ?q = "pno_Quantity sell"
  have q: "0 <s ?q" using assms(3) by (simp add: good_request_def)
  have types: "toDomainType OrderType_LIMIT = LIMIT" "toDomainSide Side_SELL = SELL" "toDomainSide Side_BUY = BUY"
    by (simp_all add: toDomainType_def toDomainSide_def pb_type_defs pb_side_defs)
  have e0: "engine_sound ?e0" "sequence_room (Suc 1) ?e0" "je_sequence ?e0 = 0" "\<And>t. the_book ?e0 t = newJBook t" "sv_db (restart sv) = sv_db sv"
      "sv_topic (restart sv) = sv_topic sv"
    by (simp_all add: restart_def newService_def new_engine_sound sequence_room_def new_counters)
  have none: "jqueues (restart sv) t = (\<lambda>d. [])" for t by (simp add: restart_def)
  let ?lot = "\<lparr>lt_price = ?p, lt_account = pno_AccountId sell, lt_left = ?q, lt_tag = jorder_id 1\<rparr>"
  have "place (jtaker (jorder sell ?e0)) (jorder_id (je_sequence ?e0 + 1)) ?q (jqueues (restart sv) (pno_Symbol sell)) =
      ([], ?q, (\<lambda>d. [])(False := [?lot]))"
    using q assms(7,9) by (auto simp: place_def none types e0(3) jtaker_def Let_def)
  moreover obtain res1 where sub1: "submitOrder w sell (restart sv) = (res1, sv1)" unfolding sv1_def by (metis prod.collapse)
  ultimately have S1: "engine_sound (sv_engine sv1)" "sequence_room 1 (sv_engine sv1)" "je_sequence (sv_engine sv1) = 1"
      "jqueues sv1 sy = (\<lambda>d. [])(False := [?lot])" "sv_db sv1 = sv_db sv" "sv_topic sv1 = sv_topic sv"
      "jb_tradeSeq (the_book (sv_engine sv1) sy) = 0"
    using submitOrder_places [OF e0(1,2) assms(3) _ sub1] e0(3-6) assms(5) by (auto simp: new_counters)
  have pl: "place (jtaker (jorder buy (sv_engine sv1))) (jorder_id (je_sequence (sv_engine sv1) + 1)) (pno_Quantity buy) (jqueues sv1 (pno_Symbol buy)) =
      ([(?lot, ?q)], 0, \<lambda>d. [])"
    using q assms(6,8,10-13)
    by (auto simp: place_def S1(4) types jtaker_def willing_def take_from_def Let_def fun_eq_iff)
  obtain res2 sv2 where sub2: "submitOrder w buy sv1 = (res2, sv2)" by (cases "submitOrder w buy sv1")
  note S2 = submitOrder_places [OF S1(1) S1(2) [unfolded One_nat_def] assms(4) pl sub2]
  let ?ts = "print_trades sy (jw_clock w) (jorder buy (sv_engine sv1)) 0 [(?lot, ?q)]"
  obtain t where t: "?ts = [t]" "jt_tradeId t = trade_id sy 1" "jt_quantity t = ?q" "jt_priceTicks t = ?p" "jt_symbol t = sy"
    by (simp add: Let_def)
  have "recordAll (jw_commits w) ?ts (sv_db sv1) = (None, sv_db sv)"
    using t assms(1,2) q by (simp add: recordTrade_def insertTrade_def calm_def S1(5))
  then have "res2 = Inr \<lparr>pack_OrderId = jorder_id 2, pack_Status = OrderStatus_FILLED, pack_FilledQuantity = pno_Quantity buy, pack_Reason = []\<rparr>"
    "sv_db sv2 = sv_db sv" "sv_topic sv2 = sv_topic sv @ [(sy, toProto t)]"
    using S2(5) t assms(2,6) by (simp_all add: S1(3,6,7) jplaced_status_def toProtoStatus_def calm_def publish_def)
  then show ?thesis using sub2 t by (auto simp: toProto_def)
qed

text \<open>C38: if the database is down when an order trades, the client is told of an internal error, but the
  counterparties' orders have been used up all the same: nothing is recorded, nothing published, and
  the queues are those of a served order.
\<close>

theorem failed_ledger_loses_the_match:
  assumes "length rs + 1 < 2 ^ 62" and "good_request req" and "\<forall>t. jw_commits w t = RollsBack"
    and "place (jtaker (jorder req (sv_engine (jserves depth rs)))) (jorder_id (je_sequence (sv_engine (jserves depth rs)) + 1))
      (pno_Quantity req) (jqueues (jserves depth rs) (pno_Symbol req)) = (fs, r, L)" and "fs \<noteq> []"
  shows "fst (submitOrder w req (jserves depth rs)) = Inl (INTERNAL, ''engine error'') \<and>
    jqueues (snd (submitOrder w req (jserves depth rs))) = (jqueues (jserves depth rs))(pno_Symbol req := L) \<and>
    sv_db (snd (submitOrder w req (jserves depth rs))) = sv_db (jserves depth rs) \<and>
    sv_topic (snd (submitOrder w req (jserves depth rs))) = sv_topic (jserves depth rs)"
proof -
  let ?sv = "jserves depth rs"
  have ok: "service_sound (Suc 0) ?sv" using jserves_sound [of rs 1 depth] assms(1) by simp
  then have es: "engine_sound (sv_engine ?sv)" by (simp add: service_sound_def)
  obtain res sv' where sub: "submitOrder w req ?sv = (res, sv')" by (cases "submitOrder w req ?sv")
  note S = submitOrder_places [OF es service_room [OF ok] assms(2,4) sub]
  let ?ts = "print_trades (pno_Symbol req) (jw_clock w) (jorder req (sv_engine ?sv)) (jb_tradeSeq (the_book (sv_engine ?sv) (pno_Symbol req))) fs"
  obtain t ts where "?ts = t # ts" using assms(5) by (cases fs) (auto simp: Let_def)
  then have "\<exists>x. recordAll (jw_commits w) ?ts (sv_db ?sv) = (Some x, sv_db ?sv)"
    using assms(3) by (simp add: recordTrade_def split: sum.split)
  then show ?thesis using S(4,5) sub by auto
qed

text \<open>
  The same answer when \<open>send\<close> throws while a recorded trade is published: the ledger keeps the trades, the
  client is told of an internal error.
\<close>

lemma thrown_send_is_an_error:
  assumes "length rs + 1 < 2 ^ 62" and "good_request req" and "\<forall>t. jw_delivers w t = SendThrows"
    and "place (jtaker (jorder req (sv_engine (jserves depth rs)))) (jorder_id (je_sequence (sv_engine (jserves depth rs)) + 1))
      (pno_Quantity req) (jqueues (jserves depth rs) (pno_Symbol req)) = (fs, r, L)" and "fs \<noteq> []"
  shows "fst (submitOrder w req (jserves depth rs)) = Inl (INTERNAL, ''engine error'') \<and>
    jqueues (snd (submitOrder w req (jserves depth rs))) = (jqueues (jserves depth rs))(pno_Symbol req := L) \<and>
    sv_db (snd (submitOrder w req (jserves depth rs))) = snd (recordAll (jw_commits w) (print_trades (pno_Symbol req) (jw_clock w)
      (jorder req (sv_engine (jserves depth rs))) (jb_tradeSeq (the_book (sv_engine (jserves depth rs)) (pno_Symbol req))) fs)
      (sv_db (jserves depth rs)))"
proof -
  let ?sv = "jserves depth rs"
  have ok: "service_sound (Suc 0) ?sv" using jserves_sound [of rs 1 depth] assms(1) by simp
  then have es: "engine_sound (sv_engine ?sv)" by (simp add: service_sound_def)
  obtain res sv' where sub: "submitOrder w req ?sv = (res, sv')" by (cases "submitOrder w req ?sv")
  note S = submitOrder_places [OF es service_room [OF ok] assms(2,4) sub]
  let ?ts = "print_trades (pno_Symbol req) (jw_clock w) (jorder req (sv_engine ?sv)) (jb_tradeSeq (the_book (sv_engine ?sv) (pno_Symbol req))) fs"
  obtain err db where ra: "recordAll (jw_commits w) ?ts (sv_db ?sv) = (err, db)" by (cases "recordAll (jw_commits w) ?ts (sv_db ?sv)")
  obtain t ts where "?ts = t # ts" using assms(5) by (cases fs) (auto simp: Let_def)
  then have "publishAll (jw_delivers w) ?ts (sv_topic ?sv) = (Some ''send failed'', sv_topic ?sv)"
    using assms(3) by (simp add: publish_def)
  then show ?thesis using S(4,5) sub ra by (cases err) auto
qed

text \<open>C39: through the Java engine anybody cancels anybody's order: the account that the gateway sends along
  with a cancel is not looked at, so an order that rests is taken out whoever asks.
\<close>

theorem java_cancels_for_anyone:
  assumes "length rs < 2 ^ 62" and "x \<in> set (jqueues (jserves depth rs) sy d)" and "delivers_calls render w now stub"
  shows "\<exists>ack sv'. GRPCCancelOrder stub (jserves depth rs) None \<lparr>co_OrderID = lt_tag x, co_Symbol = sy, co_AccountID = anyone\<rparr> = (Inr ack, sv') \<and>
    ack_Status ack = StatusCancelled \<and> (\<forall>b. lt_tag x \<notin> lt_tag ` set (jqueues sv' sy b))"
proof -
  let ?sv = "jserves depth rs" and ?m = "\<lparr>pco_OrderId = lt_tag x, pco_Symbol = sy, pco_AccountId = anyone\<rparr>"
  have es: "engine_sound (sv_engine ?sv)" using jserves_sound [of rs 0 depth] assms(1) by (simp add: service_sound_def)
  obtain res sv' where c: "cancelOrder ?m ?sv = (res, sv')" by (cases "cancelOrder ?m ?sv")
  note C = cancelOrder_withdraws [OF es c]
  have "\<exists>b. lt_tag x \<in> lt_tag ` set (jqueues ?sv sy b)" using assms(2) by blast
  then obtain ack where "res = Inr ack" "pack_Status ack = OrderStatus_CANCELLED" using C(4) by auto
  then have "GRPCCancelOrder stub ?sv None \<lparr>co_OrderID = lt_tag x, co_Symbol = sy, co_AccountID = anyone\<rparr> = (Inr (fromProtoAck (Some ack)), sv')"
    "ack_Status (fromProtoAck (Some ack)) = StatusCancelled"
    using assms(3) c by (simp_all add: delivers_calls_def GRPCCancelOrder_def reply_def ack_simps fromProtoStatus_def pb_status_defs)
  moreover have "\<forall>b. lt_tag x \<notin> lt_tag ` set (jqueues sv' sy b)" by (auto simp: C(3) withdraw_def)
  ultimately show ?thesis by blast
qed


section \<open>Witnesses\<close>

definition calm_day :: JWorld where
  "calm_day = calm_world (\<lambda>n. n)"

definition outage :: JWorld where
  "outage = \<lparr>jw_clock = (\<lambda>n. n), jw_commits = (\<lambda>t. RollsBack), jw_delivers = (\<lambda>t. Sent)\<rparr>"

definition an_ask :: NewOrder where
  "an_ask = \<lparr>no_ClientOrderID = ''c1'', no_AccountID = ''ann'', no_Symbol = ''AAPL'', no_Side = SideSell,
     no_Type = OrderTypeLimit, no_PriceTicks = 100, no_Quantity = 10\<rparr>"

definition a_bid :: NewOrder where
  "a_bid = \<lparr>no_ClientOrderID = ''c2'', no_AccountID = ''bob'', no_Symbol = ''AAPL'', no_Side = SideBuy,
     no_Type = OrderTypeLimit, no_PriceTicks = 100, no_Quantity = 10\<rparr>"

definition quoting :: "JRequest list" where
  "quoting = [CallSubmit calm_day (wireOrder an_ask)]"

definition trading :: "JRequest list" where
  "trading = [CallSubmit calm_day (wireOrder an_ask), CallSubmit calm_day (wireOrder a_bid)]"

lemmas order_samples = an_ask_def a_bid_def documented_def modest_def valid_side_def valid_type_def
  OrderTypeLimit_def OrderTypeMarket_def SideBuy_def SideSell_def go_signed

lemma samples_modest: "modest an_ask" "modest a_bid"
  by (simp_all add: order_samples)

lemma trading_topic: "map fst (sv_topic (jserves 10 trading)) = [''AAPL'']"
  by code_simp

lemma trading_recorded: "trade_id ''AAPL'' 1 \<in> recorded_ids (sv_db (jserves 10 trading))"
  by code_simp

lemma quoting_queue: "jqueues (jserves 10 quoting) ''AAPL'' False =
    [\<lparr>lt_price = 100, lt_account = ''ann'', lt_left = 10, lt_tag = ''o1''\<rparr>]"
  by code_simp


lemma java_clients_see_price_time_witness:
  "client_run (java_submits calm) java_cancels (newService 10 emptyDatabase []) [] [Place an_ask, Place (a_bid\<lparr>no_Quantity := 4\<rparr>), Withdraw 0, Withdraw 1]
     [(Some (StatusAccepted, 0), []), (Some (StatusFilled, 4), [(100, 4)]), (Some (StatusCancelled, 0), []), (Some (StatusRejected, 0), [])]"
proof -
  let ?cs = "[Place an_ask, Place (a_bid\<lparr>no_Quantity := 4\<rparr>), Withdraw 0, Withdraw 1]"
  have "\<forall>o'\<in>set (placed_orders ?cs). modest o'" by (simp add: order_samples)
  moreover have "int (length (placed_orders ?cs)) < 2 ^ 63" by simp
  moreover have "[(Some (StatusAccepted, 0), []), (Some (StatusFilled, 4), [(100, 4)]), (Some (StatusCancelled, 0), []), (Some (StatusRejected, 0), [])]
      = spec_client ?cs [] (\<lambda>sy b. [])" by code_simp
  ultimately show ?thesis by (intro java_clients_see_price_time [THEN iffD2])
qed

lemma engines_agree_witness:
  "\<exists>outs. client_run local_submits local_cancels (NewLocalEngine [''MSFT'']) [] [Place an_ask, Place a_bid, Withdraw 0] outs \<and>
     client_run (java_submits calm) java_cancels (newService 10 emptyDatabase []) [] [Place an_ask, Place a_bid, Withdraw 0] outs"
proof -
  let ?cs = "[Place an_ask, Place a_bid, Withdraw 0]"
  have "\<forall>o'\<in>set (placed_orders ?cs). modest o' \<and> no_Symbol o' \<notin> set [''MSFT'']" by (simp add: order_samples)
  moreover have "10 * int (length [''MSFT'']) + int (length (placed_orders ?cs)) < 2 ^ 63" by simp
  ultimately show ?thesis using engines_agree [of ?cs "[''MSFT'']"] by blast
qed

lemma java_books_stay_sound_witness:
  "orderly (jqueues (jserves 10 quoting) ''AAPL'') \<and> contains ''o1'' (the_book (sv_engine (jserves 10 quoting)) ''AAPL'')"
proof -
  have "length quoting < 2 ^ 62" by (simp add: quoting_def)
  from java_books_stay_sound [OF this, of 10 "''AAPL''" "''o1''"] show ?thesis using quoting_queue by (auto intro: exI [of _ False])
qed

lemma ledger_always_balances_witness:
  "db_trades (sv_db (jserves 10 trading)) \<noteq> [] \<and> trade_total (trade_id ''AAPL'' 1) ''CASH'' (db_ledger_entries (sv_db (jserves 10 trading))) = 0"
proof -
  have "length trading < 2 ^ 62" by (simp add: trading_def)
  from ledger_always_balances [OF this, of 10 "trade_id ''AAPL'' 1" "''CASH''"] show ?thesis
    using trading_recorded by (auto simp: recorded_ids_def)
qed

lemma published_trades_are_recorded_witness:
  "\<exists>t. (''AAPL'', t) \<in> set (sv_topic (jserves 10 trading)) \<and> row_of t \<in> set (db_trades (sv_db (jserves 10 trading)))"
proof -
  obtain t where t: "(''AAPL'', t) \<in> set (sv_topic (jserves 10 trading))" using trading_topic by (cases "sv_topic (jserves 10 trading)") auto
  have "length trading < 2 ^ 62" "Restart \<notin> set trading" by (simp_all add: trading_def)
  from published_trades_are_recorded [OF this t] show ?thesis using t by blast
qed

lemma restart_loses_trades_witness:
  "sv_db (snd (submitOrder calm_day (wireOrder a_bid) (snd (submitOrder calm_day (wireOrder an_ask) (restart (jserves 10 trading)))))) =
     sv_db (jserves 10 trading)"
proof -
  have "calm calm_day" by (simp add: calm_day_def)
  moreover have "good_request (wireOrder an_ask)" "good_request (wireOrder a_bid)" using samples_modest by (simp_all add: wire_good modest_def)
  moreover have "pno_Symbol (wireOrder an_ask) = ''AAPL''" "pno_Symbol (wireOrder a_bid) = ''AAPL''"
      "pno_Side (wireOrder an_ask) = Side_SELL" "pno_Side (wireOrder a_bid) = Side_BUY"
      "pno_Type (wireOrder an_ask) = OrderType_LIMIT" "pno_Type (wireOrder a_bid) = OrderType_LIMIT"
      "pno_PriceTicks (wireOrder a_bid) = pno_PriceTicks (wireOrder an_ask)" "pno_Quantity (wireOrder a_bid) = pno_Quantity (wireOrder an_ask)"
      "pno_AccountId (wireOrder an_ask) \<noteq> pno_AccountId (wireOrder a_bid)"
    by (simp_all add: wireOrder_def toProtoSide_def toProtoType_def order_samples)
  ultimately show ?thesis using restart_loses_trades [OF trading_recorded] by blast
qed

lemma failed_ledger_loses_the_match_witness:
  "fst (submitOrder outage (wireOrder a_bid) (jserves 10 quoting)) = Inl (INTERNAL, ''engine error'') \<and>
   jqueues (snd (submitOrder outage (wireOrder a_bid) (jserves 10 quoting))) ''AAPL'' False = []"
proof -
  let ?sv = "jserves 10 quoting" and ?req = "wireOrder a_bid"
  let ?p = "place (jtaker (jorder ?req (sv_engine ?sv))) (jorder_id (je_sequence (sv_engine ?sv) + 1)) (pno_Quantity ?req) (jqueues ?sv (pno_Symbol ?req))"
  have some: "fst ?p \<noteq> []" "snd (snd ?p) False = []" "pno_Symbol ?req = ''AAPL''" by code_simp+
  have pre: "length quoting + 1 < 2 ^ 62" "good_request ?req" "\<forall>t. jw_commits outage t = RollsBack"
    using samples_modest by (simp_all add: quoting_def outage_def wire_good modest_def)
  have "?p = (fst ?p, fst (snd ?p), snd (snd ?p))" by simp
  from failed_ledger_loses_the_match [OF pre this some(1)] show ?thesis using some(2,3) by simp
qed

lemma java_cancels_for_anyone_witness:
  "\<exists>ack sv'. GRPCCancelOrder (loopback snd calm_day 0) (jserves 10 quoting) None
      \<lparr>co_OrderID = ''o1'', co_Symbol = ''AAPL'', co_AccountID = ''mallory''\<rparr> = (Inr ack, sv') \<and> ack_Status ack = StatusCancelled"
proof -
  have "length quoting < 2 ^ 62" by (simp add: quoting_def)
  moreover have "\<lparr>lt_price = 100, lt_account = ''ann'', lt_left = 10, lt_tag = ''o1''\<rparr> \<in> set (jqueues (jserves 10 quoting) ''AAPL'' False)"
    by (simp add: quoting_queue)
  ultimately show ?thesis using java_cancels_for_anyone [OF _ _ loopback_delivers] by fastforce
qed

end
