(* ===== verification/Spec2Isabelle.thy ===== *)
theory Spec2Isabelle
  imports ProcessProps Connection Lifecycle JavaProps
begin

text \<open>
  OpenExchange: a verification library for the Go gateway under \<open>src/gateway\<close> and the Java matching
  engine under \<open>src/engine\<close> it can be run with.

  The program. The gateway is the edge of a small exchange. Over HTTP it takes orders, cancels, book
  and account reads; it matches orders in process (\<open>internal/engine/local.go\<close>, with the ledger of
  \<open>ledger.go\<close>) or forwards them to a remote engine over gRPC; it publishes every processed order to
  Kafka, refuses accounts the risk service blocks, caches book snapshots in Redis and pushes trades
  and books to WebSocket dashboards. Accounts come from JWTs (password accounts in Postgres, or
  anonymous demo sessions). A simulator of bot accounts keeps the public demo alive. The remote engine
  has a book and a writer thread per symbol, records trades in a double-entry ledger in Postgres and
  publishes them to Kafka.

  How the parts interact. \<open>cmd/gateway/main.go\<close> reads the configuration and builds the parts;
  \<open>Server.Routes\<close> puts each handler behind the rate limiter and the JWT middleware, and CORS and
  security headers go around the router. A handler calls the engine through \<open>EngineClient\<close>, asks the
  risk gate, tells the order feed, and leaves the fan-out to a goroutine that calls the hub. The hub
  owns the WebSocket clients; the trade tape and the risk consumer feed it from Kafka.

  The theories, and what they model:

  \<^item> \<open>Prelude\<close>: 64-bit arithmetic, maps and their range orders, decimal printing, sorted slices.
  \<^item> \<open>EngineTypes\<close>: the records and string enums of \<open>internal/engine/engine.go\<close>; enums are strings, as in Go, so undocumented values exist.
  \<^item> \<open>OrderBook\<close>, \<open>LocalEngine\<close>: a symbol's slice of resting orders, \<open>bestOpposite\<close>, \<open>crosses\<close>,
    \<open>remove\<close>, the aggregation of \<open>GetBook\<close>; the engine record (books, accounts, last prices, three
    counters), \<open>SubmitOrder\<close> with its loop, \<open>CancelOrder\<close>, \<open>GetBook\<close>, seeding.
  \<^item> \<open>Ledger\<close>: \<open>ledger.go\<close>, \<open>applyFill\<close> and \<open>GetAccount\<close>, on \<open>int64\<close> words.
  \<^item> \<open>Proto\<close>, \<open>EngineClient\<close>: the wire messages as far as they are used, the gRPC client, the mock.
  \<^item> \<open>OrderFeed\<close>, \<open>Consumers\<close>, \<open>Hub\<close>, \<open>Cache\<close>: \<open>internal/orderfeed\<close>, \<open>risksignal\<close> and \<open>tape\<close>,
    \<open>ws/hub.go\<close>, \<open>cache/cache.go\<close>.
  \<^item> \<open>Http\<close>, \<open>Api\<close>: requests and responses; the handlers of \<open>internal/api/handlers.go\<close> over a record
    of dependencies (\<open>Server\<close>) and of mutable state (\<open>World\<close>).
  \<^item> \<open>Auth\<close>, \<open>Postgres\<close>: \<open>internal/auth\<close>, \<open>middleware/auth.go\<close> and \<open>api/auth_handlers.go\<close>.
  \<^item> \<open>Float64\<close>: Go's \<open>float64\<close> with its rounding. \<open>Middleware\<close>: \<open>middleware/ratelimit.go\<close> on it, and
    \<open>cors.go\<close>. \<open>Simulator\<close>: \<open>api/simulator.go\<close>.
  \<^item> \<open>Config\<close>, \<open>Wiring\<close>: \<open>internal/config\<close>; \<open>main\<close> up to listening, and the route table.
    \<open>Lifecycle\<close>: the rest of \<open>main\<close>, listening, signals, draining, the deferred calls.
  \<^item> \<open>Connection\<close>: the pumps of one WebSocket connection with their deadlines, pings and pongs, alone
    and together with the hub. In it and in \<open>Lifecycle\<close> a deadline holds no time back: time may
    pass to any instant, and what the code does when its deadline comes is a part of that step.
    \<open>Metrics\<close>: the instruments of \<open>internal/metrics\<close> and what the parts count. \<open>System\<close>, \<open>Process\<close>:
    everything at work, requests, fan-outs, ticks, both consumers and hub turns interleaved.
  \<^item> \<open>JavaBook\<close>: \<open>engine/model\<close>, \<open>engine/book/OrderBook.java\<close>; orders are objects with an identity.
    \<open>JavaEngine\<close>: \<open>MatchingEngine.java\<close>, \<open>engine/ledger\<close> with the tables of \<open>V1__ledger.sql\<close>,
    \<open>KafkaTradePublisher.java\<close>, \<open>MatchingEngineService.java\<close>. An exception is an \<open>Inl\<close>; a record may
    commit, roll back or commit unheard, a send may work, fail later or throw.

  State is passed explicitly. A \<open>sync.Mutex\<close> critical section, a handler, one turn of a goroutine's
  loop is one step; interleavings are sequences of such steps (\<open>EngineRun.run\<close>, \<open>Api.serve\<close>,
  \<open>Hub.hub_reach\<close>, \<open>Cache.cache_reach\<close>, \<open>SimulatorProps.sim_reach\<close>, \<open>System.system_reach\<close>,
  \<open>Process.process_reach\<close>, \<open>Connection.session_run\<close>, \<open>Lifecycle.life_run\<close>, \<open>JavaRuns.jserves\<close>).
  What the runtime chooses is
  an argument of the step: the clock, the error of a context, the order of a map range (any list of
  exactly the keys), random bytes. Errors and panics are values.

  What the lemmas show:

  \<^item> \<open>Matching\<close>, \<open>EngineLedger\<close>: the loop refines a reference, the greedy allocation along the
    price-time queue; \<open>SubmitOrder_spec\<close> gives answer, books, ledger, marks and counters of a call in
    its terms. \<open>TradeFacts\<close> derives fairness, priority and exact quantities from it.
  \<^item> \<open>EngineInvariants\<close>, \<open>EngineRun\<close>: well-formed books, uncrossed between accounts, with unique ids,
    and ledgers that reconcile, after every run of calls. \<open>LedgerBounds\<close>: the average price
    stays in the traded band.
  \<^item> \<open>CancelView\<close>: cancelling and the book view against references that do not range over maps.
  \<^item> \<open>EngineProps\<close>, \<open>LedgerProps\<close>: the engine's properties. \<open>ApiProps\<close>, \<open>GatewayProps\<close>: those of the
    handlers with everything behind them. \<open>AuthProps\<close>, \<open>Middleware\<close>, \<open>WiringProps\<close>,
    \<open>SimulatorProps\<close>, \<open>Connection\<close>, \<open>Lifecycle\<close>: those of the other parts and of the whole chain.
    \<open>ProcessProps\<close>: those of the running process, on top of what \<open>boot\<close> built, over a history of what
    it answered, consumed and fanned out.
  \<^item> \<open>PriceTime\<close>: what any matching engine promises, two queues per symbol that an order sweeps; a client
    cannot tell two engines with these queues apart. \<open>PriceTimeOrder\<close>: the queues stay in order and
    uncrossed. \<open>LocalQueues\<close> shows the promise of the in-process engine; \<open>JavaQueues\<close> (one submission is
    a sweep), \<open>JavaSound\<close> (a sound book stays sound), \<open>JavaService\<close> and \<open>JavaLink\<close> that of the Java
    engine seen through the gRPC client.
  \<^item> \<open>JavaRuns\<close>, \<open>JavaProps\<close>: over any calls, failures and restarts the Java books stay sound and the
    ledger balances; while database and broker work (\<open>calm\<close>) the two engines agree on documented
    orders of moderate size (\<open>modest\<close>), and they differ on an order of no positive quantity; what a
    failed database, a send that throws or a restart loses.

  Interfaces are locales, interpreted on the model: \<open>engine_client\<close> (by the in-process engine and the
  mock), \<open>publisher\<close> (Kafka and no-op), \<open>consumer_loop\<close> (risk consumer and tape), \<open>user_store\<close> (memory,
  and Postgres through \<open>users_table\<close>), \<open>double_entry\<close> (the ledger), \<open>price_time_engine\<close> (by both engines).

  Bounds. Integers have Go's width and wrap. Where a property needs that they do not, it says so:
  \<open>counter_room\<close> and \<open>run_room\<close> ask that the counters, which grow by at most one per call (ten per
  seeded symbol), and the total of the quantities asked for stay below \<open>2 ^ 63\<close>. The Java runs are
  shorter than \<open>2 ^ 62\<close> calls (a call adds at most two trades); the engines agree on \<open>modest\<close> orders,
  whose prices and quantities are at most \<open>2 ^ 31\<close>, since beyond that the Java ledger may refuse a
  trade as an overflow. The rate limiter's bound has the rounding of \<open>float64\<close> in it, and
  \<open>rounding_admits_one_more\<close> shows that without that slack it would be false.
  No fuel is used: the matching loops and \<open>itoa\<close> have termination proofs, all other recursion is
  structural.

  Parameters, with what is relied on as named laws where anything is: the Redis client
  (\<open>redis_laws\<close>), the JSON codecs (\<open>faithful\<close>), protobuf, the Kafka connections, the gRPC stub
  (\<open>delivers_calls\<close> where it leads to the Java service), JWT
  (\<open>jwt_laws\<close>, and \<open>signs\<close> where it may not fail), bcrypt (\<open>bcrypt_laws\<close>), the
  database (\<open>users_db_laws\<close>, which the table of the migration satisfies), Unicode case and space tables, \<open>rand\<close>, \<open>ParseFloat\<close> and \<open>ParseDuration\<close>. The
  limiter's \<open>float64\<close> operations each round once, as on a machine without a fused multiply-add; a risk
  score is only passed on.

  Not modelled: generated protobuf plumbing (descriptors, reflection, service registration); the mux's
  redirects of unclean paths; of the Java engine the writer threads (its calls are served one after the
  other), Spring's wiring, the gRPC server runner, and the state a submission that throws halfway would
  leave (on sound books none throws); the Python risk service, which the gateway sees only as the
  messages of a topic, and the web dashboard, a client of the endpoints.
\<close>

end
